(* ===== verification/Prelude.thy ===== *)
theory Prelude
  imports Main "HOL-Library.Word" "HOL-Library.List_Lexorder" "HOL-Library.Signed_Division"
begin

unbundle bit_operations_syntax

text \<open>
  Shared vocabulary of the development: bytes, the little-endian loads and stores of the hash
  code, the results of C++ functions that may throw, abort or not return, and the generic
  lemmas on lists and words that the component theories use.

  A \<open>std::string\<close> that holds text is a \<^typ>\<open>string\<close> (a HOL \<^typ>\<open>char\<close> is one byte); a buffer
  that the code hashes, compares with \<open>memcmp\<close> or stores in LevelDB is a list of 8-bit words.
\<close>


type_synonym byte = "8 word"
type_synonym bytes = "byte list"

text \<open>
  How a C++ function may end other than by returning. \<open>OutOfRange\<close> is
  \<open>std::out_of_range\<close>; \<open>CheckFailed\<close> is a failed glog \<open>CHECK\<close>, which aborts the process;
  \<open>Undefined\<close> is undefined behaviour (an uninitialised or dangling pointer, a read out of
  bounds); \<open>Terminated\<close> is \<open>std::terminate\<close>; \<open>InvalidArgument\<close> is \<open>std::invalid_argument\<close>; the
  others are the exception classes of the parser, the serializers and the SPARQL service with what
  they are constructed from.
\<close>

datatype error = OutOfRange | CheckFailed | Undefined | Terminated
  | InvalidArgument | ParseError string | SerializationError string | SparqlException string string

text \<open>
  A computation with loops has a result of type \<open>'a exec\<close>: \<open>None\<close> when it does not return,
  \<open>Some (Inl e)\<close> when it ends with the error \<open>e\<close>, \<open>Some (Inr v)\<close> when it returns \<open>v\<close>.
\<close>

type_synonym 'a exec = "(error + 'a) option"

definition exec_return :: "'a \<Rightarrow> 'a exec" where
  "exec_return v = Some (Inr v)"

definition exec_throw :: "error \<Rightarrow> 'a exec" where
  "exec_throw e = Some (Inl e)"

definition exec_bind :: "'a exec \<Rightarrow> ('a \<Rightarrow> 'b exec) \<Rightarrow> 'b exec" where
  "exec_bind m f =
     (case m of None \<Rightarrow> None | Some (Inl e) \<Rightarrow> Some (Inl e) | Some (Inr v) \<Rightarrow> f v)"

text \<open>Bytes of a text, and the conversion of a \<open>size_t\<close> to a C \<open>int\<close> argument.\<close>

definition bytes_of :: "string \<Rightarrow> bytes" where
  "bytes_of s = map of_char s"

definition int_of_size :: "nat \<Rightarrow> int" where
  "int_of_size n = sint (word_of_nat n :: 32 word)"

text \<open>Little-endian loads and stores of a word of any width.\<close>

fun le_word :: "bytes \<Rightarrow> 'a::len word" where
  "le_word [] = 0"
| "le_word (b # bs) = ucast b OR push_bit 8 (le_word bs)"

definition le_bytes :: "nat \<Rightarrow> 'a::len word \<Rightarrow> bytes" where
  "le_bytes n w = map (\<lambda>i. ucast (drop_bit (8 * i) w)) [0..<n]"

text \<open>\<open>memcpy(&dest[off], src, |src|)\<close> into a buffer that is large enough.\<close>

definition write_at :: "nat \<Rightarrow> bytes \<Rightarrow> bytes \<Rightarrow> bytes" where
  "write_at off src dest = take off dest @ src @ drop (off + length src) dest"

subsection \<open>Computations\<close>

lemma exec_bind_simps [simp]:
  "exec_bind None f = None"
  "exec_bind (Some (Inl e)) f = Some (Inl e)"
  "exec_bind (Some (Inr v)) f = f v"
  "exec_bind (exec_return v) f = f v"
  "exec_bind (exec_throw e) f = exec_throw e"
  by (simp_all add: exec_bind_def exec_return_def exec_throw_def)

lemma exec_bind_return_right [simp]: "exec_bind m exec_return = m"
  by (auto simp: exec_bind_def exec_return_def split: option.splits sum.splits)

lemma exec_bind_assoc: "exec_bind (exec_bind m f) g = exec_bind m (\<lambda>v. exec_bind (f v) g)"
  by (auto simp: exec_bind_def split: option.splits sum.splits)

lemma exec_return_inject [simp]: "exec_return a = exec_return b \<longleftrightarrow> a = b"
  by (simp add: exec_return_def)

subsection \<open>Words and their bytes\<close>

lemma bit_le_word_iff:
  "bit (le_word bs :: 'a::len word) i \<longleftrightarrow>
     i < LENGTH('a) \<and> i div 8 < length bs \<and> bit (bs ! (i div 8)) (i mod 8)"
proof (induction bs arbitrary: i)
  case Nil
  then show ?case by simp
next
  case (Cons b bs)
  show ?case
  proof (cases "i < 8")
    case True
    then show ?thesis by (auto simp: bit_simps)
  next
    case False
    then obtain j where j: "i = j + 8" by (metis add.commute le_Suc_ex not_less)
    have "(j + 8) div 8 = Suc (j div 8)" "(j + 8) mod 8 = j mod 8" by simp_all
    moreover have "\<not> bit b (j + 8)" by (simp add: bit_word.rep_eq)
    ultimately show ?thesis
      using Cons.IH [of j] by (auto simp: bit_simps j)
  qed
qed

lemma le_word_Cons_xor:
  "(le_word (b # bs) :: 'a::len word) = ucast b XOR push_bit 8 (le_word bs)"
proof (rule bit_eqI)
  fix i assume "possible_bit TYPE('a word) i"
  have "\<not> bit b i" if "8 \<le> i" using that by (simp add: bit_word.rep_eq)
  then show "bit (le_word (b # bs) :: 'a word) i \<longleftrightarrow> bit (ucast b XOR push_bit 8 (le_word bs) :: 'a word) i"
    by (auto simp: bit_simps)
qed

lemma le_word_inject:
  assumes "(le_word as :: 'a::len word) = le_word bs"
    and "length as = length bs" and "8 * length as \<le> LENGTH('a)"
  shows "as = bs"
proof (rule nth_equalityI)
  show "length as = length bs" by (rule assms(2))
  fix i assume i: "i < length as"
  show "as ! i = bs ! i"
  proof (rule bit_eqI)
    fix n assume "possible_bit TYPE(byte) n"
    then have n: "n < 8" by simp
    let ?k = "8 * i + n"
    have k: "?k div 8 = i" "?k mod 8 = n" "?k < LENGTH('a)"
      using i n assms(3) by auto
    have "bit (le_word as :: 'a word) ?k \<longleftrightarrow> bit (le_word bs :: 'a word) ?k"
      by (simp only: assms(1))
    then show "bit (as ! i) n \<longleftrightarrow> bit (bs ! i) n"
      using i k assms(2) by (simp only: bit_le_word_iff) simp
  qed
qed

lemma length_le_bytes [simp]: "length (le_bytes n w) = n"
  by (simp add: le_bytes_def)

lemma le_word_le_bytes:
  assumes "LENGTH('a) = 8 * n"
  shows "le_word (le_bytes n w) = (w :: 'a::len word)"
proof (rule bit_eqI)
  fix i assume "possible_bit TYPE('a word) i"
  then have i: "i < 8 * n" using assms by simp
  then have "i div 8 < n" by auto
  moreover have "8 * (i div 8) + i mod 8 = i" by simp
  ultimately show "bit (le_word (le_bytes n w) :: 'a word) i \<longleftrightarrow> bit w i"
    using i assms by (auto simp: bit_le_word_iff le_bytes_def bit_simps)
qed

lemma le_bytes_inject:
  assumes "LENGTH('a) = 8 * n"
  shows "le_bytes n (w :: 'a::len word) = le_bytes n v \<longleftrightarrow> w = v"
  using le_word_le_bytes [OF assms] by metis

lemma mult_inverse_inject:
  fixes x y c d :: "'a::len word"
  assumes "c * d = 1" and "x * c = y * c"
  shows "x = y"
proof -
  have "x * c * d = y * c * d" using assms(2) by simp
  then show ?thesis using assms(1) by (simp add: mult.assoc)
qed

lemma drop_bit_fixpoint_zero:
  fixes z :: "'a::len word"
  assumes "z = drop_bit n z" and "0 < n"
  shows "z = 0"
proof -
  have "z = drop_bit (k * n) z" for k
  proof (induction k)
    case (Suc k)
    have "drop_bit (Suc k * n) z = drop_bit (k * n) (drop_bit n z)"
      by (simp add: drop_bit_drop_bit ac_simps)
    with Suc assms(1) show ?case by simp
  qed simp
  from this [of "LENGTH('a)"] have "z = drop_bit (LENGTH('a) * n) z" .
  moreover have "drop_bit (LENGTH('a) * n) z = 0"
  proof (rule bit_eqI)
    fix i
    have "\<not> LENGTH('a) * n + i < LENGTH('a)" using assms(2) by (cases n) auto
    then show "bit (drop_bit (LENGTH('a) * n) z) i \<longleftrightarrow> bit (0 :: 'a word) i"
      by (auto simp: bit_simps dest: bit_imp_le_length)
  qed
  ultimately show ?thesis by simp
qed

lemma xorshift_inject:
  fixes x y :: "'a::len word"
  assumes "x XOR drop_bit n x = y XOR drop_bit n y" and "0 < n"
  shows "x = y"
proof -
  have "x XOR y = drop_bit n (x XOR y)"
    using assms(1) by (metis (no_types, lifting) drop_bit_xor xor.assoc xor.commute xor.left_commute xor_self_eq xor.right_neutral)
  from drop_bit_fixpoint_zero [OF this assms(2)] show ?thesis by (metis xor_self_eq xor.assoc xor.left_neutral xor.right_neutral)
qed

lemma rotl_inject:
  fixes x y :: "'a::len word"
  assumes "push_bit r x OR drop_bit (n - r) x = push_bit r y OR drop_bit (n - r) y"
    and n: "n = LENGTH('a)" and "r < n"
  shows "x = y"
proof (rule bit_eqI)
  fix i assume "possible_bit TYPE('a word) i"
  then have i: "i < LENGTH('a)" by simp
  have eq: "bit (push_bit r x OR drop_bit (n - r) x) k \<longleftrightarrow>
      bit (push_bit r y OR drop_bit (n - r) y) k" for k
    by (simp only: assms(1))
  show "bit x i \<longleftrightarrow> bit y i"
  proof (cases "i < n - r")
    case True
    then show ?thesis using eq [of "i + r"] assms(2,3) by (auto simp: bit_simps dest: bit_imp_le_length)
  next
    case False
    then show ?thesis using eq [of "i - (n - r)"] i assms(2,3)
      by (auto simp: bit_simps dest: bit_imp_le_length)
  qed
qed

lemma odd_mult_zero:
  fixes z c :: "'a::len word"
  assumes "odd c" and "z * c = 0"
  shows "z = 0"
proof -
  have odd_c: "odd (uint c)" using assms(1) by transfer simp
  have "(uint z * uint c) mod 2 ^ LENGTH('a) = 0"
    using assms(2) by (metis uint_word_ariths(3) unsigned_0)
  then have "2 ^ LENGTH('a) dvd uint z * uint c" by (simp add: mod_eq_0_iff_dvd)
  moreover have "coprime (2 ^ LENGTH('a)) (uint c)"
    using odd_c by (simp add: coprime_commute)
  ultimately have "2 ^ LENGTH('a) dvd uint z"
    by (simp add: coprime_dvd_mult_left_iff)
  moreover have "0 \<le> uint z" "uint z < 2 ^ LENGTH('a)" by simp_all
  ultimately have "uint z = 0" using zdvd_not_zless [of "uint z" "2 ^ LENGTH('a)"] by linarith
  then show ?thesis by (simp add: uint_0_iff)
qed

lemma odd_mult_inject [simp]:
  fixes x y c :: "'a::len word"
  assumes "odd c"
  shows "x * c = y * c \<longleftrightarrow> x = y"
proof
  assume "x * c = y * c"
  then have "(x - y) * c = 0" by (simp add: left_diff_distrib)
  from odd_mult_zero [OF assms this] show "x = y" by simp
qed simp

lemma xor_left_inject [simp]: "(a :: 'a::len word) XOR x = a XOR y \<longleftrightarrow> x = y"
  by (metis xor.assoc xor.left_neutral xor_self_eq)

lemma xor_right_inject [simp]: "(x :: 'a::len word) XOR a = y XOR a \<longleftrightarrow> x = y"
  by (metis xor.commute xor_left_inject)

lemma xorshift_eq_iff [simp]:
  fixes x y :: "'a::len word"
  shows "0 < n \<Longrightarrow> x XOR drop_bit n x = y XOR drop_bit n y \<longleftrightarrow> x = y"
  using xorshift_inject by blast

lemma sum2_inject:
  fixes a b c d :: "'a::len word"
  shows "a + b = c + d \<and> b + (a + b) = d + (c + d) \<longleftrightarrow> a = c \<and> b = d"
  by (metis add_right_cancel)

lemma sum4_inject:
  fixes a b c d p q r s :: "'a::len word"
  shows "a + b + c + d = p + q + r + s \<and> b + (a + b + c + d) = q + (p + q + r + s) \<and>
     c + (a + b + c + d) = r + (p + q + r + s) \<and> d + (a + b + c + d) = s + (p + q + r + s) \<longleftrightarrow>
     a = p \<and> b = q \<and> c = r \<and> d = s"
  by (metis add_right_cancel)

lemma if_xor: "(if c then k XOR x else k) = k XOR (if c then x else (0 :: 'a::len word))"
  by simp

lemma if_same_eq: "(if c then x else y) = (if c then x else z) \<longleftrightarrow> c \<or> y = z"
  by simp

lemma byte_bit_bound: "bit (b :: byte) i \<Longrightarrow> i < 8"
  by (drule bit_imp_le_length) simp

lemma le_word_chunk_Suc:
  "(le_word (take (Suc k) (drop m d)) :: 'a::len word) =
     le_word (take k (drop m d)) XOR
     (if m + k < length d then push_bit (8 * k) (ucast (d ! (m + k))) else 0)"
proof (rule bit_eqI)
  fix i assume i: "possible_bit TYPE('a word) i"
  consider "i div 8 < k" | "i div 8 = k" | "k < i div 8" by linarith
  then show "bit (le_word (take (Suc k) (drop m d)) :: 'a word) i \<longleftrightarrow>
      bit (le_word (take k (drop m d)) XOR
        (if m + k < length d then push_bit (8 * k) (ucast (d ! (m + k))) else 0) :: 'a word) i"
  proof cases
    case 1
    then have "\<not> 8 * k \<le> i" by linarith
    with 1 show ?thesis by (auto simp: bit_simps bit_le_word_iff)
  next
    case 2
    then have "8 * k \<le> i" "i - 8 * k = i mod 8" by (auto simp: minus_mult_div_eq_mod)
    with 2 i show ?thesis by (auto simp: bit_simps bit_le_word_iff)
  next
    case 3
    then have "\<not> i - 8 * k < 8" by linarith
    with 3 show ?thesis by (auto simp: bit_simps bit_le_word_iff dest!: byte_bit_bound)
  qed
qed

lemma le_word_chunk4:
  "(le_word (take 4 (drop m d)) :: 'a::len word) =
     (if m + 1 \<le> length d then push_bit 0 (ucast (d ! m)) else 0) XOR
     (if m + 2 \<le> length d then push_bit 8 (ucast (d ! (m + 1))) else 0) XOR
     (if m + 3 \<le> length d then push_bit 16 (ucast (d ! (m + 2))) else 0) XOR
     (if m + 4 \<le> length d then push_bit 24 (ucast (d ! (m + 3))) else 0)"
proof -
  have four: "(4::nat) = Suc (Suc (Suc (Suc 0)))" by simp
  show ?thesis
    unfolding four le_word_chunk_Suc
    by (simp add: Suc_le_eq numeral_2_eq_2 numeral_3_eq_3 xor.assoc)
qed

lemma le_word_chunk8:
  "(le_word (take 8 (drop m d)) :: 'a::len word) =
     le_word (take 4 (drop m d)) XOR
     (if m + 5 \<le> length d then push_bit 32 (ucast (d ! (m + 4))) else 0) XOR
     (if m + 6 \<le> length d then push_bit 40 (ucast (d ! (m + 5))) else 0) XOR
     (if m + 7 \<le> length d then push_bit 48 (ucast (d ! (m + 6))) else 0) XOR
     (if m + 8 \<le> length d then push_bit 56 (ucast (d ! (m + 7))) else 0)"
proof -
  have eight: "(8::nat) = Suc (Suc (Suc (Suc 4)))" by simp
  show ?thesis
    unfolding eight le_word_chunk_Suc
    by (simp add: xor.assoc)
qed

lemma le_word_chunk_inject:
  assumes "(le_word (take n (drop m a)) :: 'w::len word) = le_word (take n (drop m b))"
    and "length a = length b" and "8 * n \<le> LENGTH('w)"
  shows "take n (drop m a) = take n (drop m b)"
  using assms by (intro le_word_inject [OF assms(1)]) auto

lemma le_bytes_inject_32: "le_bytes 4 (w :: 32 word) = le_bytes 4 v \<longleftrightarrow> w = v"
  by (rule le_bytes_inject) simp

lemma int_length_le: "numeral k \<le> int n \<longleftrightarrow> numeral k \<le> n" "1 \<le> int n \<longleftrightarrow> 1 \<le> n"
  by auto

lemma len_and_mask:
  "int n AND 3 = int (n mod 4)" "int n AND 15 = int (n mod 16)"
proof -
  have "int n AND mask 2 = int (n mod 4)" "int n AND mask 4 = int (n mod 16)"
    by (simp_all only: take_bit_eq_mask [symmetric] take_bit_eq_mod) (simp_all add: zmod_int)
  then show "int n AND 3 = int (n mod 4)" "int n AND 15 = int (n mod 16)"
    by (simp_all add: mask_eq_exp_minus_1)
qed

lemma sdiv_int_nat:
  "int n sdiv 4 = int (n div 4)" "int n sdiv 16 = int (n div 16)"
  by (simp_all add: signed_divide_int_def zdiv_int sgn_if)

lemma nth_eq_from_drop:
  assumes "drop n a = drop n b" and "n \<le> j" and "j < length a" and "length a = length b"
  shows "a ! j = b ! j"
proof -
  have "a ! j = drop n a ! (j - n)" "b ! j = drop n b ! (j - n)"
    using assms(2-4) by simp_all
  then show ?thesis by (simp only: assms(1))
qed

lemma foldl_inject:
  assumes "\<And>j h g. B (K j) h = B (K j) g \<longleftrightarrow> h = g"
  shows "foldl (\<lambda>h j. B (K j) h) s js = foldl (\<lambda>h j. B (K j) h) t js \<longleftrightarrow> s = t"
  by (induction js arbitrary: s t) (simp_all add: assms)

lemma foldl_single_difference:
  assumes "\<And>k h g. B k h = B k g \<longleftrightarrow> h = g" and "\<And>k l h. B k h = B l h \<longleftrightarrow> k = l"
    and "distinct js" and "\<And>j. j \<in> set js \<Longrightarrow> j \<noteq> i \<Longrightarrow> K j = L j"
  shows "foldl (\<lambda>h j. B (K j) h) s js = foldl (\<lambda>h j. B (L j) h) s js \<longleftrightarrow> (i \<in> set js \<longrightarrow> K i = L i)"
proof (cases "i \<in> set js")
  case False
  then have "foldl (\<lambda>h j. B (K j) h) s js = foldl (\<lambda>h j. B (L j) h) s js"
    using assms(4) by (intro foldl_cong refl) metis
  with False show ?thesis by simp
next
  case True
  then obtain xs ys where js: "js = xs @ i # ys" by (auto simp: in_set_conv_decomp)
  with assms(3) have notin: "i \<notin> set xs" "i \<notin> set ys" by auto
  have xs: "foldl (\<lambda>h j. B (K j) h) s xs = foldl (\<lambda>h j. B (L j) h) s xs"
    using assms(4) notin js by (intro foldl_cong refl) (metis in_set_conv_decomp Un_iff list.set_intros(2) set_append)
  have ys: "foldl (\<lambda>h j. B (K j) h) t ys = foldl (\<lambda>h j. B (L j) h) t ys" for t
    using assms(4) notin js by (intro foldl_cong refl) (metis in_set_conv_decomp Un_iff list.set_intros(2) set_append)
  show ?thesis
    unfolding js foldl_append foldl_Cons xs ys foldl_inject [of B L, OF assms(1)] assms(2)
    using True js by simp
qed

subsection \<open>Sorted lists\<close>

lemma takeWhile_sorted_filter:
  assumes "sorted_wrt R xs" and "\<And>x y. x \<in> set xs \<Longrightarrow> y \<in> set xs \<Longrightarrow> R x y \<Longrightarrow> P y \<Longrightarrow> P x"
  shows "takeWhile P xs = filter P xs"
  using assms
proof (induction xs)
  case (Cons x xs)
  have "takeWhile P xs = filter P xs"
    using Cons.prems by (intro Cons.IH) auto
  moreover have "\<forall>y \<in> set xs. \<not> P y" if "\<not> P x"
    using Cons.prems(1) Cons.prems(2) [of x] that by auto
  ultimately show ?case by (simp add: filter_empty_conv)
qed simp

lemma dropWhile_sorted_filter:
  assumes "sorted_wrt R xs" and "\<And>x y. x \<in> set xs \<Longrightarrow> y \<in> set xs \<Longrightarrow> R x y \<Longrightarrow> P y \<Longrightarrow> P x"
  shows "dropWhile P xs = filter (\<lambda>x. \<not> P x) xs"
  using assms
proof (induction xs)
  case (Cons x xs)
  have "dropWhile P xs = filter (\<lambda>x. \<not> P x) xs"
    using Cons.prems by (intro Cons.IH) auto
  moreover have "\<forall>y \<in> set xs. \<not> P y" if "\<not> P x"
    using Cons.prems(1) Cons.prems(2) [of x] that by auto
  ultimately show ?case by simp
qed simp

lemma distinct_set_singleton:
  assumes "distinct xs" and "set xs = {a}"
  shows "xs = [a]"
proof -
  have "length xs = 1" using distinct_card [OF assms(1)] assms(2) by simp
  then obtain b where "xs = [b]" by (auto simp: length_Suc_conv)
  with assms(2) show ?thesis by simp
qed

end
