(* ===== verification/Rdf_Model.thy ===== *)
theory Rdf_Model
  imports Prelude
begin

text \<open>
  \<open>model/model.proto\<close>, \<open>model/rdf_model.h\<close> and \<open>model/rdf_model.cc\<close>: the RDF data model.

  A message of the schema is a record; a \<open>oneof\<close> is a datatype with one constructor per case
  and one for the unset \<open>oneof\<close>; a field of message type has presence and is an \<open>option\<close>; a
  \<open>string\<close> field of proto3 has no presence and defaults to the empty string. The operations of
  the schema language that the code calls on a message are the ones below: the accessors that
  return the default instance of an unset field, \<open>mutable_x()\<close> (which selects the case of a
  \<open>oneof\<close> and creates the default message), \<open>MergeFrom\<close> (non-default scalars overwrite,
  set sub-messages merge) and \<open>Swap\<close>.

  The classes \<open>Namespace\<close>, \<open>URI\<close>, \<open>BNode\<close>, \<open>StringLiteral\<close>, \<open>DatatypeLiteral\<close> and
  \<open>Statement\<close> have the message as their only member and are modelled by it; \<open>Value\<close> and
  \<open>Resource\<close> add a type tag and are records. An operation that moves from an argument returns
  the new object together with what is left in the argument.
\<close>

subsection \<open>Messages of model.proto\<close>

record proto_Namespace =
  ns_prefix :: string
  ns_uri :: string

record proto_URI =
  uri_uri :: string

record proto_BNode =
  bnode_id :: string

datatype proto_Resource = R_NONE | R_URI proto_URI | R_BNODE proto_BNode

record proto_StringLiteral =
  sl_content :: string
  sl_language :: string

record proto_DatatypeLiteral =
  dl_content :: string
  dl_datatype :: "proto_URI option"

datatype proto_Literal = L_NONE | L_STRING proto_StringLiteral | L_DATA proto_DatatypeLiteral

datatype proto_Value = V_NONE | V_RESOURCE proto_Resource | V_LITERAL proto_Literal

record proto_Statement =
  st_subject :: "proto_Resource option"
  st_predicate :: "proto_URI option"
  st_object :: "proto_Value option"
  st_context :: "proto_Resource option"

subsection \<open>Default instances, presence and accessors\<close>

definition URI_default :: proto_URI where
  "URI_default = \<lparr>uri_uri = ''''\<rparr>"

definition BNode_default :: proto_BNode where
  "BNode_default = \<lparr>bnode_id = ''''\<rparr>"

definition StringLiteral_default :: proto_StringLiteral where
  "StringLiteral_default = \<lparr>sl_content = '''', sl_language = ''''\<rparr>"

definition DatatypeLiteral_default :: proto_DatatypeLiteral where
  "DatatypeLiteral_default = \<lparr>dl_content = '''', dl_datatype = None\<rparr>"

definition Namespace_default :: proto_Namespace where
  "Namespace_default = \<lparr>ns_prefix = '''', ns_uri = ''''\<rparr>"

definition Statement_default :: proto_Statement where
  "Statement_default = \<lparr>st_subject = None, st_predicate = None, st_object = None, st_context = None\<rparr>"

fun has_uri :: "proto_Resource \<Rightarrow> bool" where
  "has_uri (R_URI _) = True" | "has_uri _ = False"

fun has_bnode :: "proto_Resource \<Rightarrow> bool" where
  "has_bnode (R_BNODE _) = True" | "has_bnode _ = False"

fun resource_uri :: "proto_Resource \<Rightarrow> proto_URI" where
  "resource_uri (R_URI u) = u" | "resource_uri _ = URI_default"

fun resource_bnode :: "proto_Resource \<Rightarrow> proto_BNode" where
  "resource_bnode (R_BNODE b) = b" | "resource_bnode _ = BNode_default"

fun has_stringliteral :: "proto_Literal \<Rightarrow> bool" where
  "has_stringliteral (L_STRING _) = True" | "has_stringliteral _ = False"

fun has_dataliteral :: "proto_Literal \<Rightarrow> bool" where
  "has_dataliteral (L_DATA _) = True" | "has_dataliteral _ = False"

fun literal_stringliteral :: "proto_Literal \<Rightarrow> proto_StringLiteral" where
  "literal_stringliteral (L_STRING l) = l" | "literal_stringliteral _ = StringLiteral_default"

fun literal_dataliteral :: "proto_Literal \<Rightarrow> proto_DatatypeLiteral" where
  "literal_dataliteral (L_DATA l) = l" | "literal_dataliteral _ = DatatypeLiteral_default"

fun has_resource :: "proto_Value \<Rightarrow> bool" where
  "has_resource (V_RESOURCE _) = True" | "has_resource _ = False"

fun has_literal :: "proto_Value \<Rightarrow> bool" where
  "has_literal (V_LITERAL _) = True" | "has_literal _ = False"

fun value_resource :: "proto_Value \<Rightarrow> proto_Resource" where
  "value_resource (V_RESOURCE r) = r" | "value_resource _ = R_NONE"

fun value_literal :: "proto_Value \<Rightarrow> proto_Literal" where
  "value_literal (V_LITERAL l) = l" | "value_literal _ = L_NONE"

fun field_or :: "'a \<Rightarrow> 'a option \<Rightarrow> 'a" where
  "field_or d None = d" | "field_or d (Some x) = x"

definition datatype_of :: "proto_DatatypeLiteral \<Rightarrow> proto_URI" where
  "datatype_of l = field_or URI_default (dl_datatype l)"

definition subject_of :: "proto_Statement \<Rightarrow> proto_Resource" where
  "subject_of s = field_or R_NONE (st_subject s)"

definition predicate_of :: "proto_Statement \<Rightarrow> proto_URI" where
  "predicate_of s = field_or URI_default (st_predicate s)"

definition object_of :: "proto_Statement \<Rightarrow> proto_Value" where
  "object_of s = field_or V_NONE (st_object s)"

definition context_of :: "proto_Statement \<Rightarrow> proto_Resource" where
  "context_of s = field_or R_NONE (st_context s)"

definition has_context :: "proto_Statement \<Rightarrow> bool" where
  "has_context s = (st_context s \<noteq> None)"

subsection \<open>mutable and MergeFrom\<close>

definition mutable_uri :: "(proto_URI \<Rightarrow> proto_URI) \<Rightarrow> proto_Resource \<Rightarrow> proto_Resource" where
  "mutable_uri f r = R_URI (f (resource_uri r))"

definition mutable_bnode :: "(proto_BNode \<Rightarrow> proto_BNode) \<Rightarrow> proto_Resource \<Rightarrow> proto_Resource" where
  "mutable_bnode f r = R_BNODE (f (resource_bnode r))"

definition mutable_stringliteral ::
  "(proto_StringLiteral \<Rightarrow> proto_StringLiteral) \<Rightarrow> proto_Literal \<Rightarrow> proto_Literal" where
  "mutable_stringliteral f l = L_STRING (f (literal_stringliteral l))"

definition mutable_dataliteral ::
  "(proto_DatatypeLiteral \<Rightarrow> proto_DatatypeLiteral) \<Rightarrow> proto_Literal \<Rightarrow> proto_Literal" where
  "mutable_dataliteral f l = L_DATA (f (literal_dataliteral l))"

definition mutable_resource :: "(proto_Resource \<Rightarrow> proto_Resource) \<Rightarrow> proto_Value \<Rightarrow> proto_Value" where
  "mutable_resource f v = V_RESOURCE (f (value_resource v))"

definition mutable_literal :: "(proto_Literal \<Rightarrow> proto_Literal) \<Rightarrow> proto_Value \<Rightarrow> proto_Value" where
  "mutable_literal f v = V_LITERAL (f (value_literal v))"

definition merge_string :: "string \<Rightarrow> string \<Rightarrow> string" where
  "merge_string dst src = (if src \<noteq> '''' then src else dst)"

definition merge_field :: "('a \<Rightarrow> 'a \<Rightarrow> 'a) \<Rightarrow> 'a \<Rightarrow> 'a option \<Rightarrow> 'a option \<Rightarrow> 'a option" where
  "merge_field m d dst src = (case src of None \<Rightarrow> dst | Some x \<Rightarrow> Some (m (field_or d dst) x))"

definition URI_MergeFrom :: "proto_URI \<Rightarrow> proto_URI \<Rightarrow> proto_URI" where
  "URI_MergeFrom dst src = dst\<lparr>uri_uri := merge_string (uri_uri dst) (uri_uri src)\<rparr>"

definition BNode_MergeFrom :: "proto_BNode \<Rightarrow> proto_BNode \<Rightarrow> proto_BNode" where
  "BNode_MergeFrom dst src = dst\<lparr>bnode_id := merge_string (bnode_id dst) (bnode_id src)\<rparr>"

definition StringLiteral_MergeFrom ::
  "proto_StringLiteral \<Rightarrow> proto_StringLiteral \<Rightarrow> proto_StringLiteral" where
  "StringLiteral_MergeFrom dst src =
     \<lparr>sl_content = merge_string (sl_content dst) (sl_content src),
      sl_language = merge_string (sl_language dst) (sl_language src)\<rparr>"

definition DatatypeLiteral_MergeFrom ::
  "proto_DatatypeLiteral \<Rightarrow> proto_DatatypeLiteral \<Rightarrow> proto_DatatypeLiteral" where
  "DatatypeLiteral_MergeFrom dst src =
     \<lparr>dl_content = merge_string (dl_content dst) (dl_content src),
      dl_datatype = merge_field URI_MergeFrom URI_default (dl_datatype dst) (dl_datatype src)\<rparr>"

fun Resource_MergeFrom :: "proto_Resource \<Rightarrow> proto_Resource \<Rightarrow> proto_Resource" where
  "Resource_MergeFrom dst R_NONE = dst"
| "Resource_MergeFrom dst (R_URI u) = mutable_uri (\<lambda>d. URI_MergeFrom d u) dst"
| "Resource_MergeFrom dst (R_BNODE b) = mutable_bnode (\<lambda>d. BNode_MergeFrom d b) dst"

fun Literal_MergeFrom :: "proto_Literal \<Rightarrow> proto_Literal \<Rightarrow> proto_Literal" where
  "Literal_MergeFrom dst L_NONE = dst"
| "Literal_MergeFrom dst (L_STRING l) =
     mutable_stringliteral (\<lambda>d. StringLiteral_MergeFrom d l) dst"
| "Literal_MergeFrom dst (L_DATA l) =
     mutable_dataliteral (\<lambda>d. DatatypeLiteral_MergeFrom d l) dst"

fun Value_MergeFrom :: "proto_Value \<Rightarrow> proto_Value \<Rightarrow> proto_Value" where
  "Value_MergeFrom dst V_NONE = dst"
| "Value_MergeFrom dst (V_RESOURCE r) = mutable_resource (\<lambda>d. Resource_MergeFrom d r) dst"
| "Value_MergeFrom dst (V_LITERAL l) = mutable_literal (\<lambda>d. Literal_MergeFrom d l) dst"

definition Statement_MergeFrom :: "proto_Statement \<Rightarrow> proto_Statement \<Rightarrow> proto_Statement" where
  "Statement_MergeFrom dst src =
     \<lparr>st_subject = merge_field Resource_MergeFrom R_NONE (st_subject dst) (st_subject src),
      st_predicate = merge_field URI_MergeFrom URI_default (st_predicate dst) (st_predicate src),
      st_object = merge_field Value_MergeFrom V_NONE (st_object dst) (st_object src),
      st_context = merge_field Resource_MergeFrom R_NONE (st_context dst) (st_context src)\<rparr>"

subsection \<open>Namespace\<close>

text \<open>The constructor from C strings; Raptor passes a null prefix for the base namespace.\<close>

definition Namespace_from_c :: "string option \<Rightarrow> string \<Rightarrow> proto_Namespace" where
  "Namespace_from_c prefix uri =
     (let internal = Namespace_default;
          internal = (case prefix of None \<Rightarrow> internal | Some p \<Rightarrow> internal\<lparr>ns_prefix := p\<rparr>)
      in internal\<lparr>ns_uri := uri\<rparr>)"

definition Namespace_new :: "string \<Rightarrow> string \<Rightarrow> proto_Namespace" where
  "Namespace_new prefix uri = Namespace_default\<lparr>ns_prefix := prefix, ns_uri := uri\<rparr>"

definition Namespace_move :: "proto_Namespace \<Rightarrow> proto_Namespace \<times> proto_Namespace" where
  "Namespace_move ns = (ns, Namespace_default)"

definition Namespace_setPrefix :: "proto_Namespace \<Rightarrow> string \<Rightarrow> proto_Namespace" where
  "Namespace_setPrefix ns prefix = ns\<lparr>ns_prefix := prefix\<rparr>"

definition Namespace_setUri :: "proto_Namespace \<Rightarrow> string \<Rightarrow> proto_Namespace" where
  "Namespace_setUri ns uri = ns\<lparr>ns_uri := uri\<rparr>"

subsection \<open>URI and BNode\<close>

definition URI_new :: "string \<Rightarrow> proto_URI" where
  "URI_new uri = URI_default\<lparr>uri_uri := uri\<rparr>"

definition URI_move :: "proto_URI \<Rightarrow> proto_URI \<times> proto_URI" where
  "URI_move other = (other, URI_default)"

definition URI_assign_copy :: "proto_URI \<Rightarrow> proto_URI \<Rightarrow> proto_URI" where
  "URI_assign_copy this other = URI_MergeFrom this other"

definition URI_assign_move :: "proto_URI \<Rightarrow> proto_URI \<Rightarrow> proto_URI \<times> proto_URI" where
  "URI_assign_move this other = (other, this)"

definition URI_setUri :: "proto_URI \<Rightarrow> string \<Rightarrow> proto_URI" where
  "URI_setUri this uri = this\<lparr>uri_uri := uri\<rparr>"

definition BNode_new :: "string \<Rightarrow> proto_BNode" where
  "BNode_new n = BNode_default\<lparr>bnode_id := n\<rparr>"

definition BNode_move :: "proto_BNode \<Rightarrow> proto_BNode \<times> proto_BNode" where
  "BNode_move other = (other, BNode_default)"

definition BNode_assign_copy :: "proto_BNode \<Rightarrow> proto_BNode \<Rightarrow> proto_BNode" where
  "BNode_assign_copy this other = BNode_MergeFrom this other"

definition BNode_assign_move :: "proto_BNode \<Rightarrow> proto_BNode \<Rightarrow> proto_BNode \<times> proto_BNode" where
  "BNode_assign_move this other = (other, this)"

definition BNode_setId :: "proto_BNode \<Rightarrow> string \<Rightarrow> proto_BNode" where
  "BNode_setId this n = this\<lparr>bnode_id := n\<rparr>"

subsection \<open>Literals\<close>

definition StringLiteral_new :: "string \<Rightarrow> proto_StringLiteral" where
  "StringLiteral_new content = StringLiteral_default\<lparr>sl_content := content\<rparr>"

definition StringLiteral_new_lang :: "string \<Rightarrow> string \<Rightarrow> proto_StringLiteral" where
  "StringLiteral_new_lang content language =
     StringLiteral_default\<lparr>sl_content := content, sl_language := language\<rparr>"

definition StringLiteral_move :: "proto_StringLiteral \<Rightarrow> proto_StringLiteral \<times> proto_StringLiteral" where
  "StringLiteral_move other = (other, StringLiteral_default)"

definition StringLiteral_assign_copy ::
  "proto_StringLiteral \<Rightarrow> proto_StringLiteral \<Rightarrow> proto_StringLiteral" where
  "StringLiteral_assign_copy this other = StringLiteral_MergeFrom this other"

definition StringLiteral_assign_move ::
  "proto_StringLiteral \<Rightarrow> proto_StringLiteral \<Rightarrow> proto_StringLiteral \<times> proto_StringLiteral" where
  "StringLiteral_assign_move this other = (other, this)"

definition StringLiteral_setContent :: "proto_StringLiteral \<Rightarrow> string \<Rightarrow> proto_StringLiteral" where
  "StringLiteral_setContent this content = this\<lparr>sl_content := content\<rparr>"

definition StringLiteral_setLanguage :: "proto_StringLiteral \<Rightarrow> string \<Rightarrow> proto_StringLiteral" where
  "StringLiteral_setLanguage this language = this\<lparr>sl_language := language\<rparr>"

definition DatatypeLiteral_new :: "string \<Rightarrow> proto_URI \<Rightarrow> proto_DatatypeLiteral" where
  "DatatypeLiteral_new content datatype =
     (let internal = DatatypeLiteral_default\<lparr>dl_content := content\<rparr>
      in internal\<lparr>dl_datatype := Some (URI_MergeFrom (datatype_of internal) datatype)\<rparr>)"

definition DatatypeLiteral_move ::
  "proto_DatatypeLiteral \<Rightarrow> proto_DatatypeLiteral \<times> proto_DatatypeLiteral" where
  "DatatypeLiteral_move other = (other, DatatypeLiteral_default)"

definition DatatypeLiteral_assign_copy ::
  "proto_DatatypeLiteral \<Rightarrow> proto_DatatypeLiteral \<Rightarrow> proto_DatatypeLiteral" where
  "DatatypeLiteral_assign_copy this other = DatatypeLiteral_MergeFrom this other"

definition DatatypeLiteral_assign_move ::
  "proto_DatatypeLiteral \<Rightarrow> proto_DatatypeLiteral \<Rightarrow> proto_DatatypeLiteral \<times> proto_DatatypeLiteral" where
  "DatatypeLiteral_assign_move this other = (other, this)"

definition DatatypeLiteral_setContent ::
  "proto_DatatypeLiteral \<Rightarrow> string \<Rightarrow> proto_DatatypeLiteral" where
  "DatatypeLiteral_setContent this content = this\<lparr>dl_content := content\<rparr>"

definition DatatypeLiteral_setDatatype ::
  "proto_DatatypeLiteral \<Rightarrow> proto_URI \<Rightarrow> proto_DatatypeLiteral" where
  "DatatypeLiteral_setDatatype this datatype =
     this\<lparr>dl_datatype := Some (URI_MergeFrom (datatype_of this) datatype)\<rparr>"

subsection \<open>Resource\<close>

datatype resource_type = RT_URI | RT_BNODE | RT_NONE

record rdf_Resource =
  res_type :: resource_type
  res_internal :: proto_Resource

definition Resource_default :: rdf_Resource where
  "Resource_default = \<lparr>res_type = RT_NONE, res_internal = R_NONE\<rparr>"

definition Resource_type_of :: "proto_Resource \<Rightarrow> resource_type" where
  "Resource_type_of v = (if has_uri v then RT_URI else if has_bnode v then RT_BNODE else RT_NONE)"

definition Resource_from_message :: "proto_Resource \<Rightarrow> rdf_Resource" where
  "Resource_from_message v = \<lparr>res_type = Resource_type_of v, res_internal = v\<rparr>"

definition Resource_from_message_move :: "proto_Resource \<Rightarrow> rdf_Resource \<times> proto_Resource" where
  "Resource_from_message_move v = (\<lparr>res_type = Resource_type_of v, res_internal = v\<rparr>, R_NONE)"

definition Resource_from_string :: "string \<Rightarrow> rdf_Resource" where
  "Resource_from_string uri =
     \<lparr>res_type = RT_URI, res_internal = mutable_uri (\<lambda>d. d\<lparr>uri_uri := uri\<rparr>) R_NONE\<rparr>"

definition Resource_from_URI :: "proto_URI \<Rightarrow> rdf_Resource" where
  "Resource_from_URI uri =
     \<lparr>res_type = RT_URI, res_internal = mutable_uri (\<lambda>d. URI_MergeFrom d uri) R_NONE\<rparr>"

definition Resource_from_BNode :: "proto_BNode \<Rightarrow> rdf_Resource" where
  "Resource_from_BNode bnode =
     \<lparr>res_type = RT_BNODE, res_internal = mutable_bnode (\<lambda>d. BNode_MergeFrom d bnode) R_NONE\<rparr>"

definition Resource_from_URI_move :: "proto_URI \<Rightarrow> rdf_Resource \<times> proto_URI" where
  "Resource_from_URI_move uri =
     (\<lparr>res_type = RT_URI, res_internal = mutable_uri (\<lambda>_. uri) R_NONE\<rparr>, URI_default)"

definition Resource_from_BNode_move :: "proto_BNode \<Rightarrow> rdf_Resource \<times> proto_BNode" where
  "Resource_from_BNode_move bnode =
     (\<lparr>res_type = RT_BNODE, res_internal = mutable_bnode (\<lambda>_. bnode) R_NONE\<rparr>, BNode_default)"

definition Resource_assign_URI :: "rdf_Resource \<Rightarrow> proto_URI \<Rightarrow> rdf_Resource" where
  "Resource_assign_URI this uri =
     this\<lparr>res_type := RT_URI,
          res_internal := mutable_uri (\<lambda>d. URI_MergeFrom d uri) (res_internal this)\<rparr>"

definition Resource_assign_BNode :: "rdf_Resource \<Rightarrow> proto_BNode \<Rightarrow> rdf_Resource" where
  "Resource_assign_BNode this bnode =
     this\<lparr>res_type := RT_BNODE,
          res_internal := mutable_bnode (\<lambda>d. BNode_MergeFrom d bnode) (res_internal this)\<rparr>"

definition Resource_assign_URI_move :: "rdf_Resource \<Rightarrow> proto_URI \<Rightarrow> rdf_Resource \<times> proto_URI" where
  "Resource_assign_URI_move this uri =
     (this\<lparr>res_type := RT_URI, res_internal := mutable_uri (\<lambda>_. uri) (res_internal this)\<rparr>,
      resource_uri (res_internal this))"

definition Resource_assign_BNode_move :: "rdf_Resource \<Rightarrow> proto_BNode \<Rightarrow> rdf_Resource \<times> proto_BNode" where
  "Resource_assign_BNode_move this bnode =
     (this\<lparr>res_type := RT_BNODE, res_internal := mutable_bnode (\<lambda>_. bnode) (res_internal this)\<rparr>,
      resource_bnode (res_internal this))"

definition Resource_stringValue :: "rdf_Resource \<Rightarrow> string" where
  "Resource_stringValue this =
     (case res_type this of
        RT_URI \<Rightarrow> uri_uri (resource_uri (res_internal this))
      | RT_BNODE \<Rightarrow> bnode_id (resource_bnode (res_internal this))
      | RT_NONE \<Rightarrow> '''')"

subsection \<open>Value\<close>

datatype value_type = VT_URI | VT_BNODE | VT_STRING_LITERAL | VT_DATATYPE_LITERAL | VT_NONE

record rdf_Value =
  val_type :: value_type
  val_internal :: proto_Value

definition Value_default :: rdf_Value where
  "Value_default = \<lparr>val_type = VT_NONE, val_internal = V_NONE\<rparr>"

definition Value_type_of :: "proto_Value \<Rightarrow> value_type" where
  "Value_type_of v =
     (if has_resource v then
        (if has_uri (value_resource v) then VT_URI else VT_BNODE)
      else if has_literal v then
        (if has_stringliteral (value_literal v) then VT_STRING_LITERAL else VT_DATATYPE_LITERAL)
      else VT_NONE)"

definition Value_from_message :: "proto_Value \<Rightarrow> rdf_Value" where
  "Value_from_message v = \<lparr>val_type = Value_type_of v, val_internal = v\<rparr>"

definition Value_from_message_move :: "proto_Value \<Rightarrow> rdf_Value \<times> proto_Value" where
  "Value_from_message_move v = (\<lparr>val_type = Value_type_of v, val_internal = v\<rparr>, V_NONE)"

definition Value_from_URI :: "proto_URI \<Rightarrow> rdf_Value" where
  "Value_from_URI uri =
     \<lparr>val_type = VT_URI,
      val_internal = mutable_resource (mutable_uri (\<lambda>d. URI_MergeFrom d uri)) V_NONE\<rparr>"

definition Value_from_URI_move :: "proto_URI \<Rightarrow> rdf_Value \<times> proto_URI" where
  "Value_from_URI_move uri =
     (\<lparr>val_type = VT_URI, val_internal = mutable_resource (mutable_uri (\<lambda>_. uri)) V_NONE\<rparr>,
      URI_default)"

definition Value_from_BNode :: "proto_BNode \<Rightarrow> rdf_Value" where
  "Value_from_BNode bnode =
     \<lparr>val_type = VT_BNODE,
      val_internal = mutable_resource (mutable_bnode (\<lambda>d. BNode_MergeFrom d bnode)) V_NONE\<rparr>"

definition Value_from_BNode_move :: "proto_BNode \<Rightarrow> rdf_Value \<times> proto_BNode" where
  "Value_from_BNode_move bnode =
     (\<lparr>val_type = VT_BNODE, val_internal = mutable_resource (mutable_bnode (\<lambda>_. bnode)) V_NONE\<rparr>,
      BNode_default)"

definition Value_from_StringLiteral :: "proto_StringLiteral \<Rightarrow> rdf_Value" where
  "Value_from_StringLiteral l =
     \<lparr>val_type = VT_STRING_LITERAL,
      val_internal = mutable_literal (mutable_stringliteral (\<lambda>d. StringLiteral_MergeFrom d l)) V_NONE\<rparr>"

definition Value_from_StringLiteral_move :: "proto_StringLiteral \<Rightarrow> rdf_Value \<times> proto_StringLiteral" where
  "Value_from_StringLiteral_move l =
     (\<lparr>val_type = VT_STRING_LITERAL,
       val_internal = mutable_literal (mutable_stringliteral (\<lambda>_. l)) V_NONE\<rparr>,
      StringLiteral_default)"

definition Value_from_DatatypeLiteral :: "proto_DatatypeLiteral \<Rightarrow> rdf_Value" where
  "Value_from_DatatypeLiteral l =
     \<lparr>val_type = VT_DATATYPE_LITERAL,
      val_internal = mutable_literal (mutable_dataliteral (\<lambda>d. DatatypeLiteral_MergeFrom d l)) V_NONE\<rparr>"

definition Value_from_DatatypeLiteral_move ::
  "proto_DatatypeLiteral \<Rightarrow> rdf_Value \<times> proto_DatatypeLiteral" where
  "Value_from_DatatypeLiteral_move l =
     (\<lparr>val_type = VT_DATATYPE_LITERAL,
       val_internal = mutable_literal (mutable_dataliteral (\<lambda>_. l)) V_NONE\<rparr>,
      DatatypeLiteral_default)"

definition Value_from_string :: "string \<Rightarrow> rdf_Value" where
  "Value_from_string literal =
     \<lparr>val_type = VT_STRING_LITERAL,
      val_internal =
        mutable_literal (mutable_stringliteral (\<lambda>d. d\<lparr>sl_content := literal\<rparr>)) V_NONE\<rparr>"

definition Value_assign_URI :: "rdf_Value \<Rightarrow> proto_URI \<Rightarrow> rdf_Value" where
  "Value_assign_URI this uri =
     this\<lparr>val_type := VT_URI,
          val_internal := mutable_resource (mutable_uri (\<lambda>d. URI_MergeFrom d uri)) (val_internal this)\<rparr>"

definition Value_assign_BNode :: "rdf_Value \<Rightarrow> proto_BNode \<Rightarrow> rdf_Value" where
  "Value_assign_BNode this bnode =
     this\<lparr>val_type := VT_BNODE,
          val_internal := mutable_resource (mutable_bnode (\<lambda>d. BNode_MergeFrom d bnode)) (val_internal this)\<rparr>"

definition Value_assign_StringLiteral :: "rdf_Value \<Rightarrow> proto_StringLiteral \<Rightarrow> rdf_Value" where
  "Value_assign_StringLiteral this l =
     this\<lparr>val_type := VT_STRING_LITERAL,
          val_internal := mutable_literal
            (mutable_stringliteral (\<lambda>d. StringLiteral_MergeFrom d l)) (val_internal this)\<rparr>"

definition Value_assign_DatatypeLiteral :: "rdf_Value \<Rightarrow> proto_DatatypeLiteral \<Rightarrow> rdf_Value" where
  "Value_assign_DatatypeLiteral this l =
     this\<lparr>val_type := VT_DATATYPE_LITERAL,
          val_internal := mutable_literal
            (mutable_dataliteral (\<lambda>d. DatatypeLiteral_MergeFrom d l)) (val_internal this)\<rparr>"

definition Value_assign_URI_move :: "rdf_Value \<Rightarrow> proto_URI \<Rightarrow> rdf_Value \<times> proto_URI" where
  "Value_assign_URI_move this uri =
     (this\<lparr>val_type := VT_URI,
           val_internal := mutable_resource (mutable_uri (\<lambda>_. uri)) (val_internal this)\<rparr>,
      resource_uri (value_resource (val_internal this)))"

definition Value_assign_BNode_move :: "rdf_Value \<Rightarrow> proto_BNode \<Rightarrow> rdf_Value \<times> proto_BNode" where
  "Value_assign_BNode_move this bnode =
     (this\<lparr>val_type := VT_BNODE,
           val_internal := mutable_resource (mutable_bnode (\<lambda>_. bnode)) (val_internal this)\<rparr>,
      resource_bnode (value_resource (val_internal this)))"

definition Value_assign_StringLiteral_move ::
  "rdf_Value \<Rightarrow> proto_StringLiteral \<Rightarrow> rdf_Value \<times> proto_StringLiteral" where
  "Value_assign_StringLiteral_move this l =
     (this\<lparr>val_type := VT_STRING_LITERAL,
           val_internal := mutable_literal (mutable_stringliteral (\<lambda>_. l)) (val_internal this)\<rparr>,
      literal_stringliteral (value_literal (val_internal this)))"

definition Value_assign_DatatypeLiteral_move ::
  "rdf_Value \<Rightarrow> proto_DatatypeLiteral \<Rightarrow> rdf_Value \<times> proto_DatatypeLiteral" where
  "Value_assign_DatatypeLiteral_move this l =
     (this\<lparr>val_type := VT_DATATYPE_LITERAL,
           val_internal := mutable_literal (mutable_dataliteral (\<lambda>_. l)) (val_internal this)\<rparr>,
      literal_dataliteral (value_literal (val_internal this)))"

definition Value_stringValue :: "rdf_Value \<Rightarrow> string" where
  "Value_stringValue this =
     (case val_type this of
        VT_URI \<Rightarrow> uri_uri (resource_uri (value_resource (val_internal this)))
      | VT_BNODE \<Rightarrow> bnode_id (resource_bnode (value_resource (val_internal this)))
      | VT_STRING_LITERAL \<Rightarrow> sl_content (literal_stringliteral (value_literal (val_internal this)))
      | VT_DATATYPE_LITERAL \<Rightarrow> dl_content (literal_dataliteral (value_literal (val_internal this)))
      | VT_NONE \<Rightarrow> '''')"

subsection \<open>Statement\<close>

definition Statement_new :: "rdf_Resource \<Rightarrow> proto_URI \<Rightarrow> rdf_Value \<Rightarrow> proto_Statement" where
  "Statement_new subject predicate object =
     Statement_default
       \<lparr>st_subject := Some (Resource_MergeFrom R_NONE (res_internal subject)),
        st_predicate := Some (URI_MergeFrom URI_default predicate),
        st_object := Some (Value_MergeFrom V_NONE (val_internal object))\<rparr>"

definition Statement_new_context ::
  "rdf_Resource \<Rightarrow> proto_URI \<Rightarrow> rdf_Value \<Rightarrow> rdf_Resource \<Rightarrow> proto_Statement" where
  "Statement_new_context subject predicate object context =
     (Statement_new subject predicate object)
       \<lparr>st_context := Some (Resource_MergeFrom R_NONE (res_internal context))\<rparr>"

text \<open>
  The moving constructors swap the freshly created sub-messages with the arguments' messages;
  the type tags of the arguments stay as they were.
\<close>

definition Statement_new_move ::
  "rdf_Resource \<Rightarrow> proto_URI \<Rightarrow> rdf_Value \<Rightarrow>
   proto_Statement \<times> (rdf_Resource \<times> proto_URI \<times> rdf_Value)" where
  "Statement_new_move subject predicate object =
     (Statement_default\<lparr>st_subject := Some (res_internal subject), st_predicate := Some predicate,
        st_object := Some (val_internal object)\<rparr>,
      (subject\<lparr>res_internal := R_NONE\<rparr>, URI_default, object\<lparr>val_internal := V_NONE\<rparr>))"

definition Statement_new_context_move ::
  "rdf_Resource \<Rightarrow> proto_URI \<Rightarrow> rdf_Value \<Rightarrow> rdf_Resource \<Rightarrow>
   proto_Statement \<times> (rdf_Resource \<times> proto_URI \<times> rdf_Value \<times> rdf_Resource)" where
  "Statement_new_context_move subject predicate object context =
     (Statement_default\<lparr>st_subject := Some (res_internal subject), st_predicate := Some predicate,
        st_object := Some (val_internal object), st_context := Some (res_internal context)\<rparr>,
      (subject\<lparr>res_internal := R_NONE\<rparr>, URI_default, object\<lparr>val_internal := V_NONE\<rparr>,
       context\<lparr>res_internal := R_NONE\<rparr>))"

definition Statement_move :: "proto_Statement \<Rightarrow> proto_Statement \<times> proto_Statement" where
  "Statement_move other = (other, Statement_default)"

definition Statement_assign_copy :: "proto_Statement \<Rightarrow> proto_Statement \<Rightarrow> proto_Statement" where
  "Statement_assign_copy this other = Statement_MergeFrom this other"

definition Statement_assign_move ::
  "proto_Statement \<Rightarrow> proto_Statement \<Rightarrow> proto_Statement \<times> proto_Statement" where
  "Statement_assign_move this other = (other, this)"

definition getSubject :: "proto_Statement \<Rightarrow> rdf_Resource" where
  "getSubject this = Resource_from_message (subject_of this)"

definition setSubject :: "proto_Statement \<Rightarrow> rdf_Resource \<Rightarrow> proto_Statement" where
  "setSubject this subject =
     this\<lparr>st_subject := Some (Resource_MergeFrom (subject_of this) (res_internal subject))\<rparr>"

definition getPredicate :: "proto_Statement \<Rightarrow> proto_URI" where
  "getPredicate this = predicate_of this"

definition setPredicate :: "proto_Statement \<Rightarrow> proto_URI \<Rightarrow> proto_Statement" where
  "setPredicate this predicate =
     this\<lparr>st_predicate := Some (URI_MergeFrom (predicate_of this) predicate)\<rparr>"

definition getObject :: "proto_Statement \<Rightarrow> rdf_Value" where
  "getObject this = Value_from_message (object_of this)"

definition setObject :: "proto_Statement \<Rightarrow> rdf_Value \<Rightarrow> proto_Statement" where
  "setObject this object =
     this\<lparr>st_object := Some (Value_MergeFrom (object_of this) (val_internal object))\<rparr>"

definition getContext :: "proto_Statement \<Rightarrow> rdf_Resource" where
  "getContext this = Resource_from_message (context_of this)"

definition setContext :: "proto_Statement \<Rightarrow> rdf_Resource \<Rightarrow> proto_Statement" where
  "setContext this context =
     this\<lparr>st_context := Some (Resource_MergeFrom (context_of this) (res_internal context))\<rparr>"

definition hasContext :: "proto_Statement \<Rightarrow> bool" where
  "hasContext this = has_context this"

subsection \<open>Turtle output\<close>

definition URI_as_turtle :: "proto_URI \<Rightarrow> string" where
  "URI_as_turtle uri = ''<'' @ uri_uri uri @ ''>''"

definition BNode_as_turtle :: "proto_BNode \<Rightarrow> string" where
  "BNode_as_turtle bnode = ''_:'' @ bnode_id bnode"

definition StringLiteral_as_turtle :: "proto_StringLiteral \<Rightarrow> string" where
  "StringLiteral_as_turtle literal =
     (if sl_language literal = '''' then [CHR 0x22] @ sl_content literal @ [CHR 0x22]
      else [CHR 0x22] @ sl_content literal @ [CHR 0x22, CHR ''@''] @ sl_language literal)"

definition DatatypeLiteral_as_turtle :: "proto_DatatypeLiteral \<Rightarrow> string" where
  "DatatypeLiteral_as_turtle literal =
     [CHR 0x22] @ dl_content literal @ [CHR 0x22, CHR ''^'', CHR ''^''] @
     URI_as_turtle (datatype_of literal)"

definition Resource_as_turtle :: "proto_Resource \<Rightarrow> string" where
  "Resource_as_turtle resource =
     (if has_uri resource then URI_as_turtle (resource_uri resource)
      else if has_bnode resource then BNode_as_turtle (resource_bnode resource)
      else '''')"

definition Value_as_turtle :: "proto_Value \<Rightarrow> string" where
  "Value_as_turtle v =
     (if has_resource v \<and> has_uri (value_resource v) then URI_as_turtle (resource_uri (value_resource v))
      else if has_resource v \<and> has_bnode (value_resource v)
      then BNode_as_turtle (resource_bnode (value_resource v))
      else if has_literal v \<and> has_stringliteral (value_literal v)
      then StringLiteral_as_turtle (literal_stringliteral (value_literal v))
      else if has_literal v \<and> has_dataliteral (value_literal v)
      then DatatypeLiteral_as_turtle (literal_dataliteral (value_literal v))
      else '''')"

definition Statement_as_turtle :: "proto_Statement \<Rightarrow> string" where
  "Statement_as_turtle this =
     (if hasContext this then
        Resource_as_turtle (context_of this) @ '' { '' @
        Resource_as_turtle (subject_of this) @ '' '' @
        URI_as_turtle (predicate_of this) @ '' '' @
        Value_as_turtle (object_of this) @ ''. }''
      else
        Resource_as_turtle (subject_of this) @ '' '' @
        URI_as_turtle (predicate_of this) @ '' '' @
        Value_as_turtle (object_of this) @ ''.'')"

subsection \<open>Merging\<close>

lemma merge_string_empty [simp]: "merge_string '''' s = s"
  by (simp add: merge_string_def)

lemma merge_string_eq_iff: "merge_string d s = s \<longleftrightarrow> s \<noteq> '''' \<or> d = ''''"
  by (auto simp: merge_string_def)

lemma merge_default [simp]:
  "URI_MergeFrom URI_default u = u"
  "BNode_MergeFrom BNode_default b = b"
  "StringLiteral_MergeFrom StringLiteral_default l = l"
  "Resource_MergeFrom R_NONE r = r"
  by (simp_all add: URI_MergeFrom_def URI_default_def BNode_MergeFrom_def BNode_default_def
      StringLiteral_MergeFrom_def StringLiteral_default_def)
    (cases r; simp add: mutable_uri_def mutable_bnode_def URI_MergeFrom_def URI_default_def
      BNode_MergeFrom_def BNode_default_def)

lemma merge_field_None [simp]: "merge_field m d None x = map_option (m d) x"
  by (cases x) (simp_all add: merge_field_def)

lemma DatatypeLiteral_merge_default [simp]: "DatatypeLiteral_MergeFrom DatatypeLiteral_default l = l"
  by (cases "dl_datatype l")
    (simp_all add: DatatypeLiteral_MergeFrom_def DatatypeLiteral_default_def)

lemma Value_merge_default [simp]: "Value_MergeFrom V_NONE v = v"
proof (cases v)
  case (V_LITERAL l)
  then show ?thesis
    by (cases l) (simp_all add: mutable_literal_def mutable_stringliteral_def mutable_dataliteral_def)
qed (simp_all add: mutable_resource_def)

lemma Statement_merge_default [simp]: "Statement_MergeFrom Statement_default s = s"
  by (cases "st_subject s"; cases "st_predicate s"; cases "st_object s"; cases "st_context s")
    (simp_all add: Statement_MergeFrom_def Statement_default_def)

text \<open>
  What the copy assignment of a string literal does. It merges, so it yields the right-hand
  side exactly when no non-empty field of the left-hand side meets an empty field of the
  right-hand side; assigning a literal without a language to one with a language keeps the old
  language.
\<close>

theorem StringLiteral_assign_copy_exact:
  "StringLiteral_assign_copy this other = other \<longleftrightarrow>
     (sl_content other = '''' \<longrightarrow> sl_content this = '''') \<and>
     (sl_language other = '''' \<longrightarrow> sl_language this = '''')"
proof -
  have "StringLiteral_assign_copy this other = other \<longleftrightarrow>
      merge_string (sl_content this) (sl_content other) = sl_content other \<and>
      merge_string (sl_language this) (sl_language other) = sl_language other"
    by (cases other) (simp add: StringLiteral_assign_copy_def StringLiteral_MergeFrom_def)
  then show ?thesis by (auto simp: merge_string_eq_iff)
qed

theorem StringLiteral_assign_copy_exact_witness:
  "StringLiteral_assign_copy (StringLiteral_new ''a'') (StringLiteral_new_lang ''b'' ''en'') =
     StringLiteral_new_lang ''b'' ''en'' \<and>
   StringLiteral_assign_copy (StringLiteral_new_lang ''b'' ''en'') (StringLiteral_new ''a'') \<noteq>
     StringLiteral_new ''a''"
  using StringLiteral_assign_copy_exact [of "StringLiteral_new ''a''" "StringLiteral_new_lang ''b'' ''en''"]
    StringLiteral_assign_copy_exact [of "StringLiteral_new_lang ''b'' ''en''" "StringLiteral_new ''a''"]
  by (simp add: StringLiteral_new_def StringLiteral_new_lang_def StringLiteral_default_def)

subsection \<open>Type tags\<close>

definition Value_tag_ok :: "rdf_Value \<Rightarrow> bool" where
  "Value_tag_ok v \<longleftrightarrow> val_type v = Value_type_of (val_internal v)"

definition Resource_tag_ok :: "rdf_Resource \<Rightarrow> bool" where
  "Resource_tag_ok r \<longleftrightarrow> res_type r = Resource_type_of (res_internal r)"

lemmas value_constructor_defs =
  Value_default_def Value_from_message_def Value_from_message_move_def Value_from_URI_def
  Value_from_URI_move_def Value_from_BNode_def Value_from_BNode_move_def
  Value_from_StringLiteral_def Value_from_StringLiteral_move_def Value_from_DatatypeLiteral_def
  Value_from_DatatypeLiteral_move_def Value_from_string_def

lemmas value_assign_defs =
  Value_assign_URI_def Value_assign_BNode_def Value_assign_StringLiteral_def
  Value_assign_DatatypeLiteral_def Value_assign_URI_move_def Value_assign_BNode_move_def
  Value_assign_StringLiteral_move_def Value_assign_DatatypeLiteral_move_def

lemmas mutable_defs =
  mutable_uri_def mutable_bnode_def mutable_stringliteral_def mutable_dataliteral_def
  mutable_resource_def mutable_literal_def

text \<open>
  The values a program can build: by the constructors, and by the assignments to a value it has.
\<close>

inductive value_built :: "rdf_Value \<Rightarrow> bool" where
  default: "value_built Value_default"
| message: "value_built (Value_from_message m)"
| message_move: "value_built (fst (Value_from_message_move m))"
| uri: "value_built (Value_from_URI u)"
| uri_move: "value_built (fst (Value_from_URI_move u))"
| bnode: "value_built (Value_from_BNode b)"
| bnode_move: "value_built (fst (Value_from_BNode_move b))"
| sliteral: "value_built (Value_from_StringLiteral l)"
| sliteral_move: "value_built (fst (Value_from_StringLiteral_move l))"
| dliteral: "value_built (Value_from_DatatypeLiteral d)"
| dliteral_move: "value_built (fst (Value_from_DatatypeLiteral_move d))"
| string: "value_built (Value_from_string s)"
| assign_uri: "value_built v \<Longrightarrow> value_built (Value_assign_URI v u)"
| assign_bnode: "value_built v \<Longrightarrow> value_built (Value_assign_BNode v b)"
| assign_sliteral: "value_built v \<Longrightarrow> value_built (Value_assign_StringLiteral v l)"
| assign_dliteral: "value_built v \<Longrightarrow> value_built (Value_assign_DatatypeLiteral v d)"
| assign_uri_move: "value_built v \<Longrightarrow> value_built (fst (Value_assign_URI_move v u))"
| assign_bnode_move: "value_built v \<Longrightarrow> value_built (fst (Value_assign_BNode_move v b))"
| assign_sliteral_move: "value_built v \<Longrightarrow> value_built (fst (Value_assign_StringLiteral_move v l))"
| assign_dliteral_move: "value_built v \<Longrightarrow> value_built (fst (Value_assign_DatatypeLiteral_move v d))"

lemma value_built_tag_ok: "value_built v \<Longrightarrow> Value_tag_ok v"
  by (induction rule: value_built.induct)
    (simp_all add: Value_tag_ok_def Value_type_of_def value_constructor_defs value_assign_defs
      mutable_defs)

text \<open>The text a message carries, whatever the case of its \<open>oneof\<close>s.\<close>

fun resource_text :: "proto_Resource \<Rightarrow> string" where
  "resource_text R_NONE = ''''"
| "resource_text (R_URI u) = uri_uri u"
| "resource_text (R_BNODE b) = bnode_id b"

fun value_text :: "proto_Value \<Rightarrow> string" where
  "value_text V_NONE = ''''"
| "value_text (V_RESOURCE r) = resource_text r"
| "value_text (V_LITERAL L_NONE) = ''''"
| "value_text (V_LITERAL (L_STRING l)) = sl_content l"
| "value_text (V_LITERAL (L_DATA l)) = dl_content l"

text \<open>
  C39: however a \<open>Value\<close> was built and reassigned, its tag selects the alternative its message
  holds, and \<open>stringValue()\<close> returns the text of that alternative.
\<close>

theorem value_built_stringValue:
  assumes "value_built v"
  shows "val_type v = Value_type_of (val_internal v) \<and>
    Value_stringValue v = value_text (val_internal v)"
proof -
  have tag: "val_type v = Value_type_of (val_internal v)"
    using value_built_tag_ok [OF assms] by (simp add: Value_tag_ok_def)
  moreover have "Value_stringValue v = value_text (val_internal v)"
    by (cases "val_internal v" rule: value_text.cases)
      (auto simp: Value_stringValue_def tag Value_type_of_def BNode_default_def
        DatatypeLiteral_default_def split: proto_Resource.split elim: has_uri.elims resource_text.elims)
  ultimately show ?thesis ..
qed

theorem value_built_stringValue_witness:
  "value_built (Value_assign_StringLiteral (Value_from_URI (URI_new ''http://a'')) (StringLiteral_new ''x'')) \<and>
   Value_stringValue (Value_assign_StringLiteral (Value_from_URI (URI_new ''http://a'')) (StringLiteral_new ''x''))
     = ''x''"
proof -
  have b: "value_built (Value_assign_StringLiteral (Value_from_URI (URI_new ''http://a'')) (StringLiteral_new ''x''))"
    by (intro value_built.intros)
  show ?thesis
    using b value_built_stringValue [OF b]
    by (simp add: value_assign_defs value_constructor_defs mutable_defs StringLiteral_new_def
        StringLiteral_default_def StringLiteral_MergeFrom_def)
qed

text \<open>
  A statement built from its parts gives them back: the getters return the messages passed to
  the constructor, and the context is present exactly when one was given.
\<close>

theorem Statement_new_getters:
  "res_internal (getSubject (Statement_new s p v)) = res_internal s \<and>
   getPredicate (Statement_new s p v) = p \<and>
   val_internal (getObject (Statement_new s p v)) = val_internal v \<and>
   \<not> hasContext (Statement_new s p v) \<and>
   res_internal (getSubject (Statement_new_context s p v c)) = res_internal s \<and>
   getPredicate (Statement_new_context s p v c) = p \<and>
   val_internal (getObject (Statement_new_context s p v c)) = val_internal v \<and>
   res_internal (getContext (Statement_new_context s p v c)) = res_internal c \<and>
   hasContext (Statement_new_context s p v c)"
  by (simp add: Statement_new_def Statement_new_context_def Statement_default_def getSubject_def
      getPredicate_def getObject_def getContext_def hasContext_def has_context_def subject_of_def
      predicate_of_def object_of_def context_of_def Resource_from_message_def Value_from_message_def)

end
