(* ===== verification/Rdf_Operators.thy ===== *)
theory Rdf_Operators
  imports Rdf_Model
begin

text \<open>
  \<open>model/rdf_operators.h\<close> and \<open>model/rdf_operators.cc\<close>: the equality operators of the messages
  and of the wrapper classes, and the \<open>std::hash\<close> specialisations.

  The hash of a message serialises it; serialisation is generated code, so the serialiser is an
  argument of the hash functions, as is \<open>std::hash<std::string>\<close>, whose value the C++ standard
  leaves to the implementation.
\<close>

subsection \<open>Equality of messages\<close>

definition Namespace_eq :: "proto_Namespace \<Rightarrow> proto_Namespace \<Rightarrow> bool" where
  "Namespace_eq lhs rhs \<longleftrightarrow> ns_uri lhs = ns_uri rhs"

definition Namespace_neq :: "proto_Namespace \<Rightarrow> proto_Namespace \<Rightarrow> bool" where
  "Namespace_neq lhs rhs \<longleftrightarrow> ns_uri lhs \<noteq> ns_uri rhs"

definition URI_eq :: "proto_URI \<Rightarrow> proto_URI \<Rightarrow> bool" where
  "URI_eq lhs rhs \<longleftrightarrow> uri_uri lhs = uri_uri rhs"

definition URI_neq :: "proto_URI \<Rightarrow> proto_URI \<Rightarrow> bool" where
  "URI_neq lhs rhs \<longleftrightarrow> uri_uri lhs \<noteq> uri_uri rhs"

definition BNode_eq :: "proto_BNode \<Rightarrow> proto_BNode \<Rightarrow> bool" where
  "BNode_eq lhs rhs \<longleftrightarrow> bnode_id lhs = bnode_id rhs"

definition BNode_neq :: "proto_BNode \<Rightarrow> proto_BNode \<Rightarrow> bool" where
  "BNode_neq lhs rhs \<longleftrightarrow> bnode_id lhs \<noteq> bnode_id rhs"

definition StringLiteral_eq :: "proto_StringLiteral \<Rightarrow> proto_StringLiteral \<Rightarrow> bool" where
  "StringLiteral_eq lhs rhs \<longleftrightarrow>
     sl_content lhs = sl_content rhs \<and> sl_language lhs = sl_language rhs"

definition StringLiteral_neq :: "proto_StringLiteral \<Rightarrow> proto_StringLiteral \<Rightarrow> bool" where
  "StringLiteral_neq lhs rhs \<longleftrightarrow>
     sl_content lhs \<noteq> sl_content rhs \<or> sl_language lhs \<noteq> sl_language rhs"

definition DatatypeLiteral_eq :: "proto_DatatypeLiteral \<Rightarrow> proto_DatatypeLiteral \<Rightarrow> bool" where
  "DatatypeLiteral_eq lhs rhs \<longleftrightarrow>
     dl_content lhs = dl_content rhs \<and> uri_uri (datatype_of lhs) = uri_uri (datatype_of rhs)"

definition DatatypeLiteral_neq :: "proto_DatatypeLiteral \<Rightarrow> proto_DatatypeLiteral \<Rightarrow> bool" where
  "DatatypeLiteral_neq lhs rhs \<longleftrightarrow>
     dl_content lhs \<noteq> dl_content rhs \<or> uri_uri (datatype_of lhs) \<noteq> uri_uri (datatype_of rhs)"

definition Value_eq :: "proto_Value \<Rightarrow> proto_Value \<Rightarrow> bool" where
  "Value_eq lhs rhs \<longleftrightarrow>
     (if has_resource lhs \<and> has_resource rhs then
        (if has_uri (value_resource lhs) \<and> has_uri (value_resource rhs) then
           URI_eq (resource_uri (value_resource lhs)) (resource_uri (value_resource rhs))
         else if has_bnode (value_resource lhs) \<and> has_bnode (value_resource rhs) then
           BNode_eq (resource_bnode (value_resource lhs)) (resource_bnode (value_resource rhs))
         else False)
      else if has_literal lhs \<and> has_literal rhs then
        (if has_stringliteral (value_literal lhs) \<and> has_stringliteral (value_literal rhs) then
           StringLiteral_eq (literal_stringliteral (value_literal lhs))
             (literal_stringliteral (value_literal rhs))
         else if has_dataliteral (value_literal lhs) \<and> has_dataliteral (value_literal rhs) then
           DatatypeLiteral_eq (literal_dataliteral (value_literal lhs))
             (literal_dataliteral (value_literal rhs))
         else False)
      else False)"

definition Value_neq :: "proto_Value \<Rightarrow> proto_Value \<Rightarrow> bool" where
  "Value_neq lhs rhs \<longleftrightarrow> \<not> Value_eq lhs rhs"

definition Resource_eq :: "proto_Resource \<Rightarrow> proto_Resource \<Rightarrow> bool" where
  "Resource_eq lhs rhs \<longleftrightarrow>
     (if has_uri lhs \<and> has_uri rhs then URI_eq (resource_uri lhs) (resource_uri rhs)
      else if has_bnode lhs \<and> has_bnode rhs then BNode_eq (resource_bnode lhs) (resource_bnode rhs)
      else False)"

definition Resource_neq :: "proto_Resource \<Rightarrow> proto_Resource \<Rightarrow> bool" where
  "Resource_neq lhs rhs \<longleftrightarrow> \<not> Resource_eq lhs rhs"

definition Statement_eq :: "proto_Statement \<Rightarrow> proto_Statement \<Rightarrow> bool" where
  "Statement_eq lhs rhs \<longleftrightarrow>
     Resource_eq (subject_of lhs) (subject_of rhs) \<and>
     URI_eq (predicate_of lhs) (predicate_of rhs) \<and>
     Value_eq (object_of lhs) (object_of rhs) \<and>
     Resource_eq (context_of lhs) (context_of rhs)"

definition Statement_neq :: "proto_Statement \<Rightarrow> proto_Statement \<Rightarrow> bool" where
  "Statement_neq lhs rhs \<longleftrightarrow> \<not> Statement_eq lhs rhs"

subsection \<open>Equality of the wrapper classes\<close>

text \<open>
  The wrappers compare their messages. For the classes modelled by their message this is the
  operator above; \<open>Value\<close> and \<open>Resource\<close> ignore the type tag.
\<close>

definition rdf_Value_eq :: "rdf_Value \<Rightarrow> rdf_Value \<Rightarrow> bool" where
  "rdf_Value_eq lhs rhs \<longleftrightarrow> Value_eq (val_internal lhs) (val_internal rhs)"

definition rdf_Value_neq :: "rdf_Value \<Rightarrow> rdf_Value \<Rightarrow> bool" where
  "rdf_Value_neq lhs rhs \<longleftrightarrow> \<not> rdf_Value_eq lhs rhs"

definition rdf_Resource_eq :: "rdf_Resource \<Rightarrow> rdf_Resource \<Rightarrow> bool" where
  "rdf_Resource_eq lhs rhs \<longleftrightarrow> Resource_eq (res_internal lhs) (res_internal rhs)"

definition rdf_Resource_neq :: "rdf_Resource \<Rightarrow> rdf_Resource \<Rightarrow> bool" where
  "rdf_Resource_neq lhs rhs \<longleftrightarrow> \<not> rdf_Resource_eq lhs rhs"

subsection \<open>Hashing\<close>

type_synonym string_hash = "bytes \<Rightarrow> 64 word"

definition hash_Message :: "string_hash \<Rightarrow> ('m \<Rightarrow> bytes) \<Rightarrow> 'm \<Rightarrow> 64 word" where
  "hash_Message std_hash SerializeToString k = std_hash (SerializeToString k)"

definition hash_URI :: "string_hash \<Rightarrow> proto_URI \<Rightarrow> 64 word" where
  "hash_URI std_hash k = std_hash (bytes_of (uri_uri k))"

definition hash_BNode :: "string_hash \<Rightarrow> proto_BNode \<Rightarrow> 64 word" where
  "hash_BNode std_hash k = std_hash (bytes_of (bnode_id k))"

definition hash_Resource ::
  "string_hash \<Rightarrow> (proto_Resource \<Rightarrow> bytes) \<Rightarrow> proto_Resource \<Rightarrow> 64 word" where
  "hash_Resource std_hash SerializeToString k =
     (if has_uri k then hash_URI std_hash (resource_uri k)
      else if has_bnode k then hash_BNode std_hash (resource_bnode k)
      else hash_Message std_hash SerializeToString k)"

definition hash_Value :: "string_hash \<Rightarrow> (proto_Value \<Rightarrow> bytes) \<Rightarrow> proto_Value \<Rightarrow> 64 word" where
  "hash_Value std_hash SerializeToString k = hash_Message std_hash SerializeToString k"

definition hash_StringLiteral ::
  "string_hash \<Rightarrow> (proto_StringLiteral \<Rightarrow> bytes) \<Rightarrow> proto_StringLiteral \<Rightarrow> 64 word" where
  "hash_StringLiteral std_hash SerializeToString k = hash_Message std_hash SerializeToString k"

definition hash_DatatypeLiteral ::
  "string_hash \<Rightarrow> (proto_DatatypeLiteral \<Rightarrow> bytes) \<Rightarrow> proto_DatatypeLiteral \<Rightarrow> 64 word" where
  "hash_DatatypeLiteral std_hash SerializeToString k = hash_Message std_hash SerializeToString k"

definition hash_Statement ::
  "string_hash \<Rightarrow> (proto_Statement \<Rightarrow> bytes) \<Rightarrow> proto_Statement \<Rightarrow> 64 word" where
  "hash_Statement std_hash SerializeToString k = hash_Message std_hash SerializeToString k"

definition hash_Namespace ::
  "string_hash \<Rightarrow> (proto_Namespace \<Rightarrow> bytes) \<Rightarrow> proto_Namespace \<Rightarrow> 64 word" where
  "hash_Namespace std_hash SerializeToString k = hash_Message std_hash SerializeToString k"

subsection \<open>What the equality operators decide\<close>

text \<open>
  \<open>operator==\<close> compares the texts of the alternatives, and calls two messages different when a
  \<open>oneof\<close> is unset on either side. The operators are therefore equality up to \<open>value_norm\<close>
  (an absent datatype reads like the empty one) on the messages in which every \<open>oneof\<close> on the
  way is set, and false elsewhere.
\<close>

fun value_set :: "proto_Value \<Rightarrow> bool" where
  "value_set (V_RESOURCE r) = (r \<noteq> R_NONE)"
| "value_set (V_LITERAL l) = (l \<noteq> L_NONE)"
| "value_set V_NONE = False"

fun value_norm :: "proto_Value \<Rightarrow> proto_Value" where
  "value_norm (V_LITERAL (L_DATA l)) = V_LITERAL (L_DATA (l\<lparr>dl_datatype := Some (datatype_of l)\<rparr>))"
| "value_norm v = v"

definition statement_complete :: "proto_Statement \<Rightarrow> bool" where
  "statement_complete s \<longleftrightarrow>
     subject_of s \<noteq> R_NONE \<and> value_set (object_of s) \<and> context_of s \<noteq> R_NONE"

definition statement_norm ::
  "proto_Statement \<Rightarrow> proto_Resource \<times> proto_URI \<times> proto_Value \<times> proto_Resource" where
  "statement_norm s = (subject_of s, predicate_of s, value_norm (object_of s), context_of s)"

lemmas message_eq_defs =
  URI_eq_def BNode_eq_def StringLiteral_eq_def DatatypeLiteral_eq_def Namespace_eq_def

lemma URI_eq_iff [simp]: "URI_eq a b \<longleftrightarrow> a = b"
  by (cases a; cases b) (simp add: URI_eq_def)

lemma BNode_eq_iff [simp]: "BNode_eq a b \<longleftrightarrow> a = b"
  by (cases a; cases b) (simp add: BNode_eq_def)

lemma StringLiteral_eq_iff [simp]: "StringLiteral_eq a b \<longleftrightarrow> a = b"
  by (cases a; cases b) (simp add: StringLiteral_eq_def)

lemma DatatypeLiteral_eq_iff [simp]:
  "DatatypeLiteral_eq a b \<longleftrightarrow>
     a\<lparr>dl_datatype := Some (datatype_of a)\<rparr> = b\<lparr>dl_datatype := Some (datatype_of b)\<rparr>"
  by (cases a; cases b) (auto simp: DatatypeLiteral_eq_def datatype_of_def)

lemma Resource_eq_iff [simp]: "Resource_eq a b \<longleftrightarrow> a = b \<and> a \<noteq> R_NONE"
  by (cases a; cases b) (simp_all add: Resource_eq_def)

lemma Value_eq_iff [simp]: "Value_eq a b \<longleftrightarrow> value_set a \<and> value_norm a = value_norm b"
proof (cases a)
  case (V_RESOURCE r)
  then show ?thesis
    by (cases b rule: value_norm.cases; cases r)
      (auto simp: Value_eq_def elim: has_uri.elims has_bnode.elims)
next
  case (V_LITERAL l)
  then show ?thesis
    by (cases b rule: value_norm.cases; cases l)
      (auto simp: Value_eq_def elim: has_stringliteral.elims has_dataliteral.elims)
qed (simp add: Value_eq_def)

text \<open>
  Equality of statements. Two statements compare equal exactly when the first is complete
  (subject, object and context all set) and both agree field by field, an absent datatype
  reading like the empty one.
\<close>

theorem Statement_eq_characterised:
  "Statement_eq a b \<longleftrightarrow> statement_complete a \<and> statement_norm a = statement_norm b"
  by (auto simp: Statement_eq_def statement_complete_def statement_norm_def)

text \<open>
  The consequence for statements in the default graph: a statement without a context is
  different from every statement, itself included, so the operator is not reflexive.
\<close>

theorem Statement_eq_needs_context:
  assumes "\<not> has_context a"
  shows "\<not> Statement_eq a b \<and> Statement_neq a a"
  using assms
  by (simp add: Statement_eq_def Statement_neq_def has_context_def context_of_def)

theorem Statement_eq_needs_context_witness:
  "\<not> has_context (Statement_new (Resource_from_string ''s'') (URI_new ''p'') (Value_from_string ''o'')) \<and>
   \<not> Statement_eq (Statement_new (Resource_from_string ''s'') (URI_new ''p'') (Value_from_string ''o''))
       (Statement_new (Resource_from_string ''s'') (URI_new ''p'') (Value_from_string ''o''))"
proof -
  have "\<not> has_context (Statement_new (Resource_from_string ''s'') (URI_new ''p'') (Value_from_string ''o''))"
    by (simp add: has_context_def Statement_new_def Statement_default_def)
  from Statement_eq_needs_context [OF this] this show ?thesis by simp
qed

subsection \<open>The operators and the hashes together\<close>

text \<open>
  \<open>std::unordered_set<Resource>\<close>, as the services use it: \<open>insert\<close> keeps the set as it is when
  an element with the same hash compares equal. The order of iteration is unspecified; the model
  keeps the order of insertion and the lemmas speak of the set of elements only.
\<close>

definition unordered_set_insert :: "('a \<Rightarrow> 64 word) \<Rightarrow> ('a \<Rightarrow> 'a \<Rightarrow> bool) \<Rightarrow> 'a \<Rightarrow> 'a list \<Rightarrow> 'a list" where
  "unordered_set_insert hash eq x s =
     (if \<exists>y \<in> set s. hash y = hash x \<and> eq y x then s else s @ [x])"

text \<open>
  What such a container asks of its element type: equal elements have equal hashes, on a set of
  elements on which the operator is equality.
\<close>

locale hash_contract =
  fixes hash :: "'a \<Rightarrow> 64 word" and eq :: "'a \<Rightarrow> 'a \<Rightarrow> bool" and dom :: "'a \<Rightarrow> bool"
  assumes eq_iff: "dom x \<Longrightarrow> eq y x \<longleftrightarrow> y = x"
begin

lemma equal_hash: "dom x \<Longrightarrow> eq y x \<Longrightarrow> hash y = hash x"
  by (simp add: eq_iff)

lemma insert_step: "dom x \<Longrightarrow> unordered_set_insert hash eq x s = (if x \<in> set s then s else s @ [x])"
  by (auto simp: unordered_set_insert_def eq_iff)

lemma insert_all:
  assumes "\<forall>x \<in> set xs. dom x" and "distinct s"
  shows "set (foldl (\<lambda>s x. unordered_set_insert hash eq x s) s xs) = set s \<union> set xs \<and>
    distinct (foldl (\<lambda>s x. unordered_set_insert hash eq x s) s xs)"
  using assms by (induction xs arbitrary: s) (auto simp: insert_step)

end

interpretation resource_hash:
  hash_contract "hash_Resource std_hash ser" Resource_eq "\<lambda>r. r \<noteq> R_NONE" for std_hash ser
  by unfold_locales auto

text \<open>
  The contract of \<open>std::unordered_set\<close> holds for resources: resources that compare equal have
  the same hash, for every string hash and every serialiser.
\<close>

theorem Resource_hash_respects_eq:
  assumes "Resource_eq a b"
  shows "hash_Resource std_hash SerializeToString a = hash_Resource std_hash SerializeToString b"
  using assms by (intro resource_hash.equal_hash) auto

theorem Resource_hash_respects_eq_witness:
  "Resource_eq (R_URI (URI_new ''u'')) (res_internal (Resource_from_string ''u'')) \<and>
   hash_Resource (\<lambda>s. of_nat (length s)) (\<lambda>_. []) (R_URI (URI_new ''u'')) =
   hash_Resource (\<lambda>s. of_nat (length s)) (\<lambda>_. []) (res_internal (Resource_from_string ''u''))"
proof -
  have "Resource_eq (R_URI (URI_new ''u'')) (res_internal (Resource_from_string ''u''))"
    by (simp add: Resource_from_string_def mutable_uri_def URI_new_def URI_default_def)
  from Resource_hash_respects_eq [OF this] this show ?thesis by (simp only:)
qed

subsection \<open>Turtle output against equality\<close>

fun literal_content :: "proto_Value \<Rightarrow> string" where
  "literal_content (V_LITERAL (L_STRING l)) = sl_content l"
| "literal_content (V_LITERAL (L_DATA l)) = dl_content l"
| "literal_content _ = ''''"

lemma delimited_inject:
  "d \<notin> set x \<Longrightarrow> d \<notin> set y \<Longrightarrow> x @ d # r = y @ d # s \<longleftrightarrow> x = y \<and> r = s"
proof (induction x arbitrary: y)
  case Nil
  then show ?case by (cases y) auto
next
  case (Cons a x)
  then show ?case by (cases y) auto
qed

lemma uri_uri_inject: "uri_uri (a :: proto_URI) = uri_uri b \<longleftrightarrow> a = b"
  by (cases a; cases b) simp

lemma bnode_id_inject: "bnode_id (a :: proto_BNode) = bnode_id b \<longleftrightarrow> a = b"
  by (cases a; cases b) simp

lemma dl_datatype_update_inject:
  "(a :: proto_DatatypeLiteral)\<lparr>dl_datatype := x\<rparr> = b\<lparr>dl_datatype := y\<rparr> \<longleftrightarrow> dl_content a = dl_content b \<and> x = y"
  by (cases a; cases b) simp

lemmas as_turtle_defs =
  Value_as_turtle_def URI_as_turtle_def BNode_as_turtle_def StringLiteral_as_turtle_def
  DatatypeLiteral_as_turtle_def

text \<open>
  C40: the Turtle text of a value determines it. The writer escapes nothing, so this needs that no
  literal content holds a quotation mark; then two set values have the same text exactly when
  \<open>operator==\<close> calls them equal.
\<close>

theorem Value_as_turtle_faithful:
  assumes "value_set a" and "value_set b"
    and "CHR 0x22 \<notin> set (literal_content a)" and "CHR 0x22 \<notin> set (literal_content b)"
  shows "Value_as_turtle a = Value_as_turtle b \<longleftrightarrow> Value_eq a b"
  using assms
  by (cases a rule: literal_content.cases; cases b rule: literal_content.cases)
    (auto simp: as_turtle_defs delimited_inject uri_uri_inject bnode_id_inject
      dl_datatype_update_inject elim!: has_uri.elims has_bnode.elims split: if_splits)

theorem Value_as_turtle_faithful_witness:
  "Value_as_turtle (val_internal (Value_from_string ''x'')) \<noteq>
     Value_as_turtle (val_internal (Value_from_URI (URI_new ''x''))) \<and>
   \<not> Value_eq (val_internal (Value_from_string ''x'')) (val_internal (Value_from_URI (URI_new ''x'')))"
proof -
  have "value_set (val_internal (Value_from_string ''x''))"
    "value_set (val_internal (Value_from_URI (URI_new ''x'')))"
    "CHR 0x22 \<notin> set (literal_content (val_internal (Value_from_string ''x'')))"
    "CHR 0x22 \<notin> set (literal_content (val_internal (Value_from_URI (URI_new ''x''))))"
    by (simp_all add: value_constructor_defs mutable_defs)
  from Value_as_turtle_faithful [OF this] show ?thesis
    by (simp add: value_constructor_defs mutable_defs)
qed

end
