(* ===== verification/LevelDB.thy ===== *)
theory LevelDB
  imports Rdf_Operators
begin

text \<open>
  What the persistence layer uses of LevelDB and of the code generated for the messages, neither
  of which is part of the sources.

  \<open>environment\<close> collects the calls as the fields of a record that the model's operations take
  as an argument; an operation that may fail returns an \<open>option\<close> (\<open>None\<close> for a status that is
  not \<open>ok\<close>). The locales state the documented behaviour: a database is a list of entries in the
  order of its comparator, a write applies the operations of a batch in order, an iterator walks
  over the entries its database had when the iterator was made, and parsing inverts serialising.
  The last part is a reference environment that satisfies them: sorted lists, and the wire format
  of protocol buffers.
\<close>

subsection \<open>The interface\<close>

datatype batch_op = Put bytes bytes | Delete bytes

type_synonym WriteBatch = "batch_op list"
type_synonym comparator = "bytes \<Rightarrow> bytes \<Rightarrow> int"
type_synonym entry = "bytes \<times> bytes"

text \<open>
  \<open>db_Open None path\<close> opens with the default options, \<open>db_Open (Some c) path\<close> with a custom
  comparator. \<open>ParseFromString\<close> returns the success flag and the message.
\<close>

record ('db, 'it) environment =
  db_Open :: "comparator option \<Rightarrow> string \<Rightarrow> 'db option"
  db_Get :: "'db \<Rightarrow> bytes \<Rightarrow> bytes option"
  db_Write :: "'db \<Rightarrow> WriteBatch \<Rightarrow> 'db option"
  db_NewIterator :: "'db \<Rightarrow> 'it"
  it_SeekToFirst :: "'it \<Rightarrow> 'it"
  it_Seek :: "'it \<Rightarrow> bytes \<Rightarrow> 'it"
  it_Next :: "'it \<Rightarrow> 'it"
  it_Valid :: "'it \<Rightarrow> bool"
  it_key :: "'it \<Rightarrow> bytes"
  it_value :: "'it \<Rightarrow> bytes"
  slice_compare :: comparator
  ser_Resource :: "proto_Resource \<Rightarrow> bytes"
  ser_URI :: "proto_URI \<Rightarrow> bytes"
  ser_Value :: "proto_Value \<Rightarrow> bytes"
  ser_Statement :: "proto_Statement \<Rightarrow> bytes"
  ser_Namespace :: "proto_Namespace \<Rightarrow> bytes"
  parse_Statement :: "bytes \<Rightarrow> bool \<times> proto_Statement"
  parse_Namespace :: "bytes \<Rightarrow> bool \<times> proto_Namespace"
  is_x86_64 :: bool

subsection \<open>Three-way comparison of byte strings\<close>

fun bytes_compare :: comparator where
  "bytes_compare [] [] = 0"
| "bytes_compare [] (y # ys) = -1"
| "bytes_compare (x # xs) [] = 1"
| "bytes_compare (x # xs) (y # ys) =
     (if x < y then -1 else if y < x then 1 else bytes_compare xs ys)"

text \<open>\<open>memcmp(a, b, n)\<close> on buffers of at least \<open>n\<close> bytes; only the sign is specified.\<close>

definition memcmp :: "bytes \<Rightarrow> bytes \<Rightarrow> nat \<Rightarrow> int" where
  "memcmp a b n = bytes_compare (take n a) (take n b)"

text \<open>A comparator that is a linear order on the keys of a database.\<close>

locale key_order =
  fixes c :: comparator and keys :: "bytes set"
  assumes c_refl: "a \<in> keys \<Longrightarrow> c a a = 0"
    and c_eq: "a \<in> keys \<Longrightarrow> b \<in> keys \<Longrightarrow> c a b = 0 \<Longrightarrow> a = b"
    and c_flip: "a \<in> keys \<Longrightarrow> b \<in> keys \<Longrightarrow> c a b < 0 \<longleftrightarrow> c b a > 0"
    and c_trans: "a \<in> keys \<Longrightarrow> b \<in> keys \<Longrightarrow> d \<in> keys \<Longrightarrow> c a b < 0 \<Longrightarrow> c b d < 0 \<Longrightarrow> c a d < 0"

lemma bytes_compare_refl [simp]: "bytes_compare a a = 0"
  by (induction a) simp_all

lemma bytes_compare_0 [simp]: "bytes_compare a b = 0 \<longleftrightarrow> a = b"
  by (induction a b rule: bytes_compare.induct) auto

lemma bytes_compare_flip: "bytes_compare a b < 0 \<longleftrightarrow> bytes_compare b a > 0"
  by (induction a b rule: bytes_compare.induct) auto

lemma bytes_compare_trans:
  "bytes_compare a b < 0 \<Longrightarrow> bytes_compare b d < 0 \<Longrightarrow> bytes_compare a d < 0"
proof (induction a b arbitrary: d rule: bytes_compare.induct)
  case (4 x xs y ys)
  then show ?case by (cases d) (auto split: if_splits)
next
  case (2 y ys)
  then show ?case by (cases d) auto
qed auto

interpretation bytes_order: key_order bytes_compare UNIV
proof unfold_locales
  fix a b d
  show "bytes_compare a b < 0 \<Longrightarrow> bytes_compare b d < 0 \<Longrightarrow> bytes_compare a d < 0"
    by (rule bytes_compare_trans)
qed (simp_all add: bytes_compare_flip)

text \<open>The keys below, at and above a common prefix.\<close>

lemma bytes_compare_append:
  "length a = length b \<Longrightarrow> bytes_compare (a @ x) (b @ y) =
     (if a = b then bytes_compare x y else bytes_compare a b)"
proof (induction a b rule: bytes_compare.induct)
  case (4 u a v b)
  then show ?case by auto
qed auto

lemma bytes_compare_least: "0 \<le> bytes_compare k (replicate (length k) 0)"
  by (induction k) (auto simp: word_less_nat_alt)

lemma bytes_compare_greatest: "bytes_compare k (replicate (length k) 0xFF) \<le> 0"
proof (induction k)
  case (Cons b k)
  have "(0xFF :: byte) = - 1" by simp
  then have "b \<le> 0xFF" by (simp only: word_n1_ge)
  then show ?case using Cons by (auto simp: not_less)
qed simp

subsection \<open>What a write does to the entries\<close>

fun apply_op :: "comparator \<Rightarrow> entry list \<Rightarrow> batch_op \<Rightarrow> entry list" where
  "apply_op c es (Put k v) = [e \<leftarrow> es. c (fst e) k < 0] @ (k, v) # [e \<leftarrow> es. 0 < c (fst e) k]"
| "apply_op c es (Delete k) = [e \<leftarrow> es. c (fst e) k \<noteq> 0]"

fun op_key :: "batch_op \<Rightarrow> bytes" where
  "op_key (Put k v) = k"
| "op_key (Delete k) = k"

abbreviation sorted_entries :: "comparator \<Rightarrow> entry list \<Rightarrow> bool" where
  "sorted_entries c \<equiv> sorted_wrt (\<lambda>a b. c (fst a) (fst b) < 0)"

text \<open>The effect of an operation on the set of entries, for a comparator that is an order.\<close>

fun apply_op_set :: "entry set \<Rightarrow> batch_op \<Rightarrow> entry set" where
  "apply_op_set M (Put k v) = insert (k, v) {e \<in> M. fst e \<noteq> k}"
| "apply_op_set M (Delete k) = {e \<in> M. fst e \<noteq> k}"

context key_order
begin

lemma c_neg_or_pos: "a \<in> keys \<Longrightarrow> b \<in> keys \<Longrightarrow> a \<noteq> b \<longleftrightarrow> c a b < 0 \<or> 0 < c a b"
  using c_eq c_refl by (metis less_irrefl linorder_neqE_linordered_idom)

lemma c_nonzero: "a \<in> keys \<Longrightarrow> b \<in> keys \<Longrightarrow> c a b \<noteq> 0 \<longleftrightarrow> a \<noteq> b"
  using c_eq c_refl by blast

lemma apply_op_keeps:
  assumes "fst ` set es \<subseteq> keys" and "op_key op \<in> keys" and "sorted_entries c es"
  shows "sorted_entries c (apply_op c es op)" and "fst ` set (apply_op c es op) \<subseteq> keys"
    and "set (apply_op c es op) = apply_op_set (set es) op"
proof -
  have es: "fst e \<in> keys" if "e \<in> set es" for e using that assms(1) by auto
  show "fst ` set (apply_op c es op) \<subseteq> keys" using assms(1,2) by (cases op) auto
  show "set (apply_op c es op) = apply_op_set (set es) op"
    using assms(2) es c_refl by (cases op) (auto simp: c_neg_or_pos c_nonzero)
  show "sorted_entries c (apply_op c es op)"
  proof (cases op)
    case (Put k v)
    with assms(2) have k: "k \<in> keys" by simp
    have "c k (fst e) < 0" if "e \<in> set es" "0 < c (fst e) k" for e
      using c_flip [OF k es [OF that(1)]] that(2) by simp
    then show ?thesis
      using Put assms(3) k es c_trans by (auto simp: sorted_wrt_append sorted_wrt_filter)
  qed (use assms(3) in \<open>simp add: sorted_wrt_filter\<close>)
qed

lemma apply_batch_keeps:
  assumes "fst ` set es \<subseteq> keys" and "\<forall>op \<in> set b. op_key op \<in> keys" and "sorted_entries c es"
  shows "sorted_entries c (foldl (apply_op c) es b) \<and> fst ` set (foldl (apply_op c) es b) \<subseteq> keys \<and>
    set (foldl (apply_op c) es b) = foldl apply_op_set (set es) b"
  using assms
proof (induction b arbitrary: es)
  case (Cons op b)
  then have "op_key op \<in> keys" by simp
  note step = apply_op_keeps [OF Cons.prems(1) this Cons.prems(3)]
  have "\<forall>op \<in> set b. op_key op \<in> keys" using Cons.prems(2) by simp
  from Cons.IH [OF step(2) this step(1)] show ?case unfolding step(3) foldl_Cons .
qed simp

lemma sorted_entries_distinct:
  assumes "sorted_entries c es" and "fst ` set es \<subseteq> keys"
  shows "distinct (map fst es)"
  using assms
proof (induction es)
  case (Cons e es)
  have "fst e \<noteq> fst f" if "f \<in> set es" for f
    using Cons.prems that c_refl [of "fst e"] by auto
  with Cons show ?case by force
qed simp

end

subsection \<open>The contracts\<close>

text \<open>
  What the contracts speak of: the comparator and the entries of a database, the database an
  iterator was made from and the entries it has still to visit, and the messages whose texts the
  serialiser accepts (string fields have to be UTF-8).
\<close>

record ('db, 'it) view =
  cmp_of :: "'db \<Rightarrow> comparator"
  entries_of :: "'db \<Rightarrow> entry list"
  source_of :: "'it \<Rightarrow> 'db"
  rest_of :: "'it \<Rightarrow> entry list"
  stmt_ok :: "proto_Statement \<Rightarrow> bool"
  ns_ok :: "proto_Namespace \<Rightarrow> bool"

locale leveldb_contract =
  fixes E :: "('db, 'it) environment" and A :: "('db, 'it) view"
  assumes Open: "db_Open E c path = Some db \<Longrightarrow>
      cmp_of A db = (case c of None \<Rightarrow> slice_compare E | Some c' \<Rightarrow> c')"
    and Get: "db_Get E db k =
      map_option snd (find (\<lambda>e. cmp_of A db (fst e) k = 0) (entries_of A db))"
    and Write: "db_Write E db wb = Some db' \<Longrightarrow>
      entries_of A db' = foldl (apply_op (cmp_of A db)) (entries_of A db) wb \<and>
      cmp_of A db' = cmp_of A db"
    and NewIterator: "source_of A (db_NewIterator E db) = db"
    and SeekToFirst: "source_of A (it_SeekToFirst E it) = source_of A it \<and>
      rest_of A (it_SeekToFirst E it) = entries_of A (source_of A it)"
    and Seek: "source_of A (it_Seek E it k) = source_of A it \<and>
      rest_of A (it_Seek E it k) =
        dropWhile (\<lambda>e. cmp_of A (source_of A it) (fst e) k < 0) (entries_of A (source_of A it))"
    and Next: "rest_of A it = e # es \<Longrightarrow>
      source_of A (it_Next E it) = source_of A it \<and> rest_of A (it_Next E it) = es"
    and Valid: "it_Valid E it \<longleftrightarrow> rest_of A it \<noteq> []"
    and key_value: "rest_of A it = e # es \<Longrightarrow> it_key E it = fst e \<and> it_value E it = snd e"
    and slice_neg: "slice_compare E a b < 0 \<longleftrightarrow> bytes_compare a b < 0"
    and slice_zero: "slice_compare E a b = 0 \<longleftrightarrow> a = b"

locale codec_contract =
  fixes E :: "('db, 'it) environment" and A :: "('db, 'it) view"
  assumes parse_Statement_ser: "stmt_ok A s \<Longrightarrow> parse_Statement E (ser_Statement E s) = (True, s)"
    and parse_Namespace_ser: "ns_ok A n \<Longrightarrow> parse_Namespace E (ser_Namespace E n) = (True, n)"
    and inj_Resource: "inj (ser_Resource E)"
    and inj_URI: "inj (ser_URI E)"
    and inj_Value: "inj (ser_Value E)"

locale store = leveldb_contract E A + codec_contract E A
  for E :: "('db, 'it) environment" and A :: "('db, 'it) view"

context leveldb_contract
begin

lemma slice_order: "key_order (slice_compare E) UNIV"
proof
  fix a b d
  show "slice_compare E a b < 0 \<longleftrightarrow> slice_compare E b a > 0"
    using slice_neg [of a b] slice_neg [of b a] slice_zero [of b a] bytes_compare_flip [of a b]
      bytes_compare_flip [of b a] by fastforce
  show "slice_compare E a b < 0 \<Longrightarrow> slice_compare E b d < 0 \<Longrightarrow> slice_compare E a d < 0"
    using bytes_compare_trans by (simp add: slice_neg)
qed (simp_all add: slice_zero)

lemma slice_le: "slice_compare E a b \<le> 0 \<longleftrightarrow> bytes_compare a b \<le> 0"
proof -
  have "slice_compare E a b \<le> 0 \<longleftrightarrow> slice_compare E a b < 0 \<or> slice_compare E a b = 0" by linarith
  also have "\<dots> \<longleftrightarrow> bytes_compare a b < 0 \<or> bytes_compare a b = 0"
    by (simp add: slice_neg slice_zero)
  also have "\<dots> \<longleftrightarrow> bytes_compare a b \<le> 0" by linarith
  finally show ?thesis .
qed

end

subsection \<open>A reference environment: sorted lists\<close>

type_synonym list_db = "comparator \<times> entry list"
type_synonym list_it = "list_db \<times> entry list"

subsection \<open>A reference environment: the wire format\<close>

text \<open>Base-128 numbers: seven bits per byte, least significant first, the top bit marks more.\<close>

fun varint :: "nat \<Rightarrow> bytes" where
  "varint n = (if n < 128 then [word_of_nat n] else word_of_nat (128 + n mod 128) # varint (n div 128))"

declare varint.simps [simp del]

fun unvarint :: "bytes \<Rightarrow> (nat \<times> bytes) option" where
  "unvarint [] = None"
| "unvarint (b # bs) =
     (if b < 128 then Some (unat b, bs)
      else (case unvarint bs of None \<Rightarrow> None | Some (n, r) \<Rightarrow> Some (unat b - 128 + 128 * n, r)))"

text \<open>A length-delimited field: the tag (number and wire type 2), the length, the payload.\<close>

definition wire_field :: "nat \<times> bytes \<Rightarrow> bytes" where
  "wire_field f = word_of_nat (8 * fst f + 2) # varint (length (snd f)) @ snd f"

definition wire :: "(nat \<times> bytes) list \<Rightarrow> bytes" where
  "wire fs = concat (map wire_field fs)"

lemma unvarint_length: "unvarint bs = Some (n, r) \<Longrightarrow> length r < length bs"
  by (induction bs arbitrary: n r) (fastforce split: if_splits option.splits)+

function unwire :: "bytes \<Rightarrow> (nat \<times> bytes) list option" where
  "unwire [] = Some []"
| "unwire (t # bs) =
     (case unvarint bs of
        None \<Rightarrow> None
      | Some (n, r) \<Rightarrow>
          (if length r < n \<or> unat t mod 8 \<noteq> 2 then None
           else map_option ((#) (unat t div 8, take n r)) (unwire (drop n r))))"
  by pat_completeness auto
termination
  by (relation "measure length") (auto dest!: unvarint_length)

lemma unvarint_varint: "unvarint (varint n @ r) = Some (n, r)"
proof (induction n rule: varint.induct)
  case (1 n)
  show ?case
  proof (cases "n < 128")
    case True
    then show ?thesis
      by (simp add: varint.simps [of n] word_less_nat_alt unat_of_nat)
  next
    case False
    have "unat (word_of_nat (128 + n mod 128) :: byte) = 128 + n mod 128"
      by (simp only: unat_of_nat) simp
    then show ?thesis using 1 [OF False] False
      by (simp add: varint.simps [of n] word_less_nat_alt del: of_nat_add)
  qed
qed

text \<open>Field numbers below 16 have a tag of one byte.\<close>

definition small_numbers :: "(nat \<times> bytes) list \<Rightarrow> bool" where
  "small_numbers fs \<longleftrightarrow> (\<forall>f \<in> set fs. fst f < 16)"

lemma small_numbers_simps [simp]:
  "small_numbers []"
  "small_numbers (f # fs) \<longleftrightarrow> fst f < 16 \<and> small_numbers fs"
  "small_numbers (fs @ gs) \<longleftrightarrow> small_numbers fs \<and> small_numbers gs"
  by (auto simp: small_numbers_def)

lemma unwire_wire: "small_numbers fs \<Longrightarrow> unwire (wire fs) = Some fs"
proof (induction fs)
  case (Cons f fs)
  then have "unat (word_of_nat (8 * fst f + 2) :: byte) = 8 * fst f + 2"
    by (simp only: unat_of_nat) simp
  moreover have "(8 * fst f + 2) mod 8 = 2" "(8 * fst f + 2) div 8 = fst f" by presburger+
  ultimately show ?case using Cons
    by (simp add: wire_def wire_field_def unvarint_varint
        del: of_nat_add of_nat_mult add_2_eq_Suc add_2_eq_Suc')
qed (simp add: wire_def)

text \<open>The messages, in the order of their field numbers; an empty string is not written.\<close>

definition string_field :: "nat \<Rightarrow> string \<Rightarrow> (nat \<times> bytes) list" where
  "string_field n s = (if s = [] then [] else [(n, bytes_of s)])"

definition message_field :: "nat \<Rightarrow> ('m \<Rightarrow> bytes) \<Rightarrow> 'm option \<Rightarrow> (nat \<times> bytes) list" where
  "message_field n ser m = (case m of None \<Rightarrow> [] | Some x \<Rightarrow> [(n, ser x)])"

definition wire_URI :: "proto_URI \<Rightarrow> bytes" where
  "wire_URI u = wire (string_field 1 (uri_uri u))"

definition wire_BNode :: "proto_BNode \<Rightarrow> bytes" where
  "wire_BNode b = wire (string_field 1 (bnode_id b))"

fun wire_Resource :: "proto_Resource \<Rightarrow> bytes" where
  "wire_Resource R_NONE = wire []"
| "wire_Resource (R_URI u) = wire [(1, wire_URI u)]"
| "wire_Resource (R_BNODE b) = wire [(2, wire_BNode b)]"

definition wire_StringLiteral :: "proto_StringLiteral \<Rightarrow> bytes" where
  "wire_StringLiteral l = wire (string_field 1 (sl_content l) @ string_field 2 (sl_language l))"

definition wire_DatatypeLiteral :: "proto_DatatypeLiteral \<Rightarrow> bytes" where
  "wire_DatatypeLiteral l =
     wire (string_field 1 (dl_content l) @ message_field 2 wire_URI (dl_datatype l))"

fun wire_Literal :: "proto_Literal \<Rightarrow> bytes" where
  "wire_Literal L_NONE = wire []"
| "wire_Literal (L_STRING l) = wire [(1, wire_StringLiteral l)]"
| "wire_Literal (L_DATA l) = wire [(2, wire_DatatypeLiteral l)]"

fun wire_Value :: "proto_Value \<Rightarrow> bytes" where
  "wire_Value V_NONE = wire []"
| "wire_Value (V_RESOURCE r) = wire [(1, wire_Resource r)]"
| "wire_Value (V_LITERAL l) = wire [(2, wire_Literal l)]"

definition wire_Statement :: "proto_Statement \<Rightarrow> bytes" where
  "wire_Statement s =
     wire (message_field 1 wire_Resource (st_subject s) @ message_field 2 wire_URI (st_predicate s) @
       message_field 3 wire_Value (st_object s) @ message_field 4 wire_Resource (st_context s))"

definition wire_Namespace :: "proto_Namespace \<Rightarrow> bytes" where
  "wire_Namespace n = wire (string_field 1 (ns_prefix n) @ string_field 2 (ns_uri n))"

text \<open>Reading a message back; \<open>None\<close> when the bytes are not well-formed.\<close>

definition text_of :: "bytes \<Rightarrow> string" where
  "text_of bs = map (\<lambda>b. char_of (unat b)) bs"

definition get_string :: "nat \<Rightarrow> (nat \<times> bytes) list \<Rightarrow> string" where
  "get_string n fs = (case map_of (rev fs) n of None \<Rightarrow> '''' | Some b \<Rightarrow> text_of b)"

text \<open>A sub-message: absent, present, or malformed.\<close>

definition get_message :: "nat \<Rightarrow> (bytes \<Rightarrow> 'm option) \<Rightarrow> (nat \<times> bytes) list \<Rightarrow> 'm option option" where
  "get_message n parse fs =
     (case map_of (rev fs) n of None \<Rightarrow> Some None | Some b \<Rightarrow> map_option Some (parse b))"

definition unwire_URI :: "bytes \<Rightarrow> proto_URI option" where
  "unwire_URI bs = map_option (\<lambda>fs. \<lparr>uri_uri = get_string 1 fs\<rparr>) (unwire bs)"

definition unwire_BNode :: "bytes \<Rightarrow> proto_BNode option" where
  "unwire_BNode bs = map_option (\<lambda>fs. \<lparr>bnode_id = get_string 1 fs\<rparr>) (unwire bs)"

definition unwire_oneof ::
  "'m \<Rightarrow> (bytes \<Rightarrow> 'm option) \<Rightarrow> (bytes \<Rightarrow> 'm option) \<Rightarrow> bytes \<Rightarrow> 'm option" where
  "unwire_oneof unset first second bs =
     Option.bind (unwire bs) (\<lambda>fs.
       if fs = [] then Some unset
       else (case last fs of (n, b) \<Rightarrow> if n = 1 then first b else if n = 2 then second b else Some unset))"

definition unwire_Resource :: "bytes \<Rightarrow> proto_Resource option" where
  "unwire_Resource =
     unwire_oneof R_NONE (map_option R_URI \<circ> unwire_URI) (map_option R_BNODE \<circ> unwire_BNode)"

definition unwire_StringLiteral :: "bytes \<Rightarrow> proto_StringLiteral option" where
  "unwire_StringLiteral bs =
     map_option (\<lambda>fs. \<lparr>sl_content = get_string 1 fs, sl_language = get_string 2 fs\<rparr>) (unwire bs)"

definition unwire_DatatypeLiteral :: "bytes \<Rightarrow> proto_DatatypeLiteral option" where
  "unwire_DatatypeLiteral bs =
     Option.bind (unwire bs) (\<lambda>fs.
       map_option (\<lambda>d. \<lparr>dl_content = get_string 1 fs, dl_datatype = d\<rparr>) (get_message 2 unwire_URI fs))"

definition unwire_Literal :: "bytes \<Rightarrow> proto_Literal option" where
  "unwire_Literal = unwire_oneof L_NONE (map_option L_STRING \<circ> unwire_StringLiteral)
     (map_option L_DATA \<circ> unwire_DatatypeLiteral)"

definition unwire_Value :: "bytes \<Rightarrow> proto_Value option" where
  "unwire_Value = unwire_oneof V_NONE (map_option V_RESOURCE \<circ> unwire_Resource)
     (map_option V_LITERAL \<circ> unwire_Literal)"

definition unwire_Statement :: "bytes \<Rightarrow> proto_Statement option" where
  "unwire_Statement bs =
     Option.bind (unwire bs) (\<lambda>fs.
     Option.bind (get_message 1 unwire_Resource fs) (\<lambda>s.
     Option.bind (get_message 2 unwire_URI fs) (\<lambda>p.
     Option.bind (get_message 3 unwire_Value fs) (\<lambda>v.
     map_option (\<lambda>c. \<lparr>st_subject = s, st_predicate = p, st_object = v, st_context = c\<rparr>)
       (get_message 4 unwire_Resource fs)))))"

definition unwire_Namespace :: "bytes \<Rightarrow> proto_Namespace option" where
  "unwire_Namespace bs =
     map_option (\<lambda>fs. \<lparr>ns_prefix = get_string 1 fs, ns_uri = get_string 2 fs\<rparr>) (unwire bs)"

lemma text_of_bytes_of [simp]: "text_of (bytes_of s) = s"
proof -
  have "char_of (unat (of_char c :: byte)) = c" for c
  proof -
    have "(of_char c :: byte) = word_of_nat (of_char c)" by (simp only: of_nat_of_char)
    then have "unat (of_char c :: byte) = of_char c mod 256" by (simp only: unat_of_nat) simp
    then show ?thesis by simp
  qed
  then show ?thesis by (simp add: text_of_def bytes_of_def comp_def)
qed

lemma map_of_rev_fields [simp]:
  "map_of (rev (string_field n s)) m = (if m = n \<and> s \<noteq> [] then Some (bytes_of s) else None)"
  "map_of (rev (message_field n ser x)) m = (if m = n then map_option ser x else None)"
  by (auto simp: string_field_def message_field_def split: option.splits)

lemma field_numbers [simp]:
  "n < 16 \<Longrightarrow> small_numbers (string_field n s)"
  "n < 16 \<Longrightarrow> small_numbers (message_field n ser x)"
  by (auto simp: string_field_def message_field_def split: if_splits option.splits)

lemma unwire_URI_wire [simp]: "unwire_URI (wire_URI u) = Some u"
  by (simp add: unwire_URI_def wire_URI_def unwire_wire get_string_def)

lemma unwire_BNode_wire [simp]: "unwire_BNode (wire_BNode b) = Some b"
  by (simp add: unwire_BNode_def wire_BNode_def unwire_wire get_string_def)

lemma unwire_oneof_wire [simp]:
  "unwire_oneof u f g (wire []) = Some u"
  "unwire_oneof u f g (wire [(Suc 0, b)]) = f b"
  "unwire_oneof u f g (wire [(2, b)]) = g b"
  by (simp_all add: unwire_oneof_def unwire_wire)

lemma unwire_Resource_wire [simp]: "unwire_Resource (wire_Resource r) = Some r"
  by (cases r) (simp_all add: unwire_Resource_def)

lemma unwire_StringLiteral_wire [simp]: "unwire_StringLiteral (wire_StringLiteral l) = Some l"
  by (auto simp: unwire_StringLiteral_def wire_StringLiteral_def unwire_wire get_string_def map_add_def)

lemma get_message_wire:
  assumes "\<And>x. parse (ser x) = Some x" and "map_of (rev fs) n = map_option ser m"
  shows "get_message n parse fs = Some m"
  using assms by (cases m) (simp_all add: get_message_def)

lemma unwire_DatatypeLiteral_wire [simp]: "unwire_DatatypeLiteral (wire_DatatypeLiteral l) = Some l"
proof -
  let ?fs = "string_field 1 (dl_content l) @ message_field 2 wire_URI (dl_datatype l)"
  have "get_message 2 unwire_URI ?fs = Some (dl_datatype l)"
    by (rule get_message_wire) (auto simp: map_add_def split: option.splits)
  moreover have "unwire (wire ?fs) = Some ?fs" by (rule unwire_wire) simp
  ultimately show ?thesis
    by (simp add: unwire_DatatypeLiteral_def wire_DatatypeLiteral_def get_string_def map_add_def)
qed

lemma unwire_Literal_wire [simp]: "unwire_Literal (wire_Literal l) = Some l"
  by (cases l) (simp_all add: unwire_Literal_def)

lemma unwire_Value_wire [simp]: "unwire_Value (wire_Value v) = Some v"
  by (cases v) (simp_all add: unwire_Value_def)

lemma unwire_Namespace_wire [simp]: "unwire_Namespace (wire_Namespace n) = Some n"
  by (auto simp: unwire_Namespace_def wire_Namespace_def unwire_wire get_string_def map_add_def)

lemma unwire_Statement_wire [simp]: "unwire_Statement (wire_Statement s) = Some s"
proof -
  let ?fs = "message_field 1 wire_Resource (st_subject s) @ message_field 2 wire_URI (st_predicate s) @
       message_field 3 wire_Value (st_object s) @ message_field 4 wire_Resource (st_context s)"
  have "get_message 1 unwire_Resource ?fs = Some (st_subject s)"
    by (rule get_message_wire) (auto simp: map_add_def split: option.splits)
  moreover have "get_message 2 unwire_URI ?fs = Some (st_predicate s)"
    by (rule get_message_wire) (auto simp: map_add_def split: option.splits)
  moreover have "get_message 3 unwire_Value ?fs = Some (st_object s)"
    by (rule get_message_wire) (auto simp: map_add_def split: option.splits)
  moreover have "get_message 4 unwire_Resource ?fs = Some (st_context s)"
    by (rule get_message_wire) (auto simp: map_add_def split: option.splits)
  moreover have "unwire (wire ?fs) = Some ?fs" by (rule unwire_wire) simp
  ultimately show ?thesis by (simp add: unwire_Statement_def wire_Statement_def)
qed

lemma inj_of_parse: "(\<And>x. parse (ser x) = Some x) \<Longrightarrow> inj ser"
  by (rule injI) (metis option.inject)

subsection \<open>The reference environment\<close>

definition parse_with :: "'m \<Rightarrow> (bytes \<Rightarrow> 'm option) \<Rightarrow> bytes \<Rightarrow> bool \<times> 'm" where
  "parse_with d parse bs = (case parse bs of None \<Rightarrow> (False, d) | Some m \<Rightarrow> (True, m))"

definition list_environment :: "bool \<Rightarrow> (list_db, list_it) environment" where
  "list_environment x86_64 =
     \<lparr>db_Open = (\<lambda>c path. Some (case c of None \<Rightarrow> bytes_compare | Some c' \<Rightarrow> c', [])),
      db_Get = (\<lambda>db k. map_option snd (find (\<lambda>e. fst db (fst e) k = 0) (snd db))),
      db_Write = (\<lambda>db b. Some (fst db, foldl (apply_op (fst db)) (snd db) b)),
      db_NewIterator = (\<lambda>db. (db, [])),
      it_SeekToFirst = (\<lambda>it. (fst it, snd (fst it))),
      it_Seek = (\<lambda>it k. (fst it, dropWhile (\<lambda>e. fst (fst it) (fst e) k < 0) (snd (fst it)))),
      it_Next = (\<lambda>it. (fst it, tl (snd it))),
      it_Valid = (\<lambda>it. snd it \<noteq> []),
      it_key = (\<lambda>it. fst (hd (snd it))),
      it_value = (\<lambda>it. snd (hd (snd it))),
      slice_compare = bytes_compare,
      ser_Resource = wire_Resource, ser_URI = wire_URI, ser_Value = wire_Value,
      ser_Statement = wire_Statement, ser_Namespace = wire_Namespace,
      parse_Statement = parse_with Statement_default unwire_Statement,
      parse_Namespace = parse_with Namespace_default unwire_Namespace,
      is_x86_64 = x86_64\<rparr>"

definition list_view :: "(list_db, list_it) view" where
  "list_view = \<lparr>cmp_of = fst, entries_of = snd, source_of = fst, rest_of = snd,
     stmt_ok = (\<lambda>_. True), ns_ok = (\<lambda>_. True)\<rparr>"

lemma list_view_ok [simp]: "stmt_ok list_view s" "ns_ok list_view n"
  by (simp_all add: list_view_def)

interpretation list_store: store "list_environment x86_64" list_view for x86_64
  by unfold_locales
    (auto simp: list_environment_def list_view_def parse_with_def
      intro: inj_of_parse [of unwire_Resource] inj_of_parse [of unwire_URI] inj_of_parse [of unwire_Value]
      split: option.splits)

end
