(* ===== verification/Murmur3.thy ===== *)
theory Murmur3
  imports Prelude
begin

unbundle bit_operations_syntax

text \<open>
  \<open>util/murmur3.cc\<close>: the three MurmurHash3 functions, on words of the widths of the code.
  A C pointer into the key is a byte offset, a pointer to \<open>uint32_t\<close> or \<open>uint64_t\<close> is read
  little-endian (the byte order of the platforms the store runs on). The length is a C \<open>int\<close>;
  the block loops and the \<open>switch\<close> with its fall-through are kept, one guarded update per
  \<open>case\<close>. The lemmas show that every mixing step loses no information, and the properties
  that two keys of the same length that fit into one block never collide.
\<close>

definition rotl32 :: "32 word \<Rightarrow> nat \<Rightarrow> 32 word" where
  "rotl32 x r = push_bit r x OR drop_bit (32 - r) x"

definition rotl64 :: "64 word \<Rightarrow> nat \<Rightarrow> 64 word" where
  "rotl64 x r = push_bit r x OR drop_bit (64 - r) x"

definition getblock32 :: "bytes \<Rightarrow> int \<Rightarrow> int \<Rightarrow> 32 word" where
  "getblock32 data p i = le_word (take 4 (drop (nat (p + 4 * i)) data))"

definition getblock64 :: "bytes \<Rightarrow> int \<Rightarrow> int \<Rightarrow> 64 word" where
  "getblock64 data p i = le_word (take 8 (drop (nat (p + 8 * i)) data))"

definition fmix32 :: "32 word \<Rightarrow> 32 word" where
  "fmix32 h =
     (let h = h XOR drop_bit 16 h;
          h = h * 0x85ebca6b;
          h = h XOR drop_bit 13 h;
          h = h * 0xc2b2ae35;
          h = h XOR drop_bit 16 h
      in h)"

definition fmix64 :: "64 word \<Rightarrow> 64 word" where
  "fmix64 k =
     (let k = k XOR drop_bit 33 k;
          k = k * 0xff51afd7ed558ccd;
          k = k XOR drop_bit 33 k;
          k = k * 0xc4ceb9fe1a85ec53;
          k = k XOR drop_bit 33 k
      in k)"

text \<open>\<open>tail[j]\<close>, with \<open>tail\<close> at byte offset \<open>t\<close> of the key, widened to the word it is mixed into.\<close>

definition tail_at :: "bytes \<Rightarrow> int \<Rightarrow> nat \<Rightarrow> 'a::len word" where
  "tail_at data t j = ucast (data ! (nat t + j))"

subsection \<open>MurmurHash3_x86_32\<close>

definition x86_32_mix :: "32 word \<Rightarrow> 32 word" where
  "x86_32_mix k1 = rotl32 (k1 * 0xcc9e2d51) 15 * 0x1b873593"

definition x86_32_block :: "32 word \<Rightarrow> 32 word \<Rightarrow> 32 word" where
  "x86_32_block k1 h1 =
     (let h1 = h1 XOR x86_32_mix k1;
          h1 = rotl32 h1 13
      in h1 * 5 + 0xe6546b64)"

definition x86_32_tail :: "bytes \<Rightarrow> int \<Rightarrow> int \<Rightarrow> 32 word \<Rightarrow> 32 word" where
  "x86_32_tail data t n h1 =
     (let k1 = 0;
          k1 = (if n \<ge> 3 then k1 XOR push_bit 16 (tail_at data t 2) else k1);
          k1 = (if n \<ge> 2 then k1 XOR push_bit 8 (tail_at data t 1) else k1)
      in if n \<ge> 1 then h1 XOR x86_32_mix (k1 XOR tail_at data t 0) else h1)"

definition MurmurHash3_x86_32 :: "bytes \<Rightarrow> int \<Rightarrow> 32 word \<Rightarrow> bytes" where
  "MurmurHash3_x86_32 key len seed =
     (let nblocks = len sdiv 4;
          blocks = nblocks * 4;
          h1 = foldl (\<lambda>h1 i. x86_32_block (getblock32 key blocks i) h1) seed [- nblocks .. -1];
          h1 = x86_32_tail key (nblocks * 4) (len AND 3) h1;
          h1 = h1 XOR word_of_int len;
          h1 = fmix32 h1
      in le_bytes 4 h1)"

subsection \<open>MurmurHash3_x86_128\<close>

type_synonym lanes32 = "32 word \<times> 32 word \<times> 32 word \<times> 32 word"

definition x86_128_mix1 :: "32 word \<Rightarrow> 32 word" where
  "x86_128_mix1 k1 = rotl32 (k1 * 0x239b961b) 15 * 0xab0e9789"

definition x86_128_mix2 :: "32 word \<Rightarrow> 32 word" where
  "x86_128_mix2 k2 = rotl32 (k2 * 0xab0e9789) 16 * 0x38b34ae5"

definition x86_128_mix3 :: "32 word \<Rightarrow> 32 word" where
  "x86_128_mix3 k3 = rotl32 (k3 * 0x38b34ae5) 17 * 0xa1e38b93"

definition x86_128_mix4 :: "32 word \<Rightarrow> 32 word" where
  "x86_128_mix4 k4 = rotl32 (k4 * 0xa1e38b93) 18 * 0x239b961b"

fun x86_128_block :: "lanes32 \<Rightarrow> lanes32 \<Rightarrow> lanes32" where
  "x86_128_block (k1, k2, k3, k4) (h1, h2, h3, h4) =
     (let h1 = h1 XOR x86_128_mix1 k1;
          h1 = rotl32 h1 19; h1 = h1 + h2; h1 = h1 * 5 + 0x561ccd1b;
          h2 = h2 XOR x86_128_mix2 k2;
          h2 = rotl32 h2 17; h2 = h2 + h3; h2 = h2 * 5 + 0x0bcaa747;
          h3 = h3 XOR x86_128_mix3 k3;
          h3 = rotl32 h3 15; h3 = h3 + h4; h3 = h3 * 5 + 0x96cd1c35;
          h4 = h4 XOR x86_128_mix4 k4;
          h4 = rotl32 h4 13; h4 = h4 + h1; h4 = h4 * 5 + 0x32ac3b17
      in (h1, h2, h3, h4))"

definition x86_128_tail :: "bytes \<Rightarrow> int \<Rightarrow> int \<Rightarrow> lanes32 \<Rightarrow> lanes32" where
  "x86_128_tail data t n h =
     (case h of (h1, h2, h3, h4) \<Rightarrow>
      let k1 = 0; k2 = 0; k3 = 0; k4 = 0;
          k4 = (if n \<ge> 15 then k4 XOR push_bit 16 (tail_at data t 14) else k4);
          k4 = (if n \<ge> 14 then k4 XOR push_bit 8 (tail_at data t 13) else k4);
          k4 = (if n \<ge> 13 then k4 XOR push_bit 0 (tail_at data t 12) else k4);
          h4 = (if n \<ge> 13 then h4 XOR x86_128_mix4 k4 else h4);
          k3 = (if n \<ge> 12 then k3 XOR push_bit 24 (tail_at data t 11) else k3);
          k3 = (if n \<ge> 11 then k3 XOR push_bit 16 (tail_at data t 10) else k3);
          k3 = (if n \<ge> 10 then k3 XOR push_bit 8 (tail_at data t 9) else k3);
          k3 = (if n \<ge> 9 then k3 XOR push_bit 0 (tail_at data t 8) else k3);
          h3 = (if n \<ge> 9 then h3 XOR x86_128_mix3 k3 else h3);
          k2 = (if n \<ge> 8 then k2 XOR push_bit 24 (tail_at data t 7) else k2);
          k2 = (if n \<ge> 7 then k2 XOR push_bit 16 (tail_at data t 6) else k2);
          k2 = (if n \<ge> 6 then k2 XOR push_bit 8 (tail_at data t 5) else k2);
          k2 = (if n \<ge> 5 then k2 XOR push_bit 0 (tail_at data t 4) else k2);
          h2 = (if n \<ge> 5 then h2 XOR x86_128_mix2 k2 else h2);
          k1 = (if n \<ge> 4 then k1 XOR push_bit 24 (tail_at data t 3) else k1);
          k1 = (if n \<ge> 3 then k1 XOR push_bit 16 (tail_at data t 2) else k1);
          k1 = (if n \<ge> 2 then k1 XOR push_bit 8 (tail_at data t 1) else k1);
          k1 = (if n \<ge> 1 then k1 XOR push_bit 0 (tail_at data t 0) else k1);
          h1 = (if n \<ge> 1 then h1 XOR x86_128_mix1 k1 else h1)
      in (h1, h2, h3, h4))"

definition x86_128_final :: "int \<Rightarrow> lanes32 \<Rightarrow> lanes32" where
  "x86_128_final len h =
     (case h of (h1, h2, h3, h4) \<Rightarrow>
      let h1 = h1 XOR word_of_int len; h2 = h2 XOR word_of_int len;
          h3 = h3 XOR word_of_int len; h4 = h4 XOR word_of_int len;
          h1 = h1 + h2; h1 = h1 + h3; h1 = h1 + h4;
          h2 = h2 + h1; h3 = h3 + h1; h4 = h4 + h1;
          h1 = fmix32 h1; h2 = fmix32 h2; h3 = fmix32 h3; h4 = fmix32 h4;
          h1 = h1 + h2; h1 = h1 + h3; h1 = h1 + h4;
          h2 = h2 + h1; h3 = h3 + h1; h4 = h4 + h1
      in (h1, h2, h3, h4))"

definition MurmurHash3_x86_128 :: "bytes \<Rightarrow> int \<Rightarrow> 32 word \<Rightarrow> bytes" where
  "MurmurHash3_x86_128 key len seed =
     (let nblocks = len sdiv 16;
          blocks = nblocks * 16;
          h = foldl (\<lambda>h i. x86_128_block
                 (getblock32 key blocks (i * 4 + 0), getblock32 key blocks (i * 4 + 1),
                  getblock32 key blocks (i * 4 + 2), getblock32 key blocks (i * 4 + 3)) h)
               (seed, seed, seed, seed) [- nblocks .. -1];
          h = x86_128_tail key (nblocks * 16) (len AND 15) h;
          (h1, h2, h3, h4) = x86_128_final len h
      in le_bytes 4 h1 @ le_bytes 4 h2 @ le_bytes 4 h3 @ le_bytes 4 h4)"

subsection \<open>MurmurHash3_x64_128\<close>

type_synonym lanes64 = "64 word \<times> 64 word"

definition x64_128_mix1 :: "64 word \<Rightarrow> 64 word" where
  "x64_128_mix1 k1 = rotl64 (k1 * 0x87c37b91114253d5) 31 * 0x4cf5ad432745937f"

definition x64_128_mix2 :: "64 word \<Rightarrow> 64 word" where
  "x64_128_mix2 k2 = rotl64 (k2 * 0x4cf5ad432745937f) 33 * 0x87c37b91114253d5"

fun x64_128_block :: "lanes64 \<Rightarrow> lanes64 \<Rightarrow> lanes64" where
  "x64_128_block (k1, k2) (h1, h2) =
     (let h1 = h1 XOR x64_128_mix1 k1;
          h1 = rotl64 h1 27; h1 = h1 + h2; h1 = h1 * 5 + 0x52dce729;
          h2 = h2 XOR x64_128_mix2 k2;
          h2 = rotl64 h2 31; h2 = h2 + h1; h2 = h2 * 5 + 0x38495ab5
      in (h1, h2))"

definition x64_128_tail :: "bytes \<Rightarrow> int \<Rightarrow> int \<Rightarrow> lanes64 \<Rightarrow> lanes64" where
  "x64_128_tail data t n h =
     (case h of (h1, h2) \<Rightarrow>
      let k1 = 0; k2 = 0;
          k2 = (if n \<ge> 15 then k2 XOR push_bit 48 (tail_at data t 14) else k2);
          k2 = (if n \<ge> 14 then k2 XOR push_bit 40 (tail_at data t 13) else k2);
          k2 = (if n \<ge> 13 then k2 XOR push_bit 32 (tail_at data t 12) else k2);
          k2 = (if n \<ge> 12 then k2 XOR push_bit 24 (tail_at data t 11) else k2);
          k2 = (if n \<ge> 11 then k2 XOR push_bit 16 (tail_at data t 10) else k2);
          k2 = (if n \<ge> 10 then k2 XOR push_bit 8 (tail_at data t 9) else k2);
          k2 = (if n \<ge> 9 then k2 XOR push_bit 0 (tail_at data t 8) else k2);
          h2 = (if n \<ge> 9 then h2 XOR x64_128_mix2 k2 else h2);
          k1 = (if n \<ge> 8 then k1 XOR push_bit 56 (tail_at data t 7) else k1);
          k1 = (if n \<ge> 7 then k1 XOR push_bit 48 (tail_at data t 6) else k1);
          k1 = (if n \<ge> 6 then k1 XOR push_bit 40 (tail_at data t 5) else k1);
          k1 = (if n \<ge> 5 then k1 XOR push_bit 32 (tail_at data t 4) else k1);
          k1 = (if n \<ge> 4 then k1 XOR push_bit 24 (tail_at data t 3) else k1);
          k1 = (if n \<ge> 3 then k1 XOR push_bit 16 (tail_at data t 2) else k1);
          k1 = (if n \<ge> 2 then k1 XOR push_bit 8 (tail_at data t 1) else k1);
          k1 = (if n \<ge> 1 then k1 XOR push_bit 0 (tail_at data t 0) else k1);
          h1 = (if n \<ge> 1 then h1 XOR x64_128_mix1 k1 else h1)
      in (h1, h2))"

definition x64_128_final :: "int \<Rightarrow> lanes64 \<Rightarrow> lanes64" where
  "x64_128_final len h =
     (case h of (h1, h2) \<Rightarrow>
      let h1 = h1 XOR word_of_int len; h2 = h2 XOR word_of_int len;
          h1 = h1 + h2;
          h2 = h2 + h1;
          h1 = fmix64 h1; h2 = fmix64 h2;
          h1 = h1 + h2;
          h2 = h2 + h1
      in (h1, h2))"

definition MurmurHash3_x64_128 :: "bytes \<Rightarrow> int \<Rightarrow> 32 word \<Rightarrow> bytes" where
  "MurmurHash3_x64_128 key len seed =
     (let nblocks = len sdiv 16;
          h = foldl (\<lambda>h i. x64_128_block
                 (getblock64 key 0 (i * 2 + 0), getblock64 key 0 (i * 2 + 1)) h)
               (ucast seed, ucast seed) [0 .. nblocks - 1];
          h = x64_128_tail key (nblocks * 16) (len AND 15) h;
          (h1, h2) = x64_128_final len h
      in le_bytes 8 h1 @ le_bytes 8 h2)"

subsection \<open>Every mixing step is injective\<close>

lemma rotl32_inject [simp]: "r < 32 \<Longrightarrow> rotl32 x r = rotl32 y r \<longleftrightarrow> x = y"
  by (rule iffI, rule rotl_inject [of r x 32 y]) (simp_all add: rotl32_def)

lemma rotl64_inject [simp]: "r < 64 \<Longrightarrow> rotl64 x r = rotl64 y r \<longleftrightarrow> x = y"
  by (rule iffI, rule rotl_inject [of r x 64 y]) (simp_all add: rotl64_def)

lemma fmix32_inject [simp]: "fmix32 x = fmix32 y \<longleftrightarrow> x = y"
  by (simp add: fmix32_def Let_def)

lemma fmix64_inject [simp]: "fmix64 x = fmix64 y \<longleftrightarrow> x = y"
  by (simp add: fmix64_def Let_def)

lemma mix_inject [simp]:
  "x86_32_mix x = x86_32_mix y \<longleftrightarrow> x = y"
  "x86_128_mix1 x = x86_128_mix1 y \<longleftrightarrow> x = y"
  "x86_128_mix2 x = x86_128_mix2 y \<longleftrightarrow> x = y"
  "x86_128_mix3 x = x86_128_mix3 y \<longleftrightarrow> x = y"
  "x86_128_mix4 x = x86_128_mix4 y \<longleftrightarrow> x = y"
  "x64_128_mix1 u = x64_128_mix1 v \<longleftrightarrow> u = v"
  "x64_128_mix2 u = x64_128_mix2 v \<longleftrightarrow> u = v"
  by (simp_all add: x86_32_mix_def x86_128_mix1_def x86_128_mix2_def x86_128_mix3_def
      x86_128_mix4_def x64_128_mix1_def x64_128_mix2_def)

lemma x86_32_block_inject [simp]: "x86_32_block k h = x86_32_block l h \<longleftrightarrow> k = l"
  by (simp add: x86_32_block_def)

lemma x86_128_block_inject: "x86_128_block k h = x86_128_block l h \<longleftrightarrow> k = l"
  by (cases k; cases l; cases h) (auto simp: Let_def)

lemma x64_128_block_inject [simp]: "x64_128_block k h = x64_128_block l h \<longleftrightarrow> k = l"
  by (cases k; cases l; cases h) (auto simp: Let_def)

lemma x64_128_final_inject [simp]: "x64_128_final n h = x64_128_final n g \<longleftrightarrow> h = g"
  by (cases h; cases g) (simp only: x64_128_final_def Let_def prod.case prod.inject
      sum2_inject fmix64_inject xor_right_inject)

lemma x86_128_final_inject [simp]: "x86_128_final n h = x86_128_final n g \<longleftrightarrow> h = g"
  by (cases h; cases g) (simp only: x86_128_final_def Let_def prod.case prod.inject
      sum4_inject fmix32_inject xor_right_inject)

lemma x64_128_tail_eq:
  assumes "length d < 16"
  shows "x64_128_tail d 0 (int (length d)) (h1, h2) =
    (if d = [] then h1 else h1 XOR x64_128_mix1 (le_word (take 8 (drop 0 d))),
     if length d \<le> 8 then h2 else h2 XOR x64_128_mix2 (le_word (take 8 (drop 8 d))))"
proof -
  have len: "\<not> 16 \<le> length d" "1 \<le> length d \<longleftrightarrow> d \<noteq> []"
    "9 \<le> length d \<longleftrightarrow> \<not> length d \<le> 8"
    using assms by (auto simp: Suc_le_eq)
  show ?thesis
    unfolding x64_128_tail_def Let_def prod.case tail_at_def if_xor le_word_chunk8 le_word_chunk4
      int_length_le
    by (simp add: len Suc_le_eq xor.assoc xor.commute xor.left_commute)
qed

lemma x86_128_tail_eq:
  assumes "length d < 16"
  shows "x86_128_tail d 0 (int (length d)) (h1, h2, h3, h4) =
    (if d = [] then h1 else h1 XOR x86_128_mix1 (le_word (take 4 (drop 0 d))),
     if length d \<le> 4 then h2 else h2 XOR x86_128_mix2 (le_word (take 4 (drop 4 d))),
     if length d \<le> 8 then h3 else h3 XOR x86_128_mix3 (le_word (take 4 (drop 8 d))),
     if length d \<le> 12 then h4 else h4 XOR x86_128_mix4 (le_word (take 4 (drop 12 d))))"
proof -
  have len: "\<not> 16 \<le> length d" "5 \<le> length d \<longleftrightarrow> \<not> length d \<le> 4"
    "9 \<le> length d \<longleftrightarrow> \<not> length d \<le> 8" "13 \<le> length d \<longleftrightarrow> \<not> length d \<le> 12"
    using assms by auto
  show ?thesis
    unfolding x86_128_tail_def Let_def prod.case tail_at_def if_xor le_word_chunk4 int_length_le
    by (simp add: len Suc_le_eq xor.assoc xor.commute xor.left_commute)
qed

lemma x86_32_tail_eq:
  assumes "length d < 4"
  shows "x86_32_tail d 0 (int (length d)) h1 =
    (if d = [] then h1 else h1 XOR x86_32_mix (le_word (take 4 (drop 0 d))))"
proof -
  have len: "\<not> 4 \<le> length d" using assms by auto
  show ?thesis
    unfolding x86_32_tail_def Let_def tail_at_def if_xor le_word_chunk4 int_length_le
    by (simp add: len Suc_le_eq xor.assoc xor.commute xor.left_commute)
qed

lemma take_drop_16_eq:
  assumes "take 8 (drop 0 a) = take 8 (drop 0 b)" "take 8 (drop 8 a) = take 8 (drop 8 b)"
    and "length a \<le> 16" "length b \<le> 16"
  shows "a = b"
proof -
  have "drop 8 a = drop 8 b" using assms by simp
  moreover have "take 8 a = take 8 b" using assms(1) by simp
  ultimately show ?thesis by (metis append_take_drop_id)
qed

lemma le_bytes_pair_inject:
  "(case h of (h1, h2) \<Rightarrow> le_bytes 8 h1 @ le_bytes 8 h2) =
     (case g of (g1, g2) \<Rightarrow> le_bytes 8 g1 @ le_bytes 8 g2) \<longleftrightarrow> h = (g :: lanes64)"
  by (cases h; cases g) (simp add: le_bytes_inject)

lemma x64_chunk_inject:
  assumes "length a = length b"
  shows "(le_word (take 8 (drop m a)) :: 64 word) = le_word (take 8 (drop m b)) \<longleftrightarrow>
    take 8 (drop m a) = take 8 (drop m b)"
  using le_word_chunk_inject [where 'w = 64, of 8 m a b] assms by auto

lemma x64_128_tail_inject:
  assumes "length a = length b" and "length a < 16"
    and "x64_128_tail a 0 (int (length a)) h = x64_128_tail b 0 (int (length b)) h"
  shows "a = b"
proof -
  obtain h1 h2 where h: "h = (h1, h2)" by (cases h)
  have short: "length b < 16" using assms(1,2) by simp
  have nil: "a = [] \<longleftrightarrow> b = []" using assms(1) by auto
  have "b = [] \<or> take 8 (drop 0 a) = take 8 (drop 0 b)"
    and "length b \<le> 8 \<or> take 8 (drop 8 a) = take 8 (drop 8 b)"
    using assms(3)
    unfolding h x64_128_tail_eq [OF assms(2)] x64_128_tail_eq [OF short] prod.inject
    unfolding nil assms(1)
    by (simp_all only: if_same_eq xor_left_inject mix_inject x64_chunk_inject [OF assms(1)])
  then show ?thesis using assms(1,2) by - (rule take_drop_16_eq, auto)
qed

lemma murmur_x86_128_short:
  assumes "length a < 16"
  shows "MurmurHash3_x86_128 a (int (length a)) seed =
    (case x86_128_final (int (length a))
        (x86_128_tail a 0 (int (length a)) (seed, seed, seed, seed))
     of (h1, h2, h3, h4) \<Rightarrow> le_bytes 4 h1 @ le_bytes 4 h2 @ le_bytes 4 h3 @ le_bytes 4 h4)"
  using assms by (simp add: MurmurHash3_x86_128_def Let_def sdiv_int_nat len_and_mask)

lemma murmur_x86_128_block:
  assumes "length a = 16"
  shows "MurmurHash3_x86_128 a (int (length a)) seed =
    (case x86_128_final 16
        (x86_128_block (le_word (take 4 (drop 0 a)), le_word (take 4 (drop 4 a)),
           le_word (take 4 (drop 8 a)), le_word (take 4 (drop 12 a))) (seed, seed, seed, seed))
     of (h1, h2, h3, h4) \<Rightarrow> le_bytes 4 h1 @ le_bytes 4 h2 @ le_bytes 4 h3 @ le_bytes 4 h4)"
proof -
  have tail: "x86_128_tail a 16 0 h = h" for h
    by (cases h) (simp add: x86_128_tail_def)
  show ?thesis using assms
    by (simp add: MurmurHash3_x86_128_def sdiv_int_nat len_and_mask tail getblock32_def
        del: x86_128_block.simps)
qed

lemma le_bytes_quad_inject:
  "(case h of (h1, h2, h3, h4) \<Rightarrow> le_bytes 4 h1 @ le_bytes 4 h2 @ le_bytes 4 h3 @ le_bytes 4 h4) =
     (case g of (g1, g2, g3, g4) \<Rightarrow> le_bytes 4 g1 @ le_bytes 4 g2 @ le_bytes 4 g3 @ le_bytes 4 g4)
     \<longleftrightarrow> h = (g :: lanes32)"
  by (cases h; cases g) (simp add: le_bytes_inject)

lemma x86_chunk_inject:
  assumes "length a = length b"
  shows "(le_word (take 4 (drop m a)) :: 32 word) = le_word (take 4 (drop m b)) \<longleftrightarrow>
    take 4 (drop m a) = take 4 (drop m b)"
  using le_word_chunk_inject [where 'w = 32, of 4 m a b] assms by auto

lemma take_drop_quarters_eq:
  fixes a b :: bytes
  assumes "take 4 (drop 0 a) = take 4 (drop 0 b)" "take 4 (drop 4 a) = take 4 (drop 4 b)"
    "take 4 (drop 8 a) = take 4 (drop 8 b)" "take 4 (drop 12 a) = take 4 (drop 12 b)"
    and "length a \<le> 16" "length b \<le> 16"
  shows "a = b"
proof (rule take_drop_16_eq)
  have split: "take 8 (drop m c) = take 4 (drop m c) @ take 4 (drop (m + 4) c)" for m :: nat and c :: bytes
    using take_add [of 4 4 "drop m c"] by (simp add: add.commute)
  show "take 8 (drop 0 a) = take 8 (drop 0 b)"
    using assms(1,2) split [of 0 a] split [of 0 b] by simp
  show "take 8 (drop 8 a) = take 8 (drop 8 b)"
    using assms(3,4) split [of 8] by simp
qed (use assms in auto)

lemma MurmurHash3_x86_128_inject:
  assumes "length a = length b" and "length a \<le> 16"
    and "MurmurHash3_x86_128 a (int (length a)) seed = MurmurHash3_x86_128 b (int (length b)) seed"
  shows "a = b"
proof (cases "length a = 16")
  case True
  with assms(1) have "length b = 16" by simp
  have "take 4 (drop 0 a) = take 4 (drop 0 b) \<and> take 4 (drop 4 a) = take 4 (drop 4 b) \<and>
      take 4 (drop 8 a) = take 4 (drop 8 b) \<and> take 4 (drop 12 a) = take 4 (drop 12 b)"
    using assms(3) unfolding murmur_x86_128_block [OF True] murmur_x86_128_block [OF \<open>length b = 16\<close>]
      le_bytes_quad_inject x86_128_final_inject x86_128_block_inject prod.inject
      x86_chunk_inject [OF assms(1)] .
  then show ?thesis using assms(1,2) by - (rule take_drop_quarters_eq, auto)
next
  case False
  then have short: "length a < 16" "length b < 16" using assms(1,2) by auto
  have nil: "a = [] \<longleftrightarrow> b = []" using assms(1) by auto
  have "x86_128_tail a 0 (int (length a)) (seed, seed, seed, seed) =
      x86_128_tail b 0 (int (length b)) (seed, seed, seed, seed)"
    using assms(3) unfolding murmur_x86_128_short [OF short(1)] murmur_x86_128_short [OF short(2)]
      le_bytes_quad_inject unfolding assms(1) x86_128_final_inject .
  then have "b = [] \<or> take 4 (drop 0 a) = take 4 (drop 0 b)"
    and "length b \<le> 4 \<or> take 4 (drop 4 a) = take 4 (drop 4 b)"
    and "length b \<le> 8 \<or> take 4 (drop 8 a) = take 4 (drop 8 b)"
    and "length b \<le> 12 \<or> take 4 (drop 12 a) = take 4 (drop 12 b)"
    unfolding x86_128_tail_eq [OF short(1)] x86_128_tail_eq [OF short(2)] prod.inject
    unfolding nil assms(1)
    by (simp_all only: if_same_eq xor_left_inject mix_inject x86_chunk_inject [OF assms(1)])
  then show ?thesis using assms(1,2)
    by - (rule take_drop_quarters_eq, auto)
qed

lemma MurmurHash3_x86_32_inject:
  assumes "length a = length b" and "length a \<le> 4"
    and "MurmurHash3_x86_32 a (int (length a)) seed = MurmurHash3_x86_32 b (int (length b)) seed"
  shows "a = b"
proof -
  have hash: "MurmurHash3_x86_32 c (int (length c)) seed =
      le_bytes 4 (fmix32 ((if length c = 4 then x86_32_block (le_word (take 4 (drop 0 c))) seed
        else x86_32_tail c 0 (int (length c)) seed) XOR word_of_int (int (length c))))"
    if "length c \<le> 4" for c
  proof (cases "length c = 4")
    case True
    then show ?thesis
      by (simp add: MurmurHash3_x86_32_def Let_def sdiv_int_nat len_and_mask x86_32_tail_def getblock32_def)
  next
    case False
    with that have "length c < 4" by simp
    then show ?thesis
      by (simp add: MurmurHash3_x86_32_def Let_def sdiv_int_nat len_and_mask)
  qed
  have "(if length b = 4 then x86_32_block (le_word (take 4 (drop 0 a))) seed
        else x86_32_tail a 0 (int (length a)) seed) =
      (if length b = 4 then x86_32_block (le_word (take 4 (drop 0 b))) seed
        else x86_32_tail b 0 (int (length b)) seed)"
    using assms(3) unfolding hash [OF assms(2)] hash [OF assms(2) [unfolded assms(1)]]
    unfolding assms(1) by (simp only: le_bytes_inject_32 fmix32_inject xor_right_inject)
  note eq = this
  have nil: "a = [] \<longleftrightarrow> b = []" using assms(1) by auto
  have "b = [] \<or> take 4 (drop 0 a) = take 4 (drop 0 b)"
  proof (cases "length b = 4")
    case True
    with eq show ?thesis
      by (simp only: if_True x86_32_block_inject x86_chunk_inject [OF assms(1)] simp_thms)
  next
    case False
    with assms(1,2) have short: "length a < 4" "length b < 4" by auto
    from eq show ?thesis
      unfolding x86_32_tail_eq [OF short(1)] x86_32_tail_eq [OF short(2)] nil
      by (simp only: False if_False if_same_eq xor_left_inject mix_inject
          x86_chunk_inject [OF assms(1)])
  qed
  then show ?thesis using assms(1,2) by auto
qed

lemma x64_128_block_state_inject: "x64_128_block k h = x64_128_block k g \<longleftrightarrow> h = g"
proof
  obtain k1 k2 h1 h2 g1 g2 where v: "k = (k1, k2)" "h = (h1, h2)" "g = (g1, g2)"
    by (cases k; cases h; cases g)
  assume eq: "x64_128_block k h = x64_128_block k g"
  let ?u = "\<lambda>h1 h2. (rotl64 (h1 XOR x64_128_mix1 k1) 27 + h2) * 5 + 0x52dce729"
  have u: "?u h1 h2 = ?u g1 g2"
    and w: "(rotl64 (h2 XOR x64_128_mix2 k2) 31 + ?u h1 h2) * 5 + 0x38495ab5 =
      (rotl64 (g2 XOR x64_128_mix2 k2) 31 + ?u g1 g2) * 5 + 0x38495ab5"
    using eq unfolding v x64_128_block.simps Let_def prod.inject by blast+
  from w have "h2 = g2" unfolding u by simp
  with u show "h = g" by (simp add: v)
qed simp

lemma x64_128_tail_state_inject: "x64_128_tail d t n h = x64_128_tail d t n g \<longleftrightarrow> h = g"
proof -
  obtain h1 h2 g1 g2 where v: "h = (h1, h2)" "g = (g1, g2)" by (cases h; cases g)
  show ?thesis
    unfolding v x64_128_tail_def Let_def prod.case if_xor prod.inject xor_right_inject ..
qed

lemma x64_128_tail_drop:
  assumes "nat t \<le> length d"
  shows "x64_128_tail d t n h = x64_128_tail (drop (nat t) d) 0 n h"
proof -
  have at: "tail_at (drop (nat t) d) 0 j = tail_at d t j" for j
    using assms by (simp add: tail_at_def)
  show ?thesis unfolding x64_128_tail_def at ..
qed

abbreviation x64_128_key :: "bytes \<Rightarrow> int \<Rightarrow> lanes64" where
  "x64_128_key a i \<equiv> (getblock64 a 0 (i * 2 + 0), getblock64 a 0 (i * 2 + 1))"

abbreviation x64_128_body :: "bytes \<Rightarrow> lanes64 \<Rightarrow> int list \<Rightarrow> lanes64" where
  "x64_128_body a s js \<equiv> foldl (\<lambda>h i. x64_128_block (x64_128_key a i) h) s js"

lemma murmur_x64_eq:
  "MurmurHash3_x64_128 a (int n) seed = MurmurHash3_x64_128 b (int n) seed \<longleftrightarrow>
     x64_128_tail a (int (n div 16) * 16) (int (n mod 16)) (x64_128_body a (ucast seed, ucast seed) [0 .. int (n div 16) - 1]) =
     x64_128_tail b (int (n div 16) * 16) (int (n mod 16)) (x64_128_body b (ucast seed, ucast seed) [0 .. int (n div 16) - 1])"
  unfolding MurmurHash3_x64_128_def Let_def sdiv_int_nat len_and_mask le_bytes_pair_inject x64_128_final_inject ..

lemma getblock64_eq: 
  "getblock64 a 0 (int i * 2 + 0) = le_word (take 8 (drop (16 * i) a))"
  "getblock64 a 0 (int i * 2 + 1) = le_word (take 8 (drop (16 * i + 8) a))"
proof -
  have "nat (0 + 8 * (int i * 2 + 0)) = 16 * i" "nat (0 + 8 * (int i * 2 + 1)) = 16 * i + 8"
    by auto
  then show "getblock64 a 0 (int i * 2 + 0) = le_word (take 8 (drop (16 * i) a))"
    "getblock64 a 0 (int i * 2 + 1) = le_word (take 8 (drop (16 * i + 8) a))"
    by (simp_all only: getblock64_def)
qed

lemma x64_128_key_eq_iff:
  assumes "length a = length b"
  shows "x64_128_key a (int i) = x64_128_key b (int i) \<longleftrightarrow> take 16 (drop (16 * i) a) = take 16 (drop (16 * i) b)"
proof -
  have "take 16 (drop (16 * i) c) = take 8 (drop (16 * i) c) @ take 8 (drop (16 * i + 8) c)" for c :: bytes
    using take_add [of 8 8 "drop (16 * i) c"] by (simp add: add.commute)
  then show ?thesis using assms
    by (simp only: getblock64_eq prod.inject x64_chunk_inject [OF assms]) simp
qed

lemma blocks_eq_iff:
  assumes "length a = length b"
  shows "take 16 (drop (16 * i) a) = take 16 (drop (16 * i) b) \<longleftrightarrow>
    (\<forall>j < length a. j div 16 = i \<longrightarrow> a ! j = b ! j)"
proof -
  have "take 16 (drop (16 * i) a) = take 16 (drop (16 * i) b) \<longleftrightarrow>
      (\<forall>k < 16. 16 * i + k < length a \<longrightarrow> a ! (16 * i + k) = b ! (16 * i + k))"
    using assms by (auto simp: list_eq_iff_nth_eq)
  also have "\<dots> \<longleftrightarrow> (\<forall>j < length a. j div 16 = i \<longrightarrow> a ! j = b ! j)"
  proof safe
    fix j assume h: "\<forall>k<16. 16 * (j div 16) + k < length a \<longrightarrow> a ! (16 * (j div 16) + k) = b ! (16 * (j div 16) + k)"
      and "j < length a"
    then show "a ! j = b ! j" using h [rule_format, of "j mod 16"] by simp
  qed auto
  finally show ?thesis .
qed

lemma x64_128_body_single_block:
  assumes len: "length a = length b"
    and same: "\<forall>j < length a. j div 16 \<noteq> i \<longrightarrow> a ! j = b ! j"
  shows "x64_128_body a s [0 .. int n - 1] = x64_128_body b s [0 .. int n - 1] \<longleftrightarrow>
      (i < n \<longrightarrow> x64_128_key a (int i) = x64_128_key b (int i))"
proof -
  have others: "x64_128_key a j = x64_128_key b j" if "j \<in> set [0 .. int n - 1]" "j \<noteq> int i" for j
  proof -
    obtain m where "j = int m" "m \<noteq> i"
      using \<open>j \<in> _\<close> \<open>j \<noteq> _\<close> by (metis atLeastAtMost_iff set_upto zero_le_imp_eq_int)
    then show ?thesis using same by (simp only: x64_128_key_eq_iff [OF len] blocks_eq_iff [OF len]) blast
  qed
  show ?thesis
    using foldl_single_difference [of x64_128_block "[0 .. int n - 1]" "int i" "x64_128_key a" "x64_128_key b" s]
      x64_128_block_state_inject x64_128_block_inject others by auto
qed

abbreviation x64_128_rest :: "bytes \<Rightarrow> bytes" where
  "x64_128_rest a \<equiv> drop (16 * (length a div 16)) a"

abbreviation x64_128_blocks :: "bytes \<Rightarrow> 32 word \<Rightarrow> lanes64" where
  "x64_128_blocks a seed \<equiv> x64_128_body a (ucast seed, ucast seed) [0 .. int (length a div 16) - 1]"

lemma length_x64_128_rest: "length (x64_128_rest a) = length a mod 16"
  by (simp add: minus_mult_div_eq_mod)

lemma murmur_x64_rest:
  assumes len: "length a = length b"
  shows "MurmurHash3_x64_128 a (int (length a)) seed = MurmurHash3_x64_128 b (int (length b)) seed \<longleftrightarrow>
    x64_128_tail (x64_128_rest a) 0 (int (length a mod 16)) (x64_128_blocks a seed) =
    x64_128_tail (x64_128_rest b) 0 (int (length b mod 16)) (x64_128_blocks b seed)"
proof -
  have m: "nat (int (length a div 16) * 16) = 16 * (length a div 16)" by simp
  have bound: "nat (int (length a div 16) * 16) \<le> length a" "nat (int (length a div 16) * 16) \<le> length b"
    using len by simp_all
  show ?thesis
    unfolding len [symmetric] murmur_x64_eq x64_128_tail_drop [OF bound(1)]
      x64_128_tail_drop [OF bound(2)] m ..
qed

lemma rest_eq_of_block:
  assumes len: "length a = length b" and same: "\<forall>j < length a. j div 16 \<noteq> i \<longrightarrow> a ! j = b ! j"
    and "i < length a div 16"
  shows "x64_128_rest a = x64_128_rest b"
proof (rule nth_equalityI)
  show "length (x64_128_rest a) = length (x64_128_rest b)" using len by simp
  fix k assume "k < length (x64_128_rest a)"
  then have k: "16 * (length a div 16) + k < length a" by simp
  moreover have "length a div 16 \<le> (16 * (length a div 16) + k) div 16" by simp
  ultimately have "a ! (16 * (length a div 16) + k) = b ! (16 * (length a div 16) + k)"
    using same assms(3) by auto
  then show "x64_128_rest a ! k = x64_128_rest b ! k" using k len by simp
qed

lemma MurmurHash3_x64_128_inject:
  assumes len: "length a = length b"
    and same: "\<forall>j < length a. j div 16 \<noteq> i \<longrightarrow> a ! j = b ! j"
    and hash: "MurmurHash3_x64_128 a (int (length a)) seed = MurmurHash3_x64_128 b (int (length b)) seed"
  shows "a = b"
proof -
  note tail = hash [unfolded murmur_x64_rest [OF len]]
  note blocks = x64_128_body_single_block [OF len same, of "(ucast seed, ucast seed)" "length a div 16"]
  have "a ! j = b ! j" if "j < length a" "j div 16 = i" for j
  proof (cases "i < length a div 16")
    case True
    have "x64_128_blocks a seed = x64_128_blocks b seed"
      using tail unfolding rest_eq_of_block [OF len same True]
      unfolding len x64_128_tail_state_inject .
    with True blocks len have "x64_128_key a (int i) = x64_128_key b (int i)" by simp
    with that show ?thesis unfolding x64_128_key_eq_iff [OF len] blocks_eq_iff [OF len] by blast
  next
    case False
    with blocks len have eq: "x64_128_blocks a seed = x64_128_blocks b seed" by simp
    have "x64_128_rest a = x64_128_rest b"
    proof (rule x64_128_tail_inject)
      show "x64_128_tail (x64_128_rest a) 0 (int (length (x64_128_rest a))) (x64_128_blocks b seed) =
          x64_128_tail (x64_128_rest b) 0 (int (length (x64_128_rest b))) (x64_128_blocks b seed)"
        using tail unfolding length_x64_128_rest eq .
    qed (use len in \<open>simp_all add: minus_mult_div_eq_mod\<close>)
    moreover have "16 * (length a div 16) \<le> j" using False that by auto
    ultimately show ?thesis using that len nth_eq_from_drop [of "16 * (length a div 16)" a b j] by simp
  qed
  with same show ?thesis by (intro nth_equalityI [OF len]) metis
qed

subsection \<open>Collision freedom\<close>

text \<open>
  C38: two keys of the same length that differ only inside one 16-byte block never collide under
  \<open>MurmurHash3_x64_128\<close>, the hash of the index keys on x86-64, for any seed and any length: the
  body, the tail and the finalisation lose no information about a block.
\<close>

theorem MurmurHash3_x64_128_no_collision:
  assumes "length a = length b" and "a \<noteq> b"
    and "\<forall>j < length a. j div 16 \<noteq> i \<longrightarrow> a ! j = b ! j"
  shows "MurmurHash3_x64_128 a (int (length a)) seed \<noteq> MurmurHash3_x64_128 b (int (length b)) seed"
  using MurmurHash3_x64_128_inject [OF assms(1,3)] assms(2) by blast

theorem MurmurHash3_x64_128_no_collision_witness:
  "MurmurHash3_x64_128 (replicate 16 7 @ [1, 2]) 18 13 \<noteq> MurmurHash3_x64_128 (replicate 16 7 @ [1, 3]) 18 13"
  using MurmurHash3_x64_128_no_collision [of "replicate 16 7 @ [1, 2]" "replicate 16 7 @ [1, 3]" 1 13]
  by (auto simp: nth_append)

text \<open>
  \<open>MurmurHash3_x86_128\<close>, the hash of the index keys on other platforms, is injective on keys
  of one length up to 16 bytes, that is up to the width of its output.
\<close>

theorem MurmurHash3_x86_128_no_collision:
  assumes "length a = length b" and "length a \<le> 16" and "a \<noteq> b"
  shows "MurmurHash3_x86_128 a (int (length a)) seed \<noteq> MurmurHash3_x86_128 b (int (length b)) seed"
  using MurmurHash3_x86_128_inject [OF assms(1,2)] assms(3) by blast

theorem MurmurHash3_x86_128_no_collision_witness:
  "MurmurHash3_x86_128 [1, 2, 3, 4, 5] 5 13 \<noteq> MurmurHash3_x86_128 [1, 2, 3, 4, 6] 5 13"
  using MurmurHash3_x86_128_no_collision [of "[1, 2, 3, 4, 5]" "[1, 2, 3, 4, 6]" 13] by simp

text \<open>
  \<open>MurmurHash3_x86_32\<close> is injective on keys of one length up to 4 bytes.
\<close>

theorem MurmurHash3_x86_32_no_collision:
  assumes "length a = length b" and "length a \<le> 4" and "a \<noteq> b"
  shows "MurmurHash3_x86_32 a (int (length a)) seed \<noteq> MurmurHash3_x86_32 b (int (length b)) seed"
  using MurmurHash3_x86_32_inject [OF assms(1,2)] assms(3) by blast

theorem MurmurHash3_x86_32_no_collision_witness:
  "MurmurHash3_x86_32 [1, 2, 3] 3 13 \<noteq> MurmurHash3_x86_32 [1, 2, 4] 3 13"
  using MurmurHash3_x86_32_no_collision [of "[1, 2, 3]" "[1, 2, 4]" 13] by simp

end
