(* ===== verification/Keys.thy ===== *)
theory Keys
  imports LevelDB Murmur3
begin

text \<open>
  The first part of \<open>persistence/leveldb_persistence.cc\<close>: index keys, the comparator of the
  index databases, and the pattern queries that choose an index and a key range.

  An index key is the concatenation of four 16-byte Murmur hashes, one per serialised component
  of a statement, in the order of the index. Buffers are byte lists that the functions update in
  place (\<open>write_at\<close>); a null string pointer is \<open>None\<close>.
\<close>

definition KEY_LENGTH :: nat where
  "KEY_LENGTH = 16"

text \<open>The hash selected by \<open>#ifdef __x86_64__\<close>; \<open>m->size()\<close> is converted to a C \<open>int\<close>.\<close>

definition keyHash :: "bool \<Rightarrow> bytes \<Rightarrow> bytes" where
  "keyHash x86_64 m =
     (if x86_64 then MurmurHash3_x64_128 m (int_of_size (length m)) 13
      else MurmurHash3_x86_128 m (int_of_size (length m)) 13)"

fun computeKey_loop :: "bool \<Rightarrow> bytes option list \<Rightarrow> nat \<Rightarrow> bytes \<Rightarrow> bytes" where
  "computeKey_loop x86_64 [] offset result = result"
| "computeKey_loop x86_64 (None # ms) offset result = result"
| "computeKey_loop x86_64 (Some m # ms) offset result =
     computeKey_loop x86_64 ms (offset + KEY_LENGTH) (write_at offset (keyHash x86_64 m) result)"

definition computeKey ::
  "bool \<Rightarrow> bytes option \<Rightarrow> bytes option \<Rightarrow> bytes option \<Rightarrow> bytes option \<Rightarrow> bytes \<Rightarrow> bytes" where
  "computeKey x86_64 a b c d result = computeKey_loop x86_64 [a, b, c, d] 0 result"

datatype Position = Pos_S | Pos_P | Pos_O | Pos_C

fun Position_int :: "Position \<Rightarrow> nat" where
  "Position_int Pos_S = 0"
| "Position_int Pos_P = 1"
| "Position_int Pos_O = 2"
| "Position_int Pos_C = 3"

fun orderKey_loop :: "bytes \<Rightarrow> Position list \<Rightarrow> nat \<Rightarrow> bytes \<Rightarrow> bytes" where
  "orderKey_loop src [] offset dest = dest"
| "orderKey_loop src (m # ms) offset dest =
     orderKey_loop src ms (offset + KEY_LENGTH)
       (write_at offset (take KEY_LENGTH (drop (Position_int m * KEY_LENGTH) src)) dest)"

definition orderKey ::
  "bytes \<Rightarrow> bytes \<Rightarrow> Position \<Rightarrow> Position \<Rightarrow> Position \<Rightarrow> Position \<Rightarrow> bytes" where
  "orderKey dest src a b c d = orderKey_loop src [a, b, c, d] 0 dest"

definition calloc_key :: bytes where
  "calloc_key = replicate (4 * KEY_LENGTH) 0"

definition KeyComparator_Compare :: comparator where
  "KeyComparator_Compare a b = memcmp a b (4 * KEY_LENGTH)"

subsection \<open>Pattern queries\<close>

datatype IndexType = SPOC | CSPO | OPSC | PCOS

record PatternQuery =
  pq_s :: "bytes option"
  pq_p :: "bytes option"
  pq_o :: "bytes option"
  pq_c :: "bytes option"
  pq_type :: IndexType

definition PatternQuery_new :: "('db, 'it) environment \<Rightarrow> proto_Statement \<Rightarrow> PatternQuery" where
  "PatternQuery_new E pattern =
     \<lparr>pq_s = map_option (ser_Resource E) (st_subject pattern),
      pq_p = map_option (ser_URI E) (st_predicate pattern),
      pq_o = map_option (ser_Value E) (st_object pattern),
      pq_c = map_option (ser_Resource E) (st_context pattern),
      pq_type =
        (if st_subject pattern \<noteq> None then
           (if st_context pattern \<noteq> None then CSPO else SPOC)
         else if st_object pattern \<noteq> None then OPSC
         else if st_predicate pattern \<noteq> None then PCOS
         else if st_context pattern \<noteq> None then CSPO
         else SPOC)\<rparr>"

definition PatternQuery_set_Type :: "PatternQuery \<Rightarrow> IndexType \<Rightarrow> PatternQuery" where
  "PatternQuery_set_Type q t = q\<lparr>pq_type := t\<rparr>"

definition PatternQuery_compute :: "bool \<Rightarrow> PatternQuery \<Rightarrow> bytes \<Rightarrow> bytes" where
  "PatternQuery_compute x86_64 q result =
     (case pq_type q of
        SPOC \<Rightarrow> computeKey x86_64 (pq_s q) (pq_p q) (pq_o q) (pq_c q) result
      | CSPO \<Rightarrow> computeKey x86_64 (pq_c q) (pq_s q) (pq_p q) (pq_o q) result
      | OPSC \<Rightarrow> computeKey x86_64 (pq_o q) (pq_p q) (pq_s q) (pq_c q) result
      | PCOS \<Rightarrow> computeKey x86_64 (pq_p q) (pq_c q) (pq_o q) (pq_s q) result)"

definition MinKey :: "bool \<Rightarrow> PatternQuery \<Rightarrow> bytes" where
  "MinKey x86_64 q = PatternQuery_compute x86_64 q calloc_key"

definition MaxKey :: "bool \<Rightarrow> PatternQuery \<Rightarrow> bytes" where
  "MaxKey x86_64 q = PatternQuery_compute x86_64 q (replicate (4 * KEY_LENGTH) 0xFF)"

text \<open>The test of a statement against a pattern that the file defines but never calls.\<close>

definition matches :: "proto_Statement \<Rightarrow> proto_Statement \<Rightarrow> bool" where
  "matches stmt pattern =
     (if has_context pattern \<and> Resource_neq (context_of stmt) (context_of pattern) then False
      else if st_subject pattern \<noteq> None \<and> Resource_neq (subject_of stmt) (subject_of pattern) then False
      else if st_predicate pattern \<noteq> None \<and> URI_neq (predicate_of stmt) (predicate_of pattern) then False
      else if st_object pattern \<noteq> None \<and> Value_neq (object_of stmt) (object_of pattern) then False
      else True)"

subsection \<open>Keys as concatenated hashes\<close>

lemma length_keyHash [simp]: "length (keyHash x m) = KEY_LENGTH"
  by (simp add: keyHash_def MurmurHash3_x64_128_def MurmurHash3_x86_128_def Let_def KEY_LENGTH_def
      split: prod.split)

lemma write_at_append:
  "length a = off \<Longrightarrow> length s \<le> length d \<Longrightarrow> write_at off s (a @ d) = (a @ s) @ drop (length s) d"
  by (simp add: write_at_def)

fun some_prefix :: "'a option list \<Rightarrow> 'a list" where
  "some_prefix (Some x # ms) = x # some_prefix ms"
| "some_prefix _ = []"

lemma length_some_prefix: "length (some_prefix ms) \<le> length ms"
  by (induction ms rule: some_prefix.induct) simp_all

definition hashes :: "bool \<Rightarrow> bytes list \<Rightarrow> bytes" where
  "hashes x ms = concat (map (keyHash x) ms)"

lemma length_hashes [simp]: "length (hashes x ms) = KEY_LENGTH * length ms"
  by (induction ms) (simp_all add: hashes_def)

lemma computeKey_loop_eq:
  assumes "length a = off" and "KEY_LENGTH * length ms \<le> length d"
  shows "computeKey_loop x ms off (a @ d) =
    a @ hashes x (some_prefix ms) @ drop (KEY_LENGTH * length (some_prefix ms)) d"
  using assms
proof (induction x ms off "a @ d" arbitrary: a d rule: computeKey_loop.induct)
  case (3 x m ms off)
  have "computeKey_loop x ms (off + KEY_LENGTH) ((a @ keyHash x m) @ drop KEY_LENGTH d) =
      (a @ keyHash x m) @ hashes x (some_prefix ms) @
        drop (KEY_LENGTH * length (some_prefix ms)) (drop KEY_LENGTH d)"
    using 3(2,3) by (intro 3(1)) (simp_all add: write_at_append)
  then show ?case using 3(2,3) by (simp add: write_at_append hashes_def add.commute)
qed (simp_all add: hashes_def)

lemma computeKey_eq:
  assumes "length d = 4 * KEY_LENGTH"
  shows "computeKey x a b c e d = hashes x (some_prefix [a, b, c, e]) @
    drop (KEY_LENGTH * length (some_prefix [a, b, c, e])) d"
  using computeKey_loop_eq [of "[]" 0 "[a, b, c, e]" d x] assms
  by (simp add: computeKey_def)

lemma computeKey_full:
  assumes "length d = 4 * KEY_LENGTH"
  shows "computeKey x (Some a) (Some b) (Some c) (Some e) d = hashes x [a, b, c, e]"
  using assms by (simp add: computeKey_eq)

lemma orderKey_loop_eq:
  assumes "\<And>m. take KEY_LENGTH (drop (Position_int m * KEY_LENGTH) src) = f m"
    and "\<And>m. length (f m) = KEY_LENGTH" and "length a = off" and "KEY_LENGTH * length ms \<le> length d"
  shows "orderKey_loop src ms off (a @ d) = a @ concat (map f ms) @ drop (KEY_LENGTH * length ms) d"
  using assms(3,4)
proof (induction ms arbitrary: off a d)
  case (Cons m ms)
  have "orderKey_loop src ms (off + KEY_LENGTH) ((a @ f m) @ drop KEY_LENGTH d) =
      (a @ f m) @ concat (map f ms) @ drop (KEY_LENGTH * length ms) (drop KEY_LENGTH d)"
    using Cons.prems assms(2) by (intro Cons.IH) simp_all
  then show ?case using Cons.prems assms(1,2) by (simp add: write_at_append add.commute)
qed simp

lemma hashes_block:
  "take KEY_LENGTH (drop (Position_int m * KEY_LENGTH) (hashes x [s, p, v, c])) =
     keyHash x ([s, p, v, c] ! Position_int m)"
  by (cases m) (simp_all add: hashes_def numeral_2_eq_2 numeral_3_eq_3)

lemma orderKey_hashes:
  assumes "length d = 4 * KEY_LENGTH"
  shows "orderKey d (hashes x [s, p, v, c]) i j k l =
    hashes x (map (\<lambda>m. [s, p, v, c] ! Position_int m) [i, j, k, l])"
  using orderKey_loop_eq [of "hashes x [s, p, v, c]" "\<lambda>m. keyHash x ([s, p, v, c] ! Position_int m)"
      "[]" 0 "[i, j, k, l]" d] assms
  by (simp add: orderKey_def hashes_block) (simp add: hashes_def)

text \<open>
  C19: reordering a key gives the key. \<open>orderKey\<close> on the SPOC key of four components yields, for
  each of the other three indexes, exactly the key that \<open>computeKey\<close> computes for the components
  in the order of that index, so the hashes need not be recomputed.
\<close>

theorem orderKey_equals_computeKey:
  "orderKey calloc_key (computeKey x (Some s) (Some p) (Some v) (Some c) calloc_key) Pos_C Pos_S Pos_P Pos_O =
     computeKey x (Some c) (Some s) (Some p) (Some v) calloc_key \<and>
   orderKey calloc_key (computeKey x (Some s) (Some p) (Some v) (Some c) calloc_key) Pos_O Pos_P Pos_S Pos_C =
     computeKey x (Some v) (Some p) (Some s) (Some c) calloc_key \<and>
   orderKey calloc_key (computeKey x (Some s) (Some p) (Some v) (Some c) calloc_key) Pos_P Pos_C Pos_O Pos_S =
     computeKey x (Some p) (Some c) (Some v) (Some s) calloc_key"
  by (simp add: computeKey_full orderKey_hashes calloc_key_def numeral_2_eq_2 numeral_3_eq_3)

subsection \<open>The order of the index databases\<close>

definition index_keys :: "bytes set" where
  "index_keys = {k. length k = 4 * KEY_LENGTH}"

lemma KeyComparator_bytes: "a \<in> index_keys \<Longrightarrow> b \<in> index_keys \<Longrightarrow> KeyComparator_Compare a b = bytes_compare a b"
  by (simp add: KeyComparator_Compare_def memcmp_def index_keys_def)

interpretation index_order: key_order KeyComparator_Compare index_keys
proof unfold_locales
  fix a b d assume "a \<in> index_keys" "b \<in> index_keys" "d \<in> index_keys"
    "KeyComparator_Compare a b < 0" "KeyComparator_Compare b d < 0"
  then show "KeyComparator_Compare a d < 0"
    using bytes_compare_trans [of a b d] by (simp add: KeyComparator_bytes)
qed (simp_all add: KeyComparator_bytes bytes_compare_flip)

subsection \<open>Key ranges\<close>

fun index_parts :: "IndexType \<Rightarrow> 'a \<Rightarrow> 'a \<Rightarrow> 'a \<Rightarrow> 'a \<Rightarrow> 'a list" where
  "index_parts SPOC s p v c = [s, p, v, c]"
| "index_parts CSPO s p v c = [c, s, p, v]"
| "index_parts OPSC s p v c = [v, p, s, c]"
| "index_parts PCOS s p v c = [p, c, v, s]"

lemma length_index_parts [simp]: "length (index_parts t s p v c) = 4"
  by (cases t) simp_all

lemma map_index_parts: "map f (index_parts t s p v c) = index_parts t (f s) (f p) (f v) (f c)"
  by (cases t) simp_all

definition query_prefix :: "PatternQuery \<Rightarrow> bytes list" where
  "query_prefix q = some_prefix (index_parts (pq_type q) (pq_s q) (pq_p q) (pq_o q) (pq_c q))"

lemma length_query_prefix: "length (query_prefix q) \<le> 4"
  using length_some_prefix [of "index_parts (pq_type q) (pq_s q) (pq_p q) (pq_o q) (pq_c q)"]
  by (simp add: query_prefix_def)

lemma PatternQuery_compute_eq:
  assumes "length d = 4 * KEY_LENGTH"
  shows "PatternQuery_compute x q d =
    hashes x (query_prefix q) @ drop (KEY_LENGTH * length (query_prefix q)) d"
  using assms
  by (cases "pq_type q")
    (simp_all add: PatternQuery_compute_def query_prefix_def computeKey_eq del: some_prefix.simps)

lemma prefix_rest:
  "KEY_LENGTH * length (query_prefix q) + (4 * KEY_LENGTH - KEY_LENGTH * length (query_prefix q)) =
     4 * KEY_LENGTH"
  using length_query_prefix [of q] by (simp add: KEY_LENGTH_def)

lemma MinKey_eq: "MinKey x q = hashes x (query_prefix q) @
    replicate (4 * KEY_LENGTH - KEY_LENGTH * length (query_prefix q)) 0"
  by (simp add: MinKey_def PatternQuery_compute_eq calloc_key_def)

lemma MaxKey_eq: "MaxKey x q = hashes x (query_prefix q) @
    replicate (4 * KEY_LENGTH - KEY_LENGTH * length (query_prefix q)) 0xFF"
  by (simp add: MaxKey_def PatternQuery_compute_eq)

lemma MinMaxKey_index_keys: "MinKey x q \<in> index_keys" "MaxKey x q \<in> index_keys"
  using prefix_rest [of q] by (simp_all add: index_keys_def MinKey_eq MaxKey_eq)

lemma key_in_range_iff:
  assumes "length k = 4 * KEY_LENGTH"
  shows "0 \<le> bytes_compare k (MinKey x q) \<and> bytes_compare k (MaxKey x q) \<le> 0 \<longleftrightarrow>
    take (KEY_LENGTH * length (query_prefix q)) k = hashes x (query_prefix q)"
proof -
  let ?n = "KEY_LENGTH * length (query_prefix q)"
  define a r where "a = take ?n k" and "r = drop ?n k"
  have k: "k = a @ r" by (simp add: a_def r_def)
  have a: "length a = length (hashes x (query_prefix q))"
    using prefix_rest [of q] assms by (simp add: a_def)
  then have t: "take ?n (a @ r) = a" by simp
  have r: "length r = 4 * KEY_LENGTH - ?n" using assms by (simp add: r_def)
  have "0 \<le> bytes_compare a (hashes x (query_prefix q)) \<and> bytes_compare a (hashes x (query_prefix q)) \<le> 0
      \<longleftrightarrow> a = hashes x (query_prefix q)"
    using bytes_compare_0 [of a] by (metis order_antisym order_refl)
  then show ?thesis
    using bytes_compare_least [of r] bytes_compare_greatest [of r]
    unfolding k t MinKey_eq MaxKey_eq bytes_compare_append [OF a] by (auto simp: r)
qed

text \<open>
  C18: the key range of a pattern query. A 64-byte key lies between the lower and the upper key of
  the query, both included, exactly when it starts with the hashes of the components that precede
  the first wildcard in the order of the chosen index.
\<close>

theorem key_range_is_prefix:
  assumes "length k = 4 * KEY_LENGTH"
  shows "0 \<le> KeyComparator_Compare k (MinKey x q) \<and> KeyComparator_Compare k (MaxKey x q) \<le> 0 \<longleftrightarrow>
    take (KEY_LENGTH * length (query_prefix q)) k = hashes x (query_prefix q)"
  using key_in_range_iff [OF assms] assms MinMaxKey_index_keys [of x q]
  by (simp add: KeyComparator_bytes index_keys_def)

theorem key_range_is_prefix_witness:
  "0 \<le> KeyComparator_Compare (hashes True [[1], [2], [3], [4]])
     (MinKey True \<lparr>pq_s = Some [1], pq_p = Some [2], pq_o = None, pq_c = None, pq_type = SPOC\<rparr>)"
proof -
  let ?q = "\<lparr>pq_s = Some [1], pq_p = Some [2], pq_o = None, pq_c = None, pq_type = SPOC\<rparr> :: PatternQuery"
  have "length (hashes True [[1], [2], [3], [4]]) = 4 * KEY_LENGTH" by simp
  moreover have "take (KEY_LENGTH * length (query_prefix ?q)) (hashes True [[1], [2], [3], [4]]) =
      hashes True (query_prefix ?q)"
    by (simp add: query_prefix_def hashes_def)
  ultimately show ?thesis using key_range_is_prefix [of "hashes True [[1], [2], [3], [4]]" True ?q] by blast
qed

subsection \<open>Which statements a query hits\<close>

definition statement_key :: "('db, 'it) environment \<Rightarrow> IndexType \<Rightarrow> proto_Statement \<Rightarrow> bytes" where
  "statement_key E t s = hashes (is_x86_64 E)
     (index_parts t (ser_Resource E (subject_of s)) (ser_URI E (predicate_of s))
        (ser_Value E (object_of s)) (ser_Resource E (context_of s)))"

lemma statement_key_index_keys [simp]: "statement_key E t s \<in> index_keys"
  by (simp add: statement_key_def index_keys_def)

lemma hashes_eq_iff:
  "length ms = length ns \<Longrightarrow> hashes x ms = hashes x ns \<longleftrightarrow> map (keyHash x) ms = map (keyHash x) ns"
  by (induction ms ns rule: list_induct2) (simp_all add: hashes_def)

text \<open>
  Two statements have the same key in one index exactly when they have it in every index: when
  the hashes of their four serialised components agree.
\<close>

definition same_hashes :: "('db, 'it) environment \<Rightarrow> proto_Statement \<Rightarrow> proto_Statement \<Rightarrow> bool" where
  "same_hashes E s t \<longleftrightarrow>
     keyHash (is_x86_64 E) (ser_Resource E (subject_of s)) = keyHash (is_x86_64 E) (ser_Resource E (subject_of t)) \<and>
     keyHash (is_x86_64 E) (ser_URI E (predicate_of s)) = keyHash (is_x86_64 E) (ser_URI E (predicate_of t)) \<and>
     keyHash (is_x86_64 E) (ser_Value E (object_of s)) = keyHash (is_x86_64 E) (ser_Value E (object_of t)) \<and>
     keyHash (is_x86_64 E) (ser_Resource E (context_of s)) = keyHash (is_x86_64 E) (ser_Resource E (context_of t))"

lemma statement_key_eq_iff: "statement_key E i s = statement_key E i t \<longleftrightarrow> same_hashes E s t"
  by (cases i) (auto simp: statement_key_def same_hashes_def hashes_eq_iff)

text \<open>
  A field of a pattern against the field of a statement, by their hashes. \<open>hash_matches\<close> is what
  a complete comparison by hashes would be; \<open>effective\<close> drops the fields of a pattern that come
  after a wildcard in the order of the index that \<open>PatternQuery\<close> chooses.
\<close>

definition field_match :: "bool \<Rightarrow> ('m \<Rightarrow> bytes) \<Rightarrow> 'm option \<Rightarrow> 'm \<Rightarrow> bool" where
  "field_match x ser pat m = (case pat of None \<Rightarrow> True | Some n \<Rightarrow> keyHash x (ser n) = keyHash x (ser m))"

definition hash_matches :: "('db, 'it) environment \<Rightarrow> proto_Statement \<Rightarrow> proto_Statement \<Rightarrow> bool" where
  "hash_matches E pattern s \<longleftrightarrow>
     field_match (is_x86_64 E) (ser_Resource E) (st_subject pattern) (subject_of s) \<and>
     field_match (is_x86_64 E) (ser_URI E) (st_predicate pattern) (predicate_of s) \<and>
     field_match (is_x86_64 E) (ser_Value E) (st_object pattern) (object_of s) \<and>
     field_match (is_x86_64 E) (ser_Resource E) (st_context pattern) (context_of s)"

definition effective :: "proto_Statement \<Rightarrow> proto_Statement" where
  "effective pattern =
     (if st_subject pattern \<noteq> None \<and> st_predicate pattern = None then pattern\<lparr>st_object := None\<rparr>
      else if st_subject pattern = None \<and> st_object pattern \<noteq> None then pattern\<lparr>st_context := None\<rparr>
      else pattern)"

definition query_hits :: "('db, 'it) environment \<Rightarrow> proto_Statement \<Rightarrow> proto_Statement \<Rightarrow> bool" where
  "query_hits E pattern s \<longleftrightarrow>
     take (KEY_LENGTH * length (query_prefix (PatternQuery_new E pattern)))
       (statement_key E (pq_type (PatternQuery_new E pattern)) s) =
     hashes (is_x86_64 E) (query_prefix (PatternQuery_new E pattern))"

lemma query_hits_iff: "query_hits E pattern s \<longleftrightarrow> hash_matches E (effective pattern) s"
  by (cases "st_subject pattern"; cases "st_predicate pattern"; cases "st_object pattern";
      cases "st_context pattern")
    (auto simp: query_hits_def statement_key_def PatternQuery_new_def query_prefix_def hashes_def
      hash_matches_def effective_def field_match_def)

end
