(* ===== verification/Util.thy ===== *)
theory Util
  imports Prelude
begin

text \<open>
  \<open>util/iterator.h\<close> and \<open>util/split.cc\<close>.

  The abstract class \<open>CloseableIterator\<close> is a record of its virtual methods over a state type;
  \<open>operator*\<close> may throw and may update the object (iterators parse lazily). Its contract is
  the locale \<open>closeable_iterator\<close>: a state abstracts to the list of elements still to come.
  The loops that the other components write over an iterator are the two functions
  \<open>for_each\<close> and \<open>for_callback\<close>; they may in principle run forever or throw, and the locale
  proves once that over an iterator that keeps the contract they visit exactly the remaining
  elements, in order, and return.
\<close>

record ('i, 'a) CloseableIterator =
  it_inc :: "'i \<Rightarrow> 'i"
  it_deref :: "'i \<Rightarrow> error + 'a \<times> 'i"
  it_hasNext :: "'i \<Rightarrow> bool"

definition EmptyIterator :: "(unit, 'a) CloseableIterator" where
  "EmptyIterator =
     \<lparr>it_inc = (\<lambda>it. it), it_deref = (\<lambda>it. Inl OutOfRange), it_hasNext = (\<lambda>it. False)\<rparr>"

record 'a singleton_iterator =
  singleton_value :: 'a
  incremented :: bool

definition SingletonIterator_new :: "'a \<Rightarrow> 'a singleton_iterator" where
  "SingletonIterator_new v = \<lparr>singleton_value = v, incremented = False\<rparr>"

definition SingletonIterator :: "('a singleton_iterator, 'a) CloseableIterator" where
  "SingletonIterator =
     \<lparr>it_inc = (\<lambda>it. it\<lparr>incremented := True\<rparr>),
      it_deref = (\<lambda>it. if \<not> incremented it then Inr (singleton_value it, it) else Inl OutOfRange),
      it_hasNext = (\<lambda>it. \<not> incremented it)\<rparr>"

text \<open>\<open>for (; it.hasNext(); ++it) { body(*it); }\<close>, where the body may itself fail to return.\<close>

partial_function (option) for_each ::
  "('i, 'a) CloseableIterator \<Rightarrow> ('s \<Rightarrow> 'a \<Rightarrow> 's exec) \<Rightarrow> 'i \<Rightarrow> 's \<Rightarrow> 's exec" where
  "for_each V body it s =
     (if it_hasNext V it then
        (case it_deref V it of
           Inl e \<Rightarrow> Some (Inl e)
         | Inr (x, it') \<Rightarrow>
             (case body s x of
                None \<Rightarrow> None
              | Some (Inl e) \<Rightarrow> Some (Inl e)
              | Some (Inr s') \<Rightarrow> for_each V body (it_inc V it') s'))
      else Some (Inr s))"

text \<open>
  \<open>for (; cbsuccess && it->hasNext(); ++it) { cbsuccess = callback(*it); }\<close>; the state is what
  the callback's closure captures by reference.
\<close>

partial_function (option) for_callback ::
  "('i, 'a) CloseableIterator \<Rightarrow> ('s \<Rightarrow> 'a \<Rightarrow> bool \<times> 's) \<Rightarrow> bool \<Rightarrow> 'i \<Rightarrow> 's \<Rightarrow> 's exec" where
  "for_callback V callback cbsuccess it s =
     (if cbsuccess \<and> it_hasNext V it then
        (case it_deref V it of
           Inl e \<Rightarrow> Some (Inl e)
         | Inr (x, it') \<Rightarrow>
             for_callback V callback (fst (callback s x)) (it_inc V it') (snd (callback s x)))
      else Some (Inr s))"

text \<open>The same two loops over a list: what the contract lets them be replaced by.\<close>

fun exec_foldl :: "('s \<Rightarrow> 'a \<Rightarrow> 's exec) \<Rightarrow> 's \<Rightarrow> 'a list \<Rightarrow> 's exec" where
  "exec_foldl f s [] = exec_return s"
| "exec_foldl f s (x # xs) = exec_bind (f s x) (\<lambda>s'. exec_foldl f s' xs)"

fun callback_foldl :: "('s \<Rightarrow> 'a \<Rightarrow> bool \<times> 's) \<Rightarrow> 's \<Rightarrow> 'a list \<Rightarrow> 's" where
  "callback_foldl cb s [] = s"
| "callback_foldl cb s (x # xs) =
     (if fst (cb s x) then callback_foldl cb (snd (cb s x)) xs else snd (cb s x))"

text \<open>
  \<open>std::getline\<close> on a string stream: nothing left sets the fail bit (\<open>None\<close>); otherwise the
  characters up to the delimiter, which is dropped.
\<close>

definition getline :: "char \<Rightarrow> string \<Rightarrow> (string \<times> string) option" where
  "getline delim s =
     (if s = [] then None
      else Some (takeWhile (\<lambda>c. c \<noteq> delim) s, drop 1 (dropWhile (\<lambda>c. c \<noteq> delim) s)))"

lemma getline_shorter: "getline delim s = Some (item, rest) \<Longrightarrow> length rest < length s"
  using length_dropWhile_le [of "\<lambda>c. c \<noteq> delim" s]
  by (cases s) (auto simp: getline_def split: if_splits)

function split_into :: "string \<Rightarrow> char \<Rightarrow> string list \<Rightarrow> string list" where
  "split_into s delim elems =
     (case getline delim s of
        None \<Rightarrow> elems
      | Some (item, rest) \<Rightarrow> split_into rest delim (elems @ [item]))"
  by pat_completeness auto
termination
  by (relation "measure (\<lambda>(s, delim, elems). length s)") (auto dest: getline_shorter)

definition split :: "string \<Rightarrow> char \<Rightarrow> string list" where
  "split s delim = split_into s delim []"

declare split_into.simps [simp del]

subsection \<open>The iterator contract\<close>

locale closeable_iterator =
  fixes V :: "('i, 'a) CloseableIterator"
    and inv :: "'i \<Rightarrow> bool"
    and remaining :: "'i \<Rightarrow> 'a list"
  assumes hasNext: "inv it \<Longrightarrow> it_hasNext V it \<longleftrightarrow> remaining it \<noteq> []"
    and deref: "inv it \<Longrightarrow> remaining it = x # xs \<Longrightarrow>
      \<exists>it'. it_deref V it = Inr (x, it') \<and> inv it' \<and> remaining it' = x # xs"
    and inc: "inv it \<Longrightarrow> remaining it = x # xs \<Longrightarrow>
      inv (it_inc V it) \<and> remaining (it_inc V it) = xs"
begin

lemma for_each_remaining: "inv it \<Longrightarrow> for_each V f it s = exec_foldl f s (remaining it)"
proof (induction "remaining it" arbitrary: it s)
  case Nil
  then show ?case by (subst for_each.simps) (simp add: hasNext exec_return_def)
next
  case (Cons x xs)
  then obtain it' where "it_deref V it = Inr (x, it')" "inv it'" "remaining it' = x # xs"
    using deref by metis
  moreover from this have "inv (it_inc V it')" "remaining (it_inc V it') = xs"
    using inc by blast+
  ultimately show ?case
    using Cons.hyps(1) [of "it_inc V it'"] Cons.hyps(2) [symmetric] Cons.prems
    by (subst for_each.simps) (auto simp: hasNext exec_bind_def split: option.splits sum.splits)
qed

lemma for_callback_remaining:
  "inv it \<Longrightarrow> for_callback V cb ok it s =
     exec_return (if ok then callback_foldl cb s (remaining it) else s)"
proof (induction "remaining it" arbitrary: it s ok)
  case Nil
  then show ?case by (subst for_callback.simps) (simp add: hasNext exec_return_def)
next
  case (Cons x xs)
  then obtain it' where "it_deref V it = Inr (x, it')" "inv it'" "remaining it' = x # xs"
    using deref by metis
  moreover from this have "inv (it_inc V it')" "remaining (it_inc V it') = xs"
    using inc by blast+
  ultimately show ?case
    using Cons.hyps(1) [of "it_inc V it'"] Cons.hyps(2) [symmetric] Cons.prems
    by (subst for_callback.simps) (auto simp: hasNext exec_return_def)
qed

end

interpretation empty_iterator: closeable_iterator EmptyIterator "\<lambda>_. True" "\<lambda>_. []"
  by unfold_locales (simp_all add: EmptyIterator_def)

definition singleton_remaining :: "'a singleton_iterator \<Rightarrow> 'a list" where
  "singleton_remaining it = (if incremented it then [] else [singleton_value it])"

interpretation singleton_iterator:
  closeable_iterator SingletonIterator "\<lambda>_. True" singleton_remaining
  by unfold_locales (auto simp: SingletonIterator_def singleton_remaining_def split: if_splits)

lemma exec_foldl_append:
  "exec_foldl f s (xs @ ys) = exec_bind (exec_foldl f s xs) (\<lambda>s'. exec_foldl f s' ys)"
  by (induction xs arbitrary: s) (simp_all add: exec_bind_assoc)

lemma exec_foldl_return:
  "exec_foldl (\<lambda>s x. exec_return (g s x)) s xs = exec_return (foldl g s xs)"
  by (induction xs arbitrary: s) simp_all

lemma callback_foldl_always:
  assumes "\<And>s x. fst (cb s x)"
  shows "callback_foldl cb s xs = foldl (\<lambda>s x. snd (cb s x)) s xs"
  using assms by (induction xs arbitrary: s) simp_all

text \<open>A callback sees a prefix of the elements: up to the first one that it declines.\<close>

abbreviation callback_state :: "('s \<Rightarrow> 'a \<Rightarrow> bool \<times> 's) \<Rightarrow> 's \<Rightarrow> 'a list \<Rightarrow> 's" where
  "callback_state cb \<equiv> foldl (\<lambda>s x. snd (cb s x))"

lemma callback_foldl_prefix:
  "\<exists>k \<le> length xs. callback_foldl cb s xs = callback_state cb s (take k xs) \<and> (xs \<noteq> [] \<longrightarrow> 0 < k) \<and>
     (\<forall>i. i + 1 < k \<longrightarrow> fst (cb (callback_state cb s (take i xs)) (xs ! i))) \<and>
     (k < length xs \<longrightarrow> \<not> fst (cb (callback_state cb s (take (k - 1) xs)) (xs ! (k - 1))))"
proof (induction xs arbitrary: s)
  case (Cons x xs)
  show ?case
  proof (cases "fst (cb s x)")
    case True
    obtain k where k: "k \<le> length xs" "callback_foldl cb (snd (cb s x)) xs = callback_state cb (snd (cb s x)) (take k xs)"
      "xs \<noteq> [] \<longrightarrow> 0 < k"
      "\<forall>i. i + 1 < k \<longrightarrow> fst (cb (callback_state cb (snd (cb s x)) (take i xs)) (xs ! i))"
      "k < length xs \<longrightarrow> \<not> fst (cb (callback_state cb (snd (cb s x)) (take (k - 1) xs)) (xs ! (k - 1)))"
      using Cons [of "snd (cb s x)"] by blast
    have "fst (cb (callback_state cb s (take i (x # xs))) ((x # xs) ! i))" if "i + 1 < Suc k" for i
      using True k(4) that by (cases i) simp_all
    moreover have "\<not> fst (cb (callback_state cb s (take k (x # xs))) ((x # xs) ! k))" if "k < length xs"
      using k(3,5) that by (cases k) auto
    ultimately show ?thesis using True k(1,2) by (intro exI [of _ "Suc k"]) auto
  next
    case False
    then show ?thesis by (intro exI [of _ 1]) simp
  qed
qed simp

subsection \<open>Splitting\<close>

lemma split_into_append: "split_into s d es = es @ split_into s d []"
proof (induction s arbitrary: es rule: measure_induct_rule [of length])
  case (less s)
  show ?case
  proof (cases "getline d s")
    case None
    then show ?thesis by (simp add: split_into.simps)
  next
    case (Some r)
    obtain item rest where r: "r = (item, rest)" by (cases r)
    with Some have shorter: "length rest < length s" by (auto dest: getline_shorter)
    show ?thesis
      using less [OF shorter, of "es @ [item]"] less [OF shorter, of "[item]"] Some r
      by (simp add: split_into.simps [of s])
  qed
qed

lemma split_Nil [simp]: "split [] d = []"
  by (simp add: split_def split_into.simps getline_def)

lemma split_unfold:
  "s \<noteq> [] \<Longrightarrow> split s d =
     takeWhile (\<lambda>c. c \<noteq> d) s # split (drop 1 (dropWhile (\<lambda>c. c \<noteq> d) s)) d"
  using split_into_append [of "drop 1 (dropWhile (\<lambda>c. c \<noteq> d) s)" d "[takeWhile (\<lambda>c. c \<noteq> d) s]"]
  by (simp add: split_def split_into.simps [of s] getline_def)

lemma split_item:
  assumes "d \<notin> set item"
  shows "split (item @ d # rest) d = item # split rest d"
    and "item \<noteq> [] \<Longrightarrow> split item d = [item]"
proof -
  have "takeWhile (\<lambda>c. c \<noteq> d) (item @ d # rest) = item"
    "dropWhile (\<lambda>c. c \<noteq> d) (item @ d # rest) = d # rest"
    "takeWhile (\<lambda>c. c \<noteq> d) item = item" "dropWhile (\<lambda>c. c \<noteq> d) item = []"
    using assms by (induction item) auto
  then show "split (item @ d # rest) d = item # split rest d"
    and "item \<noteq> [] \<Longrightarrow> split item d = [item]"
    by (simp_all add: split_unfold del: dropWhile_eq_Nil_conv takeWhile_eq_all_conv)
qed

fun join :: "char \<Rightarrow> string list \<Rightarrow> string" where
  "join d [] = []"
| "join d [e] = e"
| "join d (e # es) = e @ d # join d es"

text \<open>
  Splitting inverts joining. Items without the delimiter, joined by it, are given back, the
  last item being non-empty (\<open>getline\<close> does not report an empty item at the end).
\<close>

theorem split_join:
  assumes "\<forall>e \<in> set es. d \<notin> set e" and "es = [] \<or> last es \<noteq> []"
  shows "split (join d es) d = es"
  using assms by (induction d es rule: join.induct) (simp_all add: split_item)

theorem split_join_witness:
  "split ''localhost:1,localhost:2,,x'' (CHR '','') = [''localhost:1'', ''localhost:2'', '''', ''x'']"
  using split_join [of "[''localhost:1'', ''localhost:2'', '''', ''x'']" "CHR '',''"] by simp

text \<open>
  Splitting loses nothing. The items, each followed by the delimiter, are the text again (with
  a delimiter added when it does not end with one), and no item holds the delimiter.
\<close>

theorem split_complete:
  "concat (map (\<lambda>e. e @ [d]) (split s d)) = (if s = [] \<or> last s = d then s else s @ [d])
   \<and> (\<forall>e \<in> set (split s d). d \<notin> set e)"
proof (induction s rule: measure_induct_rule [of length])
  case (less s)
  show ?case
  proof (cases "d \<in> set s")
    case True
    then obtain item rest where s: "s = item @ d # rest" and "d \<notin> set item"
      by (auto dest: split_list_first)
    with less [of rest] show ?thesis by (simp add: split_item)
  next
    case False
    then show ?thesis by (cases "s = []") (auto simp: split_item dest: last_in_set)
  qed
qed

theorem split_complete_witness:
  "concat (map (\<lambda>e. e @ '','') (split ''a,,b'' (CHR '',''))) = ''a,,b,'' \<and>
   CHR '','' \<notin> set (split ''a,,b'' (CHR '','') ! 0)"
proof -
  have ne: "split ''a,,b'' (CHR '','') \<noteq> []" by (simp add: split_unfold)
  show ?thesis using split_complete [of "CHR '',''" "''a,,b''"] ne by (simp add: nth_mem)
qed

end
