(* ===== verification/Persistence.thy ===== *)
theory Persistence
  imports Keys Util
begin

text \<open>
  The class \<open>LevelDBPersistence\<close> of \<open>persistence/leveldb_persistence.h\<close> and
  \<open>persistence/leveldb_persistence.cc\<close>: the iterators over LevelDB, and the operations on
  statements and namespaces.

  The state is a record of the seven databases. An operation takes the environment, the state and
  its C++ arguments and returns an \<^typ>\<open>'a exec\<close>: a failed \<open>CHECK_STATUS\<close> is
  \<open>CheckFailed\<close>. The \<open>int64_t\<close> counters are integers: each counts messages that were read one
  by one. The writer threads of an operation are a list of pairs of a database and a batch; the
  operations run them in the order in which the threads are started, and \<open>writers_step\<close> is the
  concurrent execution, any thread next.
\<close>

subsection \<open>State\<close>

record 'db LevelDBPersistence =
  db_spoc :: 'db
  db_cspo :: 'db
  db_opsc :: 'db
  db_pcos :: 'db
  db_ns_prefix :: 'db
  db_ns_url :: 'db
  db_meta :: 'db

datatype db_name = DB_SPOC | DB_CSPO | DB_OPSC | DB_PCOS | DB_NS_PREFIX | DB_NS_URL | DB_META

fun get_db :: "db_name \<Rightarrow> 'db LevelDBPersistence \<Rightarrow> 'db" where
  "get_db DB_SPOC p = db_spoc p"
| "get_db DB_CSPO p = db_cspo p"
| "get_db DB_OPSC p = db_opsc p"
| "get_db DB_PCOS p = db_pcos p"
| "get_db DB_NS_PREFIX p = db_ns_prefix p"
| "get_db DB_NS_URL p = db_ns_url p"
| "get_db DB_META p = db_meta p"

fun set_db :: "db_name \<Rightarrow> 'db \<Rightarrow> 'db LevelDBPersistence \<Rightarrow> 'db LevelDBPersistence" where
  "set_db DB_SPOC d p = p\<lparr>db_spoc := d\<rparr>"
| "set_db DB_CSPO d p = p\<lparr>db_cspo := d\<rparr>"
| "set_db DB_OPSC d p = p\<lparr>db_opsc := d\<rparr>"
| "set_db DB_PCOS d p = p\<lparr>db_pcos := d\<rparr>"
| "set_db DB_NS_PREFIX d p = p\<lparr>db_ns_prefix := d\<rparr>"
| "set_db DB_NS_URL d p = p\<lparr>db_ns_url := d\<rparr>"
| "set_db DB_META d p = p\<lparr>db_meta := d\<rparr>"

record UpdateStatistics =
  added_stmts :: int
  removed_stmts :: int
  added_ns :: int
  removed_ns :: int

definition UpdateStatistics_new :: UpdateStatistics where
  "UpdateStatistics_new = \<lparr>added_stmts = 0, removed_stmts = 0, added_ns = 0, removed_ns = 0\<rparr>"

text \<open>
  The assertion on the status is compiled out of the release build, and then a failed \<open>Open\<close>
  leaves the pointer uninitialised.
\<close>

definition buildDB ::
  "('db, 'it) environment \<Rightarrow> string \<Rightarrow> string \<Rightarrow> comparator option \<Rightarrow> 'db exec" where
  "buildDB E path suffix options =
     (case db_Open E options (path @ ''/'' @ suffix @ ''.db'') of
        None \<Rightarrow> exec_throw Undefined
      | Some db \<Rightarrow> exec_return db)"

text \<open>Of the options only the comparator changes what the databases contain.\<close>

definition buildOptions :: "comparator option" where
  "buildOptions = Some KeyComparator_Compare"

definition buildNsOptions :: "comparator option" where
  "buildNsOptions = None"

definition LevelDBPersistence_new ::
  "('db, 'it) environment \<Rightarrow> string \<Rightarrow> 'db LevelDBPersistence exec" where
  "LevelDBPersistence_new E path =
     exec_bind (buildDB E path ''spoc'' buildOptions) (\<lambda>spoc.
     exec_bind (buildDB E path ''cspo'' buildOptions) (\<lambda>cspo.
     exec_bind (buildDB E path ''opsc'' buildOptions) (\<lambda>opsc.
     exec_bind (buildDB E path ''pcos'' buildOptions) (\<lambda>pcos.
     exec_bind (buildDB E path ''ns_prefix'' buildNsOptions) (\<lambda>ns_prefix.
     exec_bind (buildDB E path ''ns_url'' buildNsOptions) (\<lambda>ns_url.
     exec_bind (buildDB E path ''metadata'' buildNsOptions) (\<lambda>meta.
     exec_return \<lparr>db_spoc = spoc, db_cspo = cspo, db_opsc = opsc, db_pcos = pcos,
       db_ns_prefix = ns_prefix, db_ns_url = ns_url, db_meta = meta\<rparr>)))))))"

subsection \<open>Iterators\<close>

record ('it, 'm) LevelDBIterator =
  ldb_it :: 'it
  ldb_proto :: 'm
  ldb_parsed :: bool

definition LevelDBIterator_new ::
  "('db, 'it) environment \<Rightarrow> 'm \<Rightarrow> 'it \<Rightarrow> ('it, 'm) LevelDBIterator" where
  "LevelDBIterator_new E default_proto it =
     \<lparr>ldb_it = it_SeekToFirst E it, ldb_proto = default_proto, ldb_parsed = False\<rparr>"

definition LevelDBIterator_inc ::
  "('db, 'it) environment \<Rightarrow> ('it, 'm, 'z) LevelDBIterator_scheme \<Rightarrow> ('it, 'm, 'z) LevelDBIterator_scheme" where
  "LevelDBIterator_inc E i = i\<lparr>ldb_it := it_Next E (ldb_it i), ldb_parsed := False\<rparr>"

text \<open>Reading the value of an iterator that is not valid is undefined.\<close>

definition LevelDBIterator_deref ::
  "('db, 'it) environment \<Rightarrow> (bytes \<Rightarrow> bool \<times> 'm) \<Rightarrow> ('it, 'm, 'z) LevelDBIterator_scheme \<Rightarrow>
   error + 'm \<times> ('it, 'm, 'z) LevelDBIterator_scheme" where
  "LevelDBIterator_deref E ParseFromString i =
     (if \<not> ldb_parsed i then
        (if it_Valid E (ldb_it i) then
           (let proto = snd (ParseFromString (it_value E (ldb_it i)))
            in Inr (proto, i\<lparr>ldb_proto := proto\<rparr>))
         else Inl Undefined)
      else Inr (ldb_proto i, i))"

definition LevelDBIterator_hasNext ::
  "('db, 'it) environment \<Rightarrow> ('it, 'm, 'z) LevelDBIterator_scheme \<Rightarrow> bool" where
  "LevelDBIterator_hasNext E i = it_Valid E (ldb_it i)"

definition LevelDBIterator_class ::
  "('db, 'it) environment \<Rightarrow> (bytes \<Rightarrow> bool \<times> 'm) \<Rightarrow> (('it, 'm) LevelDBIterator, 'm) CloseableIterator" where
  "LevelDBIterator_class E ParseFromString =
     \<lparr>it_inc = LevelDBIterator_inc E,
      it_deref = LevelDBIterator_deref E ParseFromString,
      it_hasNext = LevelDBIterator_hasNext E\<rparr>"

record 'it StatementRangeIterator = "('it, proto_Statement) LevelDBIterator" +
  lo_key :: bytes
  hi_key :: bytes

definition StatementRangeIterator_new ::
  "('db, 'it) environment \<Rightarrow> 'it \<Rightarrow> bytes \<Rightarrow> bytes \<Rightarrow> 'it StatementRangeIterator" where
  "StatementRangeIterator_new E it loKey hiKey =
     (let base = LevelDBIterator_new E Statement_default it
      in \<lparr>ldb_it = it_Seek E (ldb_it base) loKey, ldb_proto = ldb_proto base,
          ldb_parsed = ldb_parsed base, lo_key = loKey, hi_key = hiKey\<rparr>)"

definition StatementRangeIterator_hasNext ::
  "('db, 'it) environment \<Rightarrow> 'it StatementRangeIterator \<Rightarrow> bool" where
  "StatementRangeIterator_hasNext E i \<longleftrightarrow>
     it_Valid E (ldb_it i) \<and> slice_compare E (it_key E (ldb_it i)) (hi_key i) \<le> 0"

definition StatementRangeIterator_class ::
  "('db, 'it) environment \<Rightarrow> ('it StatementRangeIterator, proto_Statement) CloseableIterator" where
  "StatementRangeIterator_class E =
     \<lparr>it_inc = LevelDBIterator_inc E,
      it_deref = LevelDBIterator_deref E (parse_Statement E),
      it_hasNext = StatementRangeIterator_hasNext E\<rparr>"

text \<open>The iterator \<open>GetNamespaces\<close> returns has one of three classes.\<close>

datatype 'it NamespaceIterator =
    NS_Singleton "proto_Namespace singleton_iterator"
  | NS_Empty
  | NS_LevelDB "('it, proto_Namespace) LevelDBIterator"

fun NamespaceIterator_inc :: "('db, 'it) environment \<Rightarrow> 'it NamespaceIterator \<Rightarrow> 'it NamespaceIterator" where
  "NamespaceIterator_inc E (NS_Singleton i) = NS_Singleton (it_inc SingletonIterator i)"
| "NamespaceIterator_inc E NS_Empty = NS_Empty"
| "NamespaceIterator_inc E (NS_LevelDB i) = NS_LevelDB (it_inc (LevelDBIterator_class E (parse_Namespace E)) i)"

fun NamespaceIterator_deref ::
  "('db, 'it) environment \<Rightarrow> 'it NamespaceIterator \<Rightarrow> error + proto_Namespace \<times> 'it NamespaceIterator" where
  "NamespaceIterator_deref E (NS_Singleton i) =
     map_sum id (map_prod id NS_Singleton) (it_deref SingletonIterator i)"
| "NamespaceIterator_deref E NS_Empty =
     map_sum id (map_prod id (\<lambda>_. NS_Empty)) (it_deref EmptyIterator ())"
| "NamespaceIterator_deref E (NS_LevelDB i) =
     map_sum id (map_prod id NS_LevelDB) (it_deref (LevelDBIterator_class E (parse_Namespace E)) i)"

fun NamespaceIterator_hasNext :: "('db, 'it) environment \<Rightarrow> 'it NamespaceIterator \<Rightarrow> bool" where
  "NamespaceIterator_hasNext E (NS_Singleton i) = it_hasNext SingletonIterator i"
| "NamespaceIterator_hasNext E NS_Empty =
     it_hasNext (EmptyIterator :: (unit, proto_Namespace) CloseableIterator) ()"
| "NamespaceIterator_hasNext E (NS_LevelDB i) =
     it_hasNext (LevelDBIterator_class E (parse_Namespace E)) i"

definition NamespaceIterator_class ::
  "('db, 'it) environment \<Rightarrow> ('it NamespaceIterator, proto_Namespace) CloseableIterator" where
  "NamespaceIterator_class E =
     \<lparr>it_inc = NamespaceIterator_inc E, it_deref = NamespaceIterator_deref E,
      it_hasNext = NamespaceIterator_hasNext E\<rparr>"

subsection \<open>Writer threads\<close>

type_synonym writer = "db_name \<times> WriteBatch"

fun run_writers ::
  "('db, 'it) environment \<Rightarrow> writer list \<Rightarrow> 'db LevelDBPersistence \<Rightarrow> 'db LevelDBPersistence exec" where
  "run_writers E [] p = exec_return p"
| "run_writers E ((n, b) # ws) p =
     (case db_Write E (get_db n p) b of
        None \<Rightarrow> exec_throw CheckFailed
      | Some d \<Rightarrow> run_writers E ws (set_db n d p))"

subsection \<open>Statements\<close>

record statement_batches =
  batch_spoc :: WriteBatch
  batch_cspo :: WriteBatch
  batch_opsc :: WriteBatch
  batch_pcos :: WriteBatch

definition statement_batches_new :: statement_batches where
  "statement_batches_new = \<lparr>batch_spoc = [], batch_cspo = [], batch_opsc = [], batch_pcos = []\<rparr>"

definition AddStatement ::
  "('db, 'it) environment \<Rightarrow> proto_Statement \<Rightarrow> statement_batches \<Rightarrow> statement_batches" where
  "AddStatement E stmt b =
     (let buffer = ser_Statement E stmt;
          bufs = ser_Resource E (subject_of stmt);
          bufp = ser_URI E (predicate_of stmt);
          bufo = ser_Value E (object_of stmt);
          bufc = ser_Resource E (context_of stmt);
          k_spoc = computeKey (is_x86_64 E) (Some bufs) (Some bufp) (Some bufo) (Some bufc) calloc_key;
          b = b\<lparr>batch_spoc := batch_spoc b @ [Put k_spoc buffer]\<rparr>;
          k_cspo = orderKey calloc_key k_spoc Pos_C Pos_S Pos_P Pos_O;
          b = b\<lparr>batch_cspo := batch_cspo b @ [Put k_cspo buffer]\<rparr>;
          k_opsc = orderKey calloc_key k_spoc Pos_O Pos_P Pos_S Pos_C;
          b = b\<lparr>batch_opsc := batch_opsc b @ [Put k_opsc buffer]\<rparr>;
          k_pcos = orderKey calloc_key k_spoc Pos_P Pos_C Pos_O Pos_S
      in b\<lparr>batch_pcos := batch_pcos b @ [Put k_pcos buffer]\<rparr>)"

definition statement_writers :: "statement_batches \<Rightarrow> writer list" where
  "statement_writers b =
     [(DB_PCOS, batch_pcos b), (DB_OPSC, batch_opsc b), (DB_CSPO, batch_cspo b), (DB_SPOC, batch_spoc b)]"

definition AddStatements ::
  "('db, 'it) environment \<Rightarrow> ('i, proto_Statement) CloseableIterator \<Rightarrow> 'i \<Rightarrow>
   'db LevelDBPersistence \<Rightarrow> (int \<times> 'db LevelDBPersistence) exec" where
  "AddStatements E V it p =
     exec_bind
       (for_each V (\<lambda>(b, count) stmt. exec_return (AddStatement E stmt b, count + 1))
          it (statement_batches_new, 0))
       (\<lambda>(b, count). exec_bind (run_writers E (statement_writers b) p) (\<lambda>p. exec_return (count, p)))"

definition GetStatements_it ::
  "('db, 'it) environment \<Rightarrow> 'db LevelDBPersistence \<Rightarrow> proto_Statement \<Rightarrow> 'it StatementRangeIterator" where
  "GetStatements_it E p pattern =
     (let query = PatternQuery_new E pattern;
          db = (case pq_type query of
                  SPOC \<Rightarrow> db_spoc p | CSPO \<Rightarrow> db_cspo p | OPSC \<Rightarrow> db_opsc p | PCOS \<Rightarrow> db_pcos p)
      in StatementRangeIterator_new E (db_NewIterator E db)
           (MinKey (is_x86_64 E) query) (MaxKey (is_x86_64 E) query))"

definition GetStatements ::
  "('db, 'it) environment \<Rightarrow> 'db LevelDBPersistence \<Rightarrow> proto_Statement \<Rightarrow>
   ('s \<Rightarrow> proto_Statement \<Rightarrow> bool \<times> 's) \<Rightarrow> 's \<Rightarrow> 's exec" where
  "GetStatements E p pattern callback s =
     for_callback (StatementRangeIterator_class E) callback True (GetStatements_it E p pattern) s"

definition RemoveStatement_callback ::
  "('db, 'it) environment \<Rightarrow> statement_batches \<times> int \<Rightarrow> proto_Statement \<Rightarrow>
   bool \<times> (statement_batches \<times> int)" where
  "RemoveStatement_callback E s stmt =
     (let (b, count) = s;
          bufs = ser_Resource E (subject_of stmt);
          bufp = ser_URI E (predicate_of stmt);
          bufo = ser_Value E (object_of stmt);
          bufc = ser_Resource E (context_of stmt);
          k_spoc = computeKey (is_x86_64 E) (Some bufs) (Some bufp) (Some bufo) (Some bufc) calloc_key;
          b = b\<lparr>batch_spoc := batch_spoc b @ [Delete k_spoc]\<rparr>;
          k_cspo = orderKey calloc_key k_spoc Pos_C Pos_S Pos_P Pos_O;
          b = b\<lparr>batch_cspo := batch_cspo b @ [Delete k_cspo]\<rparr>;
          k_opsc = orderKey calloc_key k_spoc Pos_O Pos_P Pos_S Pos_C;
          b = b\<lparr>batch_opsc := batch_opsc b @ [Delete k_opsc]\<rparr>;
          k_pcos = orderKey calloc_key k_spoc Pos_P Pos_C Pos_O Pos_S;
          b = b\<lparr>batch_pcos := batch_pcos b @ [Delete k_pcos]\<rparr>
      in (True, (b, count + 1)))"

definition RemoveStatements_batch ::
  "('db, 'it) environment \<Rightarrow> 'db LevelDBPersistence \<Rightarrow> proto_Statement \<Rightarrow> statement_batches \<Rightarrow>
   (statement_batches \<times> int) exec" where
  "RemoveStatements_batch E p pattern b =
     GetStatements E p pattern (RemoveStatement_callback E) (b, 0)"

definition RemoveStatements ::
  "('db, 'it) environment \<Rightarrow> proto_Statement \<Rightarrow> 'db LevelDBPersistence \<Rightarrow>
   (int \<times> 'db LevelDBPersistence) exec" where
  "RemoveStatements E pattern p =
     exec_bind (RemoveStatements_batch E p pattern statement_batches_new)
       (\<lambda>(b, count). exec_bind (run_writers E (statement_writers b) p) (\<lambda>p. exec_return (count, p)))"

partial_function (option) Size_loop :: "('db, 'it) environment \<Rightarrow> 'it \<Rightarrow> int \<Rightarrow> int option" where
  "Size_loop E it count =
     (if it_Valid E it then Size_loop E (it_Next E it) (count + 1) else Some count)"

definition Size :: "('db, 'it) environment \<Rightarrow> 'db LevelDBPersistence \<Rightarrow> int option" where
  "Size E p = Size_loop E (it_SeekToFirst E (db_NewIterator E (db_cspo p))) 0"

subsection \<open>Namespaces\<close>

record namespace_batches =
  batch_prefix :: WriteBatch
  batch_url :: WriteBatch

definition namespace_batches_new :: namespace_batches where
  "namespace_batches_new = \<lparr>batch_prefix = [], batch_url = []\<rparr>"

definition AddNamespace ::
  "('db, 'it) environment \<Rightarrow> proto_Namespace \<Rightarrow> namespace_batches \<Rightarrow> namespace_batches" where
  "AddNamespace E ns b =
     (let buffer = ser_Namespace E ns;
          b = b\<lparr>batch_prefix := batch_prefix b @ [Put (bytes_of (ns_prefix ns)) buffer]\<rparr>
      in b\<lparr>batch_url := batch_url b @ [Put (bytes_of (ns_uri ns)) buffer]\<rparr>)"

definition AddNamespaces ::
  "('db, 'it) environment \<Rightarrow> ('i, proto_Namespace) CloseableIterator \<Rightarrow> 'i \<Rightarrow>
   'db LevelDBPersistence \<Rightarrow> (int \<times> 'db LevelDBPersistence) exec" where
  "AddNamespaces E V it p =
     exec_bind
       (for_each V (\<lambda>(b, count) ns. exec_return (AddNamespace E ns b, count + 1))
          it (namespace_batches_new, 0))
       (\<lambda>(b, count).
          exec_bind (run_writers E [(DB_NS_PREFIX, batch_prefix b), (DB_NS_URL, batch_url b)] p)
            (\<lambda>p. exec_return (count, p)))"

definition GetNamespaces_it ::
  "('db, 'it) environment \<Rightarrow> 'db LevelDBPersistence \<Rightarrow> proto_Namespace \<Rightarrow> 'it NamespaceIterator" where
  "GetNamespaces_it E p pattern =
     (let lookup =
            (if ns_prefix pattern \<noteq> '''' then Some (ns_prefix pattern, db_ns_prefix p)
             else if ns_uri pattern \<noteq> '''' then Some (ns_uri pattern, db_ns_url p)
             else None)
      in case lookup of
           Some (key, db) \<Rightarrow>
             (case db_Get E db (bytes_of key) of
                Some v \<Rightarrow> NS_Singleton (SingletonIterator_new (snd (parse_Namespace E v)))
              | None \<Rightarrow> NS_Empty)
         | None \<Rightarrow>
             NS_LevelDB (LevelDBIterator_new E Namespace_default (db_NewIterator E (db_ns_prefix p))))"

definition GetNamespaces ::
  "('db, 'it) environment \<Rightarrow> 'db LevelDBPersistence \<Rightarrow> proto_Namespace \<Rightarrow>
   ('s \<Rightarrow> proto_Namespace \<Rightarrow> bool \<times> 's) \<Rightarrow> 's \<Rightarrow> 's exec" where
  "GetNamespaces E p pattern callback s =
     for_callback (NamespaceIterator_class E) callback True (GetNamespaces_it E p pattern) s"

definition RemoveNamespace ::
  "('db, 'it) environment \<Rightarrow> 'db LevelDBPersistence \<Rightarrow> proto_Namespace \<Rightarrow> namespace_batches \<Rightarrow>
   namespace_batches exec" where
  "RemoveNamespace E p pattern b =
     GetNamespaces E p pattern
       (\<lambda>b ns. (True, b\<lparr>batch_prefix := batch_prefix b @ [Delete (bytes_of (ns_prefix ns))],
                       batch_url := batch_url b @ [Delete (bytes_of (ns_uri ns))]\<rparr>)) b"

subsection \<open>Batch updates\<close>

datatype UpdateRequest =
    Update_none
  | stmt_added proto_Statement
  | stmt_removed proto_Statement
  | ns_added proto_Namespace
  | ns_removed proto_Namespace

record update_state =
  us_stmts :: statement_batches
  us_ns :: namespace_batches
  us_stats :: UpdateStatistics

definition update_state_new :: update_state where
  "update_state_new =
     \<lparr>us_stmts = statement_batches_new, us_ns = namespace_batches_new, us_stats = UpdateStatistics_new\<rparr>"

fun Update_request ::
  "('db, 'it) environment \<Rightarrow> 'db LevelDBPersistence \<Rightarrow> update_state \<Rightarrow> UpdateRequest \<Rightarrow> update_state exec" where
  "Update_request E p u (stmt_added s) =
     exec_return (u\<lparr>us_stmts := AddStatement E s (us_stmts u),
       us_stats := (us_stats u)\<lparr>added_stmts := added_stmts (us_stats u) + 1\<rparr>\<rparr>)"
| "Update_request E p u (stmt_removed s) =
     exec_bind (RemoveStatements_batch E p s (us_stmts u)) (\<lambda>(b, n).
       exec_return (u\<lparr>us_stmts := b,
         us_stats := (us_stats u)\<lparr>removed_stmts := removed_stmts (us_stats u) + n\<rparr>\<rparr>))"
| "Update_request E p u (ns_added ns) =
     exec_return (u\<lparr>us_ns := AddNamespace E ns (us_ns u),
       us_stats := (us_stats u)\<lparr>added_ns := added_ns (us_stats u) + 1\<rparr>\<rparr>)"
| "Update_request E p u (ns_removed ns) =
     exec_bind (RemoveNamespace E p ns (us_ns u)) (\<lambda>b. exec_return (u\<lparr>us_ns := b\<rparr>))"
| "Update_request E p u Update_none = exec_return u"

definition Update ::
  "('db, 'it) environment \<Rightarrow> ('i, UpdateRequest) CloseableIterator \<Rightarrow> 'i \<Rightarrow>
   'db LevelDBPersistence \<Rightarrow> (UpdateStatistics \<times> 'db LevelDBPersistence) exec" where
  "Update E V it p =
     exec_bind (for_each V (Update_request E p) it update_state_new) (\<lambda>u.
     exec_bind (run_writers E
         (statement_writers (us_stmts u) @
          [(DB_NS_PREFIX, batch_prefix (us_ns u)), (DB_NS_URL, batch_url (us_ns u))]) p) (\<lambda>p.
     exec_return (us_stats u, p)))"

end
