(* ===== verification/Statement_Store.thy ===== *)
theory Statement_Store
  imports Persistence
begin

text \<open>
  The statements of \<open>LevelDBPersistence\<close> as a set: what the four index databases hold
  (\<open>wf_statements\<close>, \<open>stored\<close>), and what the operations on statements do to that set.

  Everything is proved from the contracts of the databases and of the serialiser, and without any
  assumption on the hash: two statements whose four components have the same hashes share their
  keys, and then the later one replaces the earlier one. The section on collisions adds what holds
  when the hash keeps the components apart.
\<close>

subsection \<open>Iterators over LevelDB keep the iterator contract\<close>

definition ldb_remaining ::
  "('db, 'it) view \<Rightarrow> (bytes \<Rightarrow> bool \<times> 'm) \<Rightarrow> ('it, 'm) LevelDBIterator \<Rightarrow> 'm list" where
  "ldb_remaining A parse i = map (\<lambda>e. snd (parse (snd e))) (rest_of A (ldb_it i))"

definition range_remaining ::
  "('db, 'it) environment \<Rightarrow> ('db, 'it) view \<Rightarrow> 'it StatementRangeIterator \<Rightarrow> proto_Statement list" where
  "range_remaining E A i =
     map (\<lambda>e. snd (parse_Statement E (snd e)))
       (takeWhile (\<lambda>e. slice_compare E (fst e) (hi_key i) \<le> 0) (rest_of A (ldb_it i)))"

lemma takeWhile_eq_Cons: "takeWhile P xs = y # ys \<Longrightarrow> \<exists>zs. xs = y # zs \<and> P y \<and> ys = takeWhile P zs"
  by (cases xs) (auto split: if_splits)

sublocale leveldb_contract \<subseteq> db_iterator:
  closeable_iterator "LevelDBIterator_class E parse" "\<lambda>i. \<not> ldb_parsed i" "ldb_remaining A parse"
  for parse
proof unfold_locales
  fix it :: "('it, 'a) LevelDBIterator" and x xs
  assume "\<not> ldb_parsed it" and "ldb_remaining A parse it = x # xs"
  then obtain e es where rest: "rest_of A (ldb_it it) = e # es" "x = snd (parse (snd e))"
    "xs = map (\<lambda>e. snd (parse (snd e))) es" by (auto simp: ldb_remaining_def)
  show "\<exists>it'. it_deref (LevelDBIterator_class E parse) it = Inr (x, it') \<and> \<not> ldb_parsed it' \<and>
      ldb_remaining A parse it' = x # xs"
    using \<open>\<not> ldb_parsed it\<close> rest Valid [of "ldb_it it"] key_value [OF rest(1)]
    by (simp add: LevelDBIterator_class_def LevelDBIterator_deref_def Let_def ldb_remaining_def)
  show "\<not> ldb_parsed (it_inc (LevelDBIterator_class E parse) it) \<and>
      ldb_remaining A parse (it_inc (LevelDBIterator_class E parse) it) = xs"
    using rest Next [OF rest(1)]
    by (simp add: LevelDBIterator_class_def LevelDBIterator_inc_def ldb_remaining_def)
qed (simp add: LevelDBIterator_class_def LevelDBIterator_hasNext_def Valid ldb_remaining_def)

sublocale leveldb_contract \<subseteq> range_iterator:
  closeable_iterator "StatementRangeIterator_class E" "\<lambda>i. \<not> ldb_parsed i" "range_remaining E A"
proof unfold_locales
  fix it :: "'it StatementRangeIterator" and x xs
  show "it_hasNext (StatementRangeIterator_class E) it \<longleftrightarrow> range_remaining E A it \<noteq> []"
    using Valid [of "ldb_it it"] key_value [of "ldb_it it"]
    by (cases "rest_of A (ldb_it it)")
      (auto simp: StatementRangeIterator_class_def StatementRangeIterator_hasNext_def range_remaining_def)
  assume "\<not> ldb_parsed it" and "range_remaining E A it = x # xs"
  then obtain e es where rest: "rest_of A (ldb_it it) = e # es" "x = snd (parse_Statement E (snd e))"
    "slice_compare E (fst e) (hi_key it) \<le> 0"
    "xs = map (\<lambda>e. snd (parse_Statement E (snd e))) (takeWhile (\<lambda>e. slice_compare E (fst e) (hi_key it) \<le> 0) es)"
    by (auto simp: range_remaining_def dest!: takeWhile_eq_Cons)
  show "\<exists>it'. it_deref (StatementRangeIterator_class E) it = Inr (x, it') \<and> \<not> ldb_parsed it' \<and>
      range_remaining E A it' = x # xs"
    using \<open>\<not> ldb_parsed it\<close> rest Valid [of "ldb_it it"] key_value [OF rest(1)]
    by (simp add: StatementRangeIterator_class_def LevelDBIterator_deref_def Let_def range_remaining_def)
  show "\<not> ldb_parsed (it_inc (StatementRangeIterator_class E) it) \<and>
      range_remaining E A (it_inc (StatementRangeIterator_class E) it) = xs"
    using rest Next [OF rest(1)]
    by (simp add: StatementRangeIterator_class_def LevelDBIterator_inc_def range_remaining_def)
qed

subsection \<open>Writers\<close>

definition writes_ok :: "('db, 'it) environment \<Rightarrow> writer list \<Rightarrow> 'db LevelDBPersistence \<Rightarrow> bool" where
  "writes_ok E ws p \<longleftrightarrow> (\<forall>(n, b) \<in> set ws. db_Write E (get_db n p) b \<noteq> None)"

lemma get_set_db: "get_db m (set_db n d p) = (if m = n then d else get_db m p)"
  by (cases n; cases m) simp_all

lemma set_db_commute: "m \<noteq> n \<Longrightarrow> set_db m d (set_db n e p) = set_db n e (set_db m d p)"
  by (cases n; cases m) simp_all

lemma writes_ok_set_db:
  "n \<notin> fst ` set ws \<Longrightarrow> writes_ok E ws (set_db n d p) \<longleftrightarrow> writes_ok E ws p"
  unfolding writes_ok_def by (rule ball_cong [OF refl]) (force simp: get_set_db)

text \<open>Every database with a batch has its batch applied, the others are as before.\<close>

definition written ::
  "('db, 'it) environment \<Rightarrow> writer list \<Rightarrow> 'db LevelDBPersistence \<Rightarrow> 'db LevelDBPersistence \<Rightarrow> bool" where
  "written E ws p p' \<longleftrightarrow>
     (\<forall>n. case map_of ws n of
        None \<Rightarrow> get_db n p' = get_db n p
      | Some b \<Rightarrow> db_Write E (get_db n p) b = Some (get_db n p'))"

lemma written_Cons:
  assumes "db_Write E (get_db n p) b = Some d" and "map_of ws n = None"
    and "written E ws (set_db n d p) p'"
  shows "written E ((n, b) # ws) p p'"
  unfolding written_def
proof
  fix m
  show "case map_of ((n, b) # ws) m of
        None \<Rightarrow> get_db m p' = get_db m p
      | Some b \<Rightarrow> db_Write E (get_db m p) b = Some (get_db m p')"
    using assms(3) [unfolded written_def, rule_format, of m] assms(1,2)
    by (cases "m = n"; cases "map_of ws m") (simp_all add: get_set_db)
qed

lemma run_writers_result:
  assumes "distinct (map fst ws)"
  shows "if writes_ok E ws p
    then \<exists>p'. run_writers E ws p = exec_return p' \<and> written E ws p p'
    else run_writers E ws p = exec_throw CheckFailed"
  using assms
proof (induction ws arbitrary: p)
  case (Cons w ws)
  obtain n b where w: "w = (n, b)" by (cases w)
  show ?case
  proof (cases "db_Write E (get_db n p) b")
    case None
    then show ?thesis by (simp add: w writes_ok_def)
  next
    case (Some d)
    have n: "n \<notin> fst ` set ws" using Cons.prems by (simp add: w)
    then have none: "map_of ws n = None" by (simp add: map_of_eq_None_iff)
    have "writes_ok E (w # ws) p \<longleftrightarrow> writes_ok E ws (set_db n d p)"
      unfolding writes_ok_set_db [OF n] using Some by (simp add: w writes_ok_def)
    then show ?thesis
      using Cons.IH [of "set_db n d p"] Cons.prems written_Cons [OF Some none] Some
      by (auto simp: w split: if_splits)
  qed
qed (simp add: writes_ok_def written_def)

subsection \<open>The set of stored statements\<close>

fun index_name :: "IndexType \<Rightarrow> db_name" where
  "index_name SPOC = DB_SPOC"
| "index_name CSPO = DB_CSPO"
| "index_name OPSC = DB_OPSC"
| "index_name PCOS = DB_PCOS"

abbreviation index_db :: "IndexType \<Rightarrow> 'db LevelDBPersistence \<Rightarrow> 'db" where
  "index_db t \<equiv> get_db (index_name t)"

definition stored :: "('db, 'it) environment \<Rightarrow> ('db, 'it) view \<Rightarrow> 'db LevelDBPersistence \<Rightarrow> proto_Statement set" where
  "stored E A p = (\<lambda>e. snd (parse_Statement E (snd e))) ` set (entries_of A (db_spoc p))"

lemma finite_stored [simp]: "finite (stored E A p)"
  by (simp add: stored_def)

text \<open>The entry of a statement in an index, and the index that holds a set of statements.\<close>

definition index_entry :: "('db, 'it) environment \<Rightarrow> IndexType \<Rightarrow> proto_Statement \<Rightarrow> entry" where
  "index_entry E t s = (statement_key E t s, ser_Statement E s)"

definition index_holds ::
  "('db, 'it) environment \<Rightarrow> ('db, 'it) view \<Rightarrow> IndexType \<Rightarrow> 'db \<Rightarrow> proto_Statement set \<Rightarrow> bool" where
  "index_holds E A t db S \<longleftrightarrow>
     cmp_of A db = KeyComparator_Compare \<and> sorted_entries KeyComparator_Compare (entries_of A db) \<and>
     set (entries_of A db) = index_entry E t ` S"

text \<open>
  The invariant of the index databases: all four hold the same set of statements, each in the
  order of its keys, and every stored statement is one the serialiser accepts.
\<close>

definition wf_statements ::
  "('db, 'it) environment \<Rightarrow> ('db, 'it) view \<Rightarrow> 'db LevelDBPersistence \<Rightarrow> bool" where
  "wf_statements E A p \<longleftrightarrow>
     (\<forall>t. index_holds E A t (index_db t p) (stored E A p)) \<and> (\<forall>s \<in> stored E A p. stmt_ok A s)"

subsection \<open>Batches of statement operations\<close>

datatype stmt_op = Op_Add proto_Statement | Op_Remove proto_Statement

fun index_op :: "('db, 'it) environment \<Rightarrow> IndexType \<Rightarrow> stmt_op \<Rightarrow> batch_op" where
  "index_op E t (Op_Add s) = Put (statement_key E t s) (ser_Statement E s)"
| "index_op E t (Op_Remove s) = Delete (statement_key E t s)"

definition batches_of :: "('db, 'it) environment \<Rightarrow> stmt_op list \<Rightarrow> statement_batches" where
  "batches_of E ops =
     \<lparr>batch_spoc = map (index_op E SPOC) ops, batch_cspo = map (index_op E CSPO) ops,
      batch_opsc = map (index_op E OPSC) ops, batch_pcos = map (index_op E PCOS) ops\<rparr>"

text \<open>What an operation does to a set of statements.\<close>

fun apply_stmt_op :: "('db, 'it) environment \<Rightarrow> proto_Statement set \<Rightarrow> stmt_op \<Rightarrow> proto_Statement set" where
  "apply_stmt_op E S (Op_Add s) = insert s {u \<in> S. \<not> same_hashes E u s}"
| "apply_stmt_op E S (Op_Remove s) = {u \<in> S. \<not> same_hashes E u s}"

lemma statement_key_orderKey:
  "computeKey (is_x86_64 E) (Some (ser_Resource E (subject_of s))) (Some (ser_URI E (predicate_of s)))
     (Some (ser_Value E (object_of s))) (Some (ser_Resource E (context_of s))) calloc_key = statement_key E SPOC s"
  "orderKey calloc_key (statement_key E SPOC s) Pos_C Pos_S Pos_P Pos_O = statement_key E CSPO s"
  "orderKey calloc_key (statement_key E SPOC s) Pos_O Pos_P Pos_S Pos_C = statement_key E OPSC s"
  "orderKey calloc_key (statement_key E SPOC s) Pos_P Pos_C Pos_O Pos_S = statement_key E PCOS s"
  by (simp_all add: statement_key_def computeKey_full orderKey_hashes calloc_key_def numeral_2_eq_2
      numeral_3_eq_3)

lemma batches_new: "statement_batches_new = batches_of E []"
  by (simp add: statement_batches_new_def batches_of_def)

lemma AddStatement_batches: "AddStatement E s (batches_of E ops) = batches_of E (ops @ [Op_Add s])"
  by (simp add: AddStatement_def Let_def statement_key_orderKey batches_of_def)

lemma RemoveStatement_batches:
  "RemoveStatement_callback E (batches_of E ops, n) s = (True, batches_of E (ops @ [Op_Remove s]), n + 1)"
  by (simp add: RemoveStatement_callback_def Let_def statement_key_orderKey batches_of_def)

lemma AddStatement_foldl:
  "foldl (\<lambda>(b, n) s. (AddStatement E s b, n + 1)) (batches_of E ops, n :: int) ss =
     (batches_of E (ops @ map Op_Add ss), n + int (length ss))"
  by (induction ss arbitrary: ops n) (simp_all add: AddStatement_batches)

lemma RemoveStatement_foldl:
  "foldl (\<lambda>b s. snd (RemoveStatement_callback E b s)) (batches_of E ops, n) ss =
     (batches_of E (ops @ map Op_Remove ss), n + int (length ss))"
  by (induction ss arbitrary: ops n) (simp_all add: RemoveStatement_batches)

lemma statement_writers_batch:
  "map_of (statement_writers (batches_of E ops)) (index_name t) = Some (map (index_op E t) ops)"
  "map_of (statement_writers b) DB_NS_PREFIX = None" "map_of (statement_writers b) DB_NS_URL = None"
  "map_of (statement_writers b) DB_META = None"
  by (cases t) (simp_all add: statement_writers_def batches_of_def)

lemma distinct_statement_writers: "distinct (map fst (statement_writers b))"
  by (simp add: statement_writers_def)

lemma apply_op_set_entries:
  "foldl apply_op_set (index_entry E t ` S) (map (index_op E t) ops) =
     index_entry E t ` foldl (apply_stmt_op E) S ops"
proof (induction ops arbitrary: S)
  case (Cons op ops)
  have "apply_op_set (index_entry E t ` S) (index_op E t op) = index_entry E t ` apply_stmt_op E S op"
    by (cases op) (auto simp: index_entry_def statement_key_eq_iff)
  with Cons show ?case by simp
qed simp

context key_order
begin

lemma range_filter:
  assumes "sorted_entries c es" and "fst ` set es \<subseteq> keys" and "lo \<in> keys" and "hi \<in> keys"
  shows "takeWhile (\<lambda>e. c (fst e) hi \<le> 0) (dropWhile (\<lambda>e. c (fst e) lo < 0) es) =
    [e \<leftarrow> es. 0 \<le> c (fst e) lo \<and> c (fst e) hi \<le> 0]"
proof -
  have keys: "fst e \<in> keys" if "e \<in> set es" for e using assms(2) that by auto
  have below: "c a hi \<le> 0" if "a \<in> keys" "b \<in> keys" "c a b < 0" "c b hi \<le> 0" for a b
    using that c_trans [of a b hi] c_eq [of b hi] assms(4) by (cases "c b hi = 0") auto
  have "dropWhile (\<lambda>e. c (fst e) lo < 0) es = [e \<leftarrow> es. \<not> c (fst e) lo < 0]"
    by (rule dropWhile_sorted_filter [OF assms(1)]) (use assms(2,3) c_trans in blast)
  moreover have "takeWhile (\<lambda>e. c (fst e) hi \<le> 0) [e \<leftarrow> es. \<not> c (fst e) lo < 0] =
      [e \<leftarrow> [e \<leftarrow> es. \<not> c (fst e) lo < 0]. c (fst e) hi \<le> 0]"
    by (rule takeWhile_sorted_filter [of "\<lambda>a b. c (fst a) (fst b) < 0"])
      (use assms(1) below keys in \<open>auto simp: sorted_wrt_filter\<close>)
  ultimately show ?thesis by (simp add: conj_commute not_less)
qed

end

fun op_stmt :: "stmt_op \<Rightarrow> proto_Statement" where
  "op_stmt (Op_Add s) = s"
| "op_stmt (Op_Remove s) = s"

lemma foldl_stmt_ops_subset: "foldl (apply_stmt_op E) S ops \<subseteq> S \<union> op_stmt ` set ops"
proof (induction ops arbitrary: S)
  case (Cons op ops)
  have "apply_stmt_op E S op \<subseteq> insert (op_stmt op) S" by (cases op) auto
  with Cons [of "apply_stmt_op E S op"] show ?case by auto
qed simp

context store
begin

lemma index_holds_write:
  assumes "index_holds E A t db S" and "db_Write E db (map (index_op E t) ops) = Some db'"
  shows "index_holds E A t db' (foldl (apply_stmt_op E) S ops)"
proof -
  have holds: "cmp_of A db = KeyComparator_Compare" "sorted_entries KeyComparator_Compare (entries_of A db)"
    "set (entries_of A db) = index_entry E t ` S"
    using assms(1) by (simp_all add: index_holds_def)
  have "op_key (index_op E t op) \<in> index_keys" for op by (cases op) simp_all
  then have "\<forall>b \<in> set (map (index_op E t) ops). op_key b \<in> index_keys" by simp
  moreover have "fst ` set (entries_of A db) \<subseteq> index_keys"
    by (auto simp: holds index_entry_def)
  ultimately show ?thesis
    using index_order.apply_batch_keeps [OF _ _ holds(2)] Write [OF assms(2)]
    by (simp add: holds index_holds_def apply_op_set_entries)
qed

lemma stored_eq:
  assumes "index_holds E A SPOC (db_spoc p) S" and "\<forall>s \<in> S. stmt_ok A s"
  shows "stored E A p = S"
proof -
  have "stored E A p = (\<lambda>s. snd (parse_Statement E (ser_Statement E s))) ` S"
    using assms(1) by (simp add: stored_def index_holds_def image_image index_entry_def)
  also have "\<dots> = (\<lambda>s. s) ` S"
    using assms(2) by (intro image_cong refl) (simp add: parse_Statement_ser)
  finally show ?thesis by simp
qed

lemma statements_written:
  assumes "wf_statements E A p" and "\<forall>op \<in> set ops. stmt_ok A (op_stmt op)" and "written E ws p p'"
    and "\<And>t. map_of ws (index_name t) = Some (map (index_op E t) ops)"
  shows "wf_statements E A p'" and "stored E A p' = foldl (apply_stmt_op E) (stored E A p) ops"
proof -
  let ?S = "foldl (apply_stmt_op E) (stored E A p) ops"
  have holds: "index_holds E A t (index_db t p') ?S" for t
    using assms(1) assms(3) [unfolded written_def, rule_format, of "index_name t"]
    by (intro index_holds_write [of t "index_db t p"]) (simp_all add: assms(4) wf_statements_def)
  moreover have ok: "\<forall>s \<in> ?S. stmt_ok A s"
    using foldl_stmt_ops_subset [of E "stored E A p" ops] assms(1,2) by (auto simp: wf_statements_def)
  ultimately show "stored E A p' = ?S" using stored_eq [of p' ?S] holds [of SPOC] by simp
  then show "wf_statements E A p'" using holds ok by (simp add: wf_statements_def)
qed

lemma stored_unique:
  assumes "wf_statements E A p" and "s \<in> stored E A p" and "u \<in> stored E A p" and "same_hashes E s u"
  shows "s = u"
proof -
  let ?es = "entries_of A (db_spoc p)"
  have h: "index_holds E A SPOC (db_spoc p) (stored E A p)" and ok: "stmt_ok A s" "stmt_ok A u"
    using assms(1-3) by (auto simp: wf_statements_def dest: spec [of _ SPOC])
  then have mem: "index_entry E SPOC s \<in> set ?es" "index_entry E SPOC u \<in> set ?es"
    and keys: "fst ` set ?es \<subseteq> index_keys" and "sorted_entries KeyComparator_Compare ?es"
    using assms(2,3) by (auto simp: index_holds_def index_entry_def)
  then have "distinct (map fst ?es)" by (intro index_order.sorted_entries_distinct)
  moreover note mem
  moreover have "fst (index_entry E SPOC s) = fst (index_entry E SPOC u)"
    using assms(4) by (simp add: index_entry_def statement_key_eq_iff)
  ultimately have "ser_Statement E s = ser_Statement E u"
    by (metis eq_key_imp_eq_value index_entry_def fst_conv)
  then show ?thesis using ok parse_Statement_ser by (metis prod.inject)
qed

end

subsection \<open>Retrieval\<close>

text \<open>
  What a query returns: the stored statements whose key starts with the hashes of the pattern's
  leading fields, in the order of their keys in the chosen index.
\<close>

definition query_result ::
  "('db, 'it) environment \<Rightarrow> ('db, 'it) view \<Rightarrow> 'db LevelDBPersistence \<Rightarrow> proto_Statement \<Rightarrow>
   proto_Statement list" where
  "query_result E A p pattern = range_remaining E A (GetStatements_it E p pattern)"

abbreviation key_less ::
  "('db, 'it) environment \<Rightarrow> IndexType \<Rightarrow> proto_Statement \<Rightarrow> proto_Statement \<Rightarrow> bool" where
  "key_less E t s u \<equiv> KeyComparator_Compare (statement_key E t s) (statement_key E t u) < 0"

lemma GetStatements_it_index:
  "GetStatements_it E p pattern =
     StatementRangeIterator_new E (db_NewIterator E (index_db (pq_type (PatternQuery_new E pattern)) p))
       (MinKey (is_x86_64 E) (PatternQuery_new E pattern)) (MaxKey (is_x86_64 E) (PatternQuery_new E pattern))"
  by (cases "pq_type (PatternQuery_new E pattern)") (simp_all add: GetStatements_it_def Let_def)

context store
begin

lemma entries_in_range:
  assumes "index_holds E A t db S" and "t = pq_type q" and "e \<in> set (entries_of A db)"
  shows "0 \<le> KeyComparator_Compare (fst e) (MinKey x q) \<and> KeyComparator_Compare (fst e) (MaxKey x q) \<le> 0 \<longleftrightarrow>
    take (KEY_LENGTH * length (query_prefix q)) (fst e) = hashes x (query_prefix q)"
proof -
  have "fst e \<in> index_keys" using assms(1,3) by (auto simp: index_holds_def index_entry_def)
  then show ?thesis
    using key_in_range_iff [of "fst e" x q] MinMaxKey_index_keys [of x q]
    by (simp add: KeyComparator_bytes index_keys_def)
qed

lemma range_rest:
  assumes holds: "index_holds E A t (index_db t p) S" and "i = GetStatements_it E p pattern"
    and "q = PatternQuery_new E pattern" and "t = pq_type q"
  shows "takeWhile (\<lambda>e. slice_compare E (fst e) (hi_key i) \<le> 0) (rest_of A (ldb_it i)) =
    [e \<leftarrow> entries_of A (index_db t p).
       take (KEY_LENGTH * length (query_prefix q)) (fst e) = hashes (is_x86_64 E) (query_prefix q)]"
proof -
  let ?es = "entries_of A (index_db t p)" and ?lo = "MinKey (is_x86_64 E) q" and ?hi = "MaxKey (is_x86_64 E) q"
  from holds have keys: "fst ` set ?es \<subseteq> index_keys" and sorted: "sorted_entries KeyComparator_Compare ?es"
    by (auto simp: index_holds_def index_entry_def)
  have slice: "slice_compare E (fst e) ?hi \<le> 0 \<longleftrightarrow> KeyComparator_Compare (fst e) ?hi \<le> 0" if "e \<in> set ?es" for e
    using that keys MinMaxKey_index_keys [of "is_x86_64 E" q] by (auto simp: slice_le KeyComparator_bytes)
  have i: "rest_of A (ldb_it i) = dropWhile (\<lambda>e. KeyComparator_Compare (fst e) ?lo < 0) ?es" "hi_key i = ?hi"
    using holds by (simp_all add: assms(2-4) GetStatements_it_index StatementRangeIterator_new_def
        LevelDBIterator_new_def Let_def Seek SeekToFirst NewIterator index_holds_def)
  have "takeWhile (\<lambda>e. slice_compare E (fst e) ?hi \<le> 0) (rest_of A (ldb_it i)) =
      takeWhile (\<lambda>e. KeyComparator_Compare (fst e) ?hi \<le> 0) (rest_of A (ldb_it i))"
    using slice unfolding i by (intro takeWhile_cong refl) (auto dest: set_dropWhileD)
  also have "\<dots> = [e \<leftarrow> ?es. 0 \<le> KeyComparator_Compare (fst e) ?lo \<and> KeyComparator_Compare (fst e) ?hi \<le> 0]"
    unfolding i by (rule index_order.range_filter [OF sorted keys MinMaxKey_index_keys])
  also have "\<dots> = [e \<leftarrow> ?es. take (KEY_LENGTH * length (query_prefix q)) (fst e) =
      hashes (is_x86_64 E) (query_prefix q)]"
    using entries_in_range [OF holds assms(4)] by (intro filter_cong refl) blast
  finally show ?thesis unfolding i .
qed

text \<open>A query depends on one index only, so it needs only that index to be in order.\<close>

lemma query_result_index:
  assumes "index_holds E A t (index_db t p) S" and ok: "\<forall>s \<in> S. stmt_ok A s"
    and "t = pq_type (PatternQuery_new E pattern)"
  shows "set (query_result E A p pattern) = {s \<in> S. query_hits E pattern s}"
    and "sorted_wrt (key_less E t) (query_result E A p pattern)"
proof -
  define q where "q = PatternQuery_new E pattern"
  let ?es = "entries_of A (index_db t p)" and ?v = "\<lambda>e :: entry. snd (parse_Statement E (snd e))"
  note holds = assms(1)
  have t: "t = pq_type q" using assms(3) by (simp add: q_def)
  have es: "?v e \<in> S \<and> fst e = statement_key E t (?v e)" if "e \<in> set ?es" for e
    using that holds ok parse_Statement_ser by (auto simp: index_holds_def index_entry_def)
  have r: "query_result E A p pattern = map ?v [e \<leftarrow> ?es.
      take (KEY_LENGTH * length (query_prefix q)) (fst e) = hashes (is_x86_64 E) (query_prefix q)]"
    using range_rest [OF holds refl q_def t] by (simp add: query_result_def range_remaining_def)
  have image: "?v ` set ?es = S"
    using holds ok parse_Statement_ser by (force simp: index_holds_def index_entry_def image_iff)
  have hits: "query_hits E pattern (?v e) \<longleftrightarrow>
      take (KEY_LENGTH * length (query_prefix q)) (fst e) = hashes (is_x86_64 E) (query_prefix q)"
    if "e \<in> set ?es" for e
    using es [OF that] by (simp add: query_hits_def q_def [symmetric] t [symmetric])
  show "set (query_result E A p pattern) = {s \<in> S. query_hits E pattern s}"
    unfolding r image [symmetric] using hits by auto
  have "sorted_entries KeyComparator_Compare ?es" using holds by (simp add: index_holds_def)
  then have "sorted_wrt (\<lambda>e f. key_less E t (?v e) (?v f)) ?es"
    by (rule sorted_wrt_mono_rel [rotated]) (use es in simp)
  then show "sorted_wrt (key_less E t) (query_result E A p pattern)"
    unfolding r by (simp add: sorted_wrt_map sorted_wrt_filter)
qed

lemma query_result_correct:
  assumes "wf_statements E A p"
  shows "set (query_result E A p pattern) = {s \<in> stored E A p. query_hits E pattern s}"
    and "sorted_wrt (key_less E (pq_type (PatternQuery_new E pattern))) (query_result E A p pattern)"
  using assms query_result_index [OF _ _ refl, where p = p and S = "stored E A p" and pattern = pattern]
  by (auto simp: wf_statements_def)

lemma GetStatements_result:
  "GetStatements E p pattern cb s = exec_return (callback_foldl cb s (query_result E A p pattern))"
proof -
  have "\<not> ldb_parsed (GetStatements_it E p pattern)"
    by (simp add: GetStatements_it_def StatementRangeIterator_new_def LevelDBIterator_new_def Let_def)
  then show ?thesis
    by (simp add: GetStatements_def range_iterator.for_callback_remaining query_result_def)
qed

end

subsection \<open>The operations on the set of statements\<close>

text \<open>A statement has the pattern's value in each of the pattern's fields.\<close>

definition agrees :: "proto_Statement \<Rightarrow> proto_Statement \<Rightarrow> bool" where
  "agrees pattern s \<longleftrightarrow>
     st_subject pattern \<in> {None, Some (subject_of s)} \<and>
     st_predicate pattern \<in> {None, Some (predicate_of s)} \<and>
     st_object pattern \<in> {None, Some (object_of s)} \<and>
     st_context pattern \<in> {None, Some (context_of s)}"

text \<open>The byte strings a statement's key is computed from.\<close>

definition component_bytes :: "('db, 'it) environment \<Rightarrow> proto_Statement \<Rightarrow> bytes set" where
  "component_bytes E s =
     {ser_Resource E (subject_of s), ser_URI E (predicate_of s), ser_Value E (object_of s),
      ser_Resource E (context_of s)}"

abbreviation hits :: "('db, 'it) environment \<Rightarrow> proto_Statement set \<Rightarrow> proto_Statement \<Rightarrow> proto_Statement set" where
  "hits E S pattern \<equiv> {s \<in> S. hash_matches E (effective pattern) s}"

context key_order
begin

lemma sorted_distinct:
  assumes "sorted_wrt (\<lambda>a b. c (f a) (f b) < 0) xs" and "\<And>x. f x \<in> keys"
  shows "distinct xs"
  using assms
proof (induction xs)
  case (Cons x xs)
  then show ?case using c_refl [of "f x"] by auto
qed simp

end

lemma remove_all:
  "foldl (apply_stmt_op E) S (map Op_Remove ss) = {u \<in> S. \<forall>s \<in> set ss. \<not> same_hashes E u s}"
  by (induction ss arbitrary: S) auto

context store
begin

lemma query_result_set:
  assumes "wf_statements E A p"
  shows "set (query_result E A p pattern) = hits E (stored E A p) pattern"
    and "distinct (query_result E A p pattern)"
    and "length (query_result E A p pattern) = card (hits E (stored E A p) pattern)"
proof -
  show set: "set (query_result E A p pattern) = hits E (stored E A p) pattern"
    using query_result_correct(1) [OF assms] by (simp add: query_hits_iff)
  show distinct: "distinct (query_result E A p pattern)"
    using index_order.sorted_distinct [OF query_result_correct(2) [OF assms]] by simp
  show "length (query_result E A p pattern) = card (hits E (stored E A p) pattern)"
    using distinct_card [OF distinct] set by simp
qed

lemma run_statement_writers:
  assumes "wf_statements E A p" and "\<forall>op \<in> set ops. stmt_ok A (op_stmt op)"
  shows "if writes_ok E (statement_writers (batches_of E ops)) p
    then \<exists>p'. run_writers E (statement_writers (batches_of E ops)) p = exec_return p' \<and>
      wf_statements E A p' \<and> stored E A p' = foldl (apply_stmt_op E) (stored E A p) ops \<and>
      db_ns_prefix p' = db_ns_prefix p \<and> db_ns_url p' = db_ns_url p
    else run_writers E (statement_writers (batches_of E ops)) p = exec_throw CheckFailed"
proof -
  let ?ws = "statement_writers (batches_of E ops)"
  have "wf_statements E A p' \<and> stored E A p' = foldl (apply_stmt_op E) (stored E A p) ops \<and>
      db_ns_prefix p' = db_ns_prefix p \<and> db_ns_url p' = db_ns_url p"
    if w: "written E ?ws p p'" for p'
    using statements_written [OF assms w statement_writers_batch(1)]
      w [unfolded written_def, rule_format, of DB_NS_PREFIX]
      w [unfolded written_def, rule_format, of DB_NS_URL]
    by (simp add: statement_writers_batch)
  then show ?thesis
    using run_writers_result [OF distinct_statement_writers, of E "batches_of E ops" p]
    by (auto split: if_splits)
qed

lemma RemoveStatements_batch_result:
  "RemoveStatements_batch E p pattern (batches_of E ops) =
     exec_return (batches_of E (ops @ map Op_Remove (query_result E A p pattern)),
       int (length (query_result E A p pattern)))"
proof -
  have "fst (RemoveStatement_callback E s x)" for s x
    by (cases s) (simp add: RemoveStatement_callback_def Let_def)
  then show ?thesis
    by (simp add: RemoveStatements_batch_def GetStatements_result callback_foldl_always RemoveStatement_foldl)
qed

lemma remove_hits:
  assumes "wf_statements E A p"
  shows "foldl (apply_stmt_op E) (stored E A p) (map Op_Remove (query_result E A p pattern)) =
    stored E A p - hits E (stored E A p) pattern"
  using stored_unique [OF assms] by (auto simp: remove_all query_result_set [OF assms] same_hashes_def)

end

text \<open>Stores over the reference environment: with no statement and with one.\<close>

definition empty_store :: "list_db LevelDBPersistence" where
  "empty_store =
     \<lparr>db_spoc = (KeyComparator_Compare, []), db_cspo = (KeyComparator_Compare, []),
      db_opsc = (KeyComparator_Compare, []), db_pcos = (KeyComparator_Compare, []),
      db_ns_prefix = (bytes_compare, []), db_ns_url = (bytes_compare, []), db_meta = (bytes_compare, [])\<rparr>"

definition one_statement_store :: "bool \<Rightarrow> proto_Statement \<Rightarrow> list_db LevelDBPersistence" where
  "one_statement_store x s =
     empty_store\<lparr>db_spoc := (KeyComparator_Compare, [index_entry (list_environment x) SPOC s]),
       db_cspo := (KeyComparator_Compare, [index_entry (list_environment x) CSPO s]),
       db_opsc := (KeyComparator_Compare, [index_entry (list_environment x) OPSC s]),
       db_pcos := (KeyComparator_Compare, [index_entry (list_environment x) PCOS s])\<rparr>"

definition example_statement :: proto_Statement where
  "example_statement =
     Statement_new (Resource_from_string ''http://a'') (URI_new ''http://b'') (Value_from_string ''c'')"

lemma list_parse_ser [simp]:
  "snd (parse_Statement (list_environment x) (ser_Statement (list_environment x) s)) = s"
  using list_store.parse_Statement_ser [of s x] by (simp add: list_view_def)

lemma list_writes_ok [simp]: "writes_ok (list_environment x) ws p"
  by (auto simp: writes_ok_def list_environment_def)

lemma empty_store_wf [simp]:
  "wf_statements (list_environment x) list_view empty_store"
  "stored (list_environment x) list_view empty_store = {}"
proof -
  show st: "stored (list_environment x) list_view empty_store = {}"
    by (simp add: stored_def empty_store_def list_view_def)
  have "index_holds (list_environment x) list_view t (index_db t empty_store) {}" for t
    by (cases t) (simp_all add: index_holds_def empty_store_def list_view_def)
  then show "wf_statements (list_environment x) list_view empty_store" by (simp add: wf_statements_def st)
qed

lemma one_statement_store_wf [simp]:
  "wf_statements (list_environment x) list_view (one_statement_store x s)"
  "stored (list_environment x) list_view (one_statement_store x s) = {s}"
proof -
  show st: "stored (list_environment x) list_view (one_statement_store x s) = {s}"
    by (simp add: stored_def one_statement_store_def list_view_def index_entry_def)
  have "index_holds (list_environment x) list_view t (index_db t (one_statement_store x s)) {s}" for t
    by (cases t) (simp_all add: index_holds_def one_statement_store_def list_view_def)
  then show "wf_statements (list_environment x) list_view (one_statement_store x s)"
    by (simp add: wf_statements_def st)
qed

text \<open>
  C1: adding statements. For every iterator that keeps the iterator contract, \<open>AddStatements\<close>
  reads all its statements and, when the four writes succeed, returns their number and leaves the
  indexes consistent and holding the old statements and the new ones, each new statement replacing
  those with the same hashes; when a write fails the process aborts. The namespaces are untouched.
\<close>

theorem AddStatements_effect:
  assumes "store E A" and "closeable_iterator V usable remaining" and "usable it"
    and "wf_statements E A p" and "\<forall>s \<in> set (remaining it). stmt_ok A s"
  shows "if writes_ok E (statement_writers (batches_of E (map Op_Add (remaining it)))) p
    then \<exists>p'. AddStatements E V it p = exec_return (int (length (remaining it)), p') \<and>
      wf_statements E A p' \<and>
      stored E A p' = foldl (\<lambda>S s. insert s {u \<in> S. \<not> same_hashes E u s}) (stored E A p) (remaining it) \<and>
      db_ns_prefix p' = db_ns_prefix p \<and> db_ns_url p' = db_ns_url p
    else AddStatements E V it p = exec_throw CheckFailed"
proof -
  let ?ops = "map Op_Add (remaining it)"
  have step: "(\<lambda>(b, n) s. exec_return (AddStatement E s b, n + 1)) =
      (\<lambda>x s. exec_return ((\<lambda>(b, n :: int) s. (AddStatement E s b, n + 1)) x s))" by auto
  have "for_each V (\<lambda>(b, n :: int) s. exec_return (AddStatement E s b, n + 1)) it (statement_batches_new, 0) =
      exec_return (batches_of E ?ops, int (length (remaining it)))"
    unfolding closeable_iterator.for_each_remaining [OF assms(2,3)] step exec_foldl_return
    using AddStatement_foldl [of E "[]" 0 "remaining it"] by (simp add: batches_new [of E])
  moreover have "foldl (\<lambda>S s. insert s {u \<in> S. \<not> same_hashes E u s}) (stored E A p) (remaining it) =
      foldl (apply_stmt_op E) (stored E A p) ?ops" by (simp add: foldl_map)
  moreover have "\<forall>op \<in> set ?ops. stmt_ok A (op_stmt op)" using assms(5) by auto
  ultimately show ?thesis
    using store.run_statement_writers [OF assms(1,4), of ?ops]
    by (auto simp: AddStatements_def split: if_splits)
qed

theorem AddStatements_effect_witness:
  "\<exists>p'. AddStatements (list_environment True) SingletonIterator (SingletonIterator_new example_statement) empty_store =
      exec_return (1, p') \<and> stored (list_environment True) list_view p' = {example_statement}"
  using AddStatements_effect [OF list_store.store_axioms [of True] singleton_iterator.closeable_iterator_axioms,
      where it = "SingletonIterator_new example_statement" and p = empty_store]
  by (auto simp: singleton_remaining_def SingletonIterator_new_def)

text \<open>
  C2: retrieval is exact. \<open>GetStatements\<close> always returns; it calls the callback, until the
  callback declines, on the stored statements whose hashes agree with the pattern on every field
  that the chosen index can use, each once, in the order of their keys.
\<close>

theorem GetStatements_exact:
  assumes "store E A" and "wf_statements E A p"
  shows "\<exists>ss. (\<forall>cb s :: 's. GetStatements E p pattern cb s = exec_return (callback_foldl cb s ss)) \<and>
    set ss = {s \<in> stored E A p. hash_matches E (effective pattern) s} \<and> distinct ss \<and>
    sorted_wrt (key_less E (pq_type (PatternQuery_new E pattern))) ss"
  using store.GetStatements_result [OF assms(1)] store.query_result_set(1,2) [OF assms]
    store.query_result_correct(2) [OF assms]
  by (intro exI [of _ "query_result E A p pattern"]) auto

theorem GetStatements_exact_witness:
  "\<exists>ss. (\<forall>cb s :: int. GetStatements (list_environment True) (one_statement_store True example_statement)
        Statement_default cb s = exec_return (callback_foldl cb s ss)) \<and> set ss = {example_statement}"
proof -
  have "hash_matches (list_environment True) (effective Statement_default) example_statement"
    by (simp add: hash_matches_def effective_def Statement_default_def field_match_def)
  then show ?thesis
    using GetStatements_exact [where 's = int, OF list_store.store_axioms [of True]
        one_statement_store_wf(1) [of True example_statement], of Statement_default]
    by auto
qed

text \<open>
  Retrieval misses nothing. Every stored statement that has the pattern's value in each of the
  pattern's fields is reported.
\<close>

theorem GetStatements_complete:
  assumes "store E A" and "wf_statements E A p" and "s \<in> stored E A p"
    and "agrees pattern s"
  shows "\<exists>ss. GetStatements E p pattern (\<lambda>xs x. (True, xs @ [x])) [] = exec_return ss \<and> s \<in> set ss"
proof -
  have "hash_matches E (effective pattern) s"
    using assms(4) by (auto simp: agrees_def hash_matches_def effective_def field_match_def)
  then have "s \<in> set (query_result E A p pattern)"
    using assms(3) store.query_result_set(1) [OF assms(1,2)] by auto
  moreover have "foldl (\<lambda>xs x. xs @ [x]) ys xs = ys @ xs" for ys xs :: "proto_Statement list"
    by (induction xs arbitrary: ys) simp_all
  ultimately show ?thesis
    by (simp add: store.GetStatements_result [OF assms(1)] callback_foldl_always)
qed

theorem GetStatements_complete_witness:
  "\<exists>ss. GetStatements (list_environment True) (one_statement_store True example_statement)
      (Statement_default\<lparr>st_predicate := Some (URI_new ''http://b'')\<rparr>) (\<lambda>xs x. (True, xs @ [x])) [] = exec_return ss \<and>
    example_statement \<in> set ss"
proof -
  have "agrees (Statement_default\<lparr>st_predicate := Some (URI_new ''http://b'')\<rparr>) example_statement"
    by (simp add: agrees_def Statement_default_def example_statement_def Statement_new_def predicate_of_def)
  then show ?thesis
    using GetStatements_complete [OF list_store.store_axioms [of True] one_statement_store_wf(1)
        [of True example_statement], of example_statement] by simp
qed

context codec_contract
begin

lemma hash_matches_agrees:
  assumes "inj_on (keyHash (is_x86_64 E)) (component_bytes E pattern \<union> component_bytes E s)"
  shows "hash_matches E pattern s \<longleftrightarrow> agrees pattern s"
proof -
  have eq: "keyHash (is_x86_64 E) a = keyHash (is_x86_64 E) b \<longleftrightarrow> a = b"
    if "a \<in> component_bytes E pattern" "b \<in> component_bytes E s" for a b
    using that assms by (auto simp: inj_on_def)
  have resource: "ser_Resource E a = ser_Resource E b \<longleftrightarrow> a = b" for a b
    using inj_Resource by (auto dest: injD)
  have uri: "ser_URI E a = ser_URI E b \<longleftrightarrow> a = b" for a b using inj_URI by (auto dest: injD)
  have v: "ser_Value E a = ser_Value E b \<longleftrightarrow> a = b" for a b using inj_Value by (auto dest: injD)
  have "field_match (is_x86_64 E) (ser_Resource E) (st_subject pattern) (subject_of s) \<longleftrightarrow>
      st_subject pattern \<in> {None, Some (subject_of s)}"
    using eq [of "ser_Resource E (subject_of pattern)" "ser_Resource E (subject_of s)"]
    by (auto simp: field_match_def subject_of_def component_bytes_def resource split: option.split)
  moreover have "field_match (is_x86_64 E) (ser_URI E) (st_predicate pattern) (predicate_of s) \<longleftrightarrow>
      st_predicate pattern \<in> {None, Some (predicate_of s)}"
    using eq [of "ser_URI E (predicate_of pattern)" "ser_URI E (predicate_of s)"]
    by (auto simp: field_match_def predicate_of_def component_bytes_def uri split: option.split)
  moreover have "field_match (is_x86_64 E) (ser_Value E) (st_object pattern) (object_of s) \<longleftrightarrow>
      st_object pattern \<in> {None, Some (object_of s)}"
    using eq [of "ser_Value E (object_of pattern)" "ser_Value E (object_of s)"]
    by (auto simp: field_match_def object_of_def component_bytes_def v split: option.split)
  moreover have "field_match (is_x86_64 E) (ser_Resource E) (st_context pattern) (context_of s) \<longleftrightarrow>
      st_context pattern \<in> {None, Some (context_of s)}"
    using eq [of "ser_Resource E (context_of pattern)" "ser_Resource E (context_of s)"]
    by (auto simp: field_match_def context_of_def component_bytes_def resource split: option.split)
  ultimately show ?thesis by (simp add: hash_matches_def agrees_def)
qed

end

text \<open>
  C14: retrieval is right when it can be. For a pattern in which no field follows a wildcard in the
  order of the chosen index, and a hash that keeps the components at hand apart, exactly the
  stored statements that agree with the pattern are reported.
\<close>

theorem GetStatements_correct:
  assumes "store E A" and "wf_statements E A p" and "effective pattern = pattern"
    and "\<forall>s \<in> stored E A p. inj_on (keyHash (is_x86_64 E)) (component_bytes E pattern \<union> component_bytes E s)"
  shows "\<exists>ss. GetStatements E p pattern (\<lambda>xs x. (True, xs @ [x])) [] = exec_return ss \<and>
    set ss = {s \<in> stored E A p. agrees pattern s}"
proof -
  have "hits E (stored E A p) pattern = {s \<in> stored E A p. agrees pattern s}"
    using assms(3,4) codec_contract.hash_matches_agrees [OF store.axioms(2) [OF assms(1)]] by auto
  moreover have "foldl (\<lambda>xs x. xs @ [x]) ys xs = ys @ xs" for ys xs :: "proto_Statement list"
    by (induction xs arbitrary: ys) simp_all
  ultimately show ?thesis
    using store.query_result_set(1) [OF assms(1,2), of pattern]
    by (simp add: store.GetStatements_result [OF assms(1)] callback_foldl_always)
qed

definition example_pattern :: proto_Statement where
  "example_pattern = Statement_default\<lparr>st_predicate := Some (URI_new ''http://b'')\<rparr>"

lemma example_hashes_apart:
  "inj_on (keyHash True) (component_bytes (list_environment True) example_pattern \<union>
     component_bytes (list_environment True) example_statement)"
proof -
  let ?cs = "[[], wire_Resource (subject_of example_statement),
      wire_URI (predicate_of example_statement), wire_Value (object_of example_statement)]"
  have "distinct (map (keyHash True) ?cs)" by code_simp
  moreover have "component_bytes (list_environment True) example_pattern \<union>
      component_bytes (list_environment True) example_statement = set ?cs"
    by (auto simp: component_bytes_def list_environment_def example_pattern_def Statement_default_def
        subject_of_def predicate_of_def object_of_def context_of_def example_statement_def
        Statement_new_def wire_def)
  ultimately show ?thesis by (simp only: distinct_map)
qed

theorem GetStatements_correct_witness:
  "\<exists>ss. GetStatements (list_environment True) (one_statement_store True example_statement)
      example_pattern (\<lambda>xs x. (True, xs @ [x])) [] = exec_return ss \<and> set ss = {example_statement}"
proof -
  have "effective example_pattern = example_pattern" "agrees example_pattern example_statement"
    by (simp_all add: effective_def agrees_def example_pattern_def Statement_default_def
        example_statement_def Statement_new_def predicate_of_def)
  moreover have "is_x86_64 (list_environment True)" by (simp add: list_environment_def)
  ultimately show ?thesis
    using GetStatements_correct [OF list_store.store_axioms [of True]
        one_statement_store_wf(1) [of True example_statement], of example_pattern] example_hashes_apart
    by (auto simp: conj_commute cong: conj_cong)
qed

text \<open>
  C17: what happens to the other patterns. The fields that follow a wildcard in the order of the
  chosen index are ignored: with a subject but no predicate the object, and with an object but no
  subject the context. The query runs exactly as if these fields were not there, so statements
  that do not agree with the pattern are reported, and removed by \<open>RemoveStatements\<close>.
\<close>

theorem GetStatements_ignores_fields_after_gap:
  "GetStatements E p pattern cb s = GetStatements E p (effective pattern) cb s \<and>
   RemoveStatements E pattern p = RemoveStatements E (effective pattern) p"
proof -
  have "pq_type (PatternQuery_new E (effective pattern)) = pq_type (PatternQuery_new E pattern) \<and>
      query_prefix (PatternQuery_new E (effective pattern)) = query_prefix (PatternQuery_new E pattern)"
    by (cases "st_subject pattern"; cases "st_predicate pattern"; cases "st_object pattern";
        cases "st_context pattern") (simp_all add: PatternQuery_new_def query_prefix_def effective_def)
  then have "GetStatements_it E p pattern = GetStatements_it E p (effective pattern)"
    by (simp add: GetStatements_it_index MinKey_eq MaxKey_eq)
  then show ?thesis
    by (simp add: GetStatements_def RemoveStatements_def RemoveStatements_batch_def)
qed

text \<open>
  C3: removing statements. When the four writes succeed \<open>RemoveStatements\<close> returns the number of
  statements the query for the pattern reports, and removes exactly these from all indexes.
\<close>

theorem RemoveStatements_effect:
  assumes "store E A" and "wf_statements E A p"
  shows "if writes_ok E (statement_writers (batches_of E (map Op_Remove (query_result E A p pattern)))) p
    then \<exists>p'. RemoveStatements E pattern p =
        exec_return (int (card {s \<in> stored E A p. hash_matches E (effective pattern) s}), p') \<and>
      wf_statements E A p' \<and>
      stored E A p' = {s \<in> stored E A p. \<not> hash_matches E (effective pattern) s} \<and>
      db_ns_prefix p' = db_ns_prefix p \<and> db_ns_url p' = db_ns_url p
    else RemoveStatements E pattern p = exec_throw CheckFailed"
proof -
  let ?ops = "map Op_Remove (query_result E A p pattern)"
  have "\<forall>op \<in> set ?ops. stmt_ok A (op_stmt op)"
    using assms(2) store.query_result_set(1) [OF assms] by (auto simp: wf_statements_def)
  moreover have "RemoveStatements_batch E p pattern statement_batches_new =
      exec_return (batches_of E ?ops, int (card (hits E (stored E A p) pattern)))"
    using store.RemoveStatements_batch_result [OF assms(1), of p pattern "[]"]
    by (simp add: batches_new [of E] store.query_result_set(3) [OF assms])
  ultimately show ?thesis
    using store.run_statement_writers [OF assms, of ?ops] store.remove_hits [OF assms, of pattern]
    by (auto simp: RemoveStatements_def split: if_splits)
qed

theorem RemoveStatements_effect_witness:
  "\<exists>p'. RemoveStatements (list_environment True) Statement_default (one_statement_store True example_statement) =
      exec_return (1, p') \<and> stored (list_environment True) list_view p' = {}"
proof -
  have m: "hash_matches (list_environment True) (effective Statement_default) example_statement"
    by (simp add: hash_matches_def effective_def Statement_default_def field_match_def)
  then have one: "{s. s = example_statement \<and>
      hash_matches (list_environment True) (effective Statement_default) s} = {example_statement}" by auto
  show ?thesis
    using RemoveStatements_effect [OF list_store.store_axioms [of True] one_statement_store_wf(1)
        [of True example_statement], of Statement_default] m
    by (auto simp: one)
qed

context leveldb_contract
begin

lemma Size_loop_rest: "Size_loop E it n = Some (n + int (length (rest_of A it)))"
proof (induction "rest_of A it" arbitrary: it n)
  case Nil
  then show ?case by (subst Size_loop.simps) (simp add: Valid)
next
  case (Cons e es)
  then have "rest_of A (it_Next E it) = es" using Next [of it e es] by simp
  with Cons show ?case by (subst Size_loop.simps) (simp add: Valid flip: Cons(2))
qed

end

context store
begin

lemma Size_result:
  assumes "wf_statements E A p"
  shows "Size E p = Some (int (card (stored E A p)))"
proof -
  let ?es = "entries_of A (db_cspo p)"
  have holds: "index_holds E A CSPO (db_cspo p) (stored E A p)"
    using assms by (auto simp: wf_statements_def dest: spec [of _ CSPO])
  have "fst ` set ?es \<subseteq> index_keys" "sorted_entries KeyComparator_Compare ?es"
    using holds by (auto simp: index_holds_def index_entry_def)
  then have "distinct (map fst ?es)" by (intro index_order.sorted_entries_distinct)
  then have "distinct ?es" by (simp add: distinct_map)
  then have "length ?es = card (index_entry E CSPO ` stored E A p)"
    using holds by (metis distinct_card index_holds_def)
  also have "\<dots> = card (stored E A p)"
    using stored_unique [OF assms]
    by (intro card_image) (auto simp: inj_on_def index_entry_def statement_key_eq_iff)
  finally show ?thesis
    by (simp add: Size_def Size_loop_rest SeekToFirst NewIterator)
qed

end

text \<open>
  The size of the store. The counting loop ends, and its result is the number of statements.
\<close>

theorem Size_counts_statements:
  assumes "store E A" and "wf_statements E A p"
  shows "Size E p = Some (int (card (stored E A p)))"
  by (rule store.Size_result [OF assms])

theorem Size_counts_statements_witness:
  "Size (list_environment True) (one_statement_store True example_statement) = Some 1"
  using Size_counts_statements [OF list_store.store_axioms [of True] one_statement_store_wf(1)
      [of True example_statement]] by simp

context leveldb_contract
begin

text \<open>Opening the databases of a new store: all are empty, the indexes in the order of the keys.\<close>

lemma LevelDBPersistence_new_databases:
  assumes "\<forall>c f. \<exists>db. db_Open E c f = Some db \<and> entries_of A db = []"
  shows "\<exists>p. LevelDBPersistence_new E path = exec_return p \<and>
    (\<forall>t. entries_of A (index_db t p) = [] \<and> cmp_of A (index_db t p) = KeyComparator_Compare) \<and>
    (\<forall>db \<in> {db_ns_prefix p, db_ns_url p}. entries_of A db = [] \<and> cmp_of A db = slice_compare E)"
proof -
  have build: "\<exists>db. buildDB E path suffix c = exec_return db \<and> entries_of A db = [] \<and>
      cmp_of A db = (case c of None \<Rightarrow> slice_compare E | Some c' \<Rightarrow> c')" for suffix c
  proof -
    obtain db where "db_Open E c (path @ ''/'' @ suffix @ ''.db'') = Some db" "entries_of A db = []"
      using assms by blast
    then show ?thesis using Open by (simp add: buildDB_def)
  qed
  obtain f where f: "buildDB E path suffix buildOptions = exec_return (f suffix)"
    "entries_of A (f suffix) = []" "cmp_of A (f suffix) = KeyComparator_Compare" for suffix
    using build [of _ buildOptions] unfolding buildOptions_def option.case by metis
  obtain g where g: "buildDB E path suffix buildNsOptions = exec_return (g suffix)"
    "entries_of A (g suffix) = []" "cmp_of A (g suffix) = slice_compare E" for suffix
    using build [of _ buildNsOptions] unfolding buildNsOptions_def option.case by metis
  have "entries_of A (index_db t p) = [] \<and> cmp_of A (index_db t p) = KeyComparator_Compare"
    if "p = \<lparr>db_spoc = f ''spoc'', db_cspo = f ''cspo'', db_opsc = f ''opsc'', db_pcos = f ''pcos'',
       db_ns_prefix = g ''ns_prefix'', db_ns_url = g ''ns_url'', db_meta = g ''metadata''\<rparr>" for p t
    using that by (cases t) (simp_all add: f)
  then show ?thesis by (simp add: LevelDBPersistence_new_def f g)
qed

lemma empty_indexes_wf:
  assumes "\<forall>t. entries_of A (index_db t p) = [] \<and> cmp_of A (index_db t p) = KeyComparator_Compare"
  shows "wf_statements E A p" and "stored E A p = {}"
proof -
  show empty: "stored E A p = {}" using assms [rule_format, of SPOC] by (simp add: stored_def)
  then show "wf_statements E A p" using assms by (simp add: wf_statements_def index_holds_def)
qed

end

text \<open>
  Opening a store. If every database opens, and the index databases are empty, the new store
  satisfies the invariant and holds no statement.
\<close>

theorem LevelDBPersistence_new_empty:
  assumes "store E A"
    and "\<forall>c f. \<exists>db. db_Open E c f = Some db \<and> entries_of A db = []"
  shows "\<exists>p. LevelDBPersistence_new E path = exec_return p \<and> wf_statements E A p \<and> stored E A p = {}"
  using leveldb_contract.LevelDBPersistence_new_databases [OF store.axioms(1) [OF assms(1)] assms(2)]
    leveldb_contract.empty_indexes_wf [OF store.axioms(1) [OF assms(1)]] by metis

theorem LevelDBPersistence_new_empty_witness:
  "\<exists>p. LevelDBPersistence_new (list_environment True) ''/tmp/db'' = exec_return p \<and>
    stored (list_environment True) list_view p = {}"
proof -
  have "\<forall>c f. \<exists>db. db_Open (list_environment True) c f = Some db \<and> entries_of list_view db = []"
    by (simp add: list_environment_def list_view_def)
  from LevelDBPersistence_new_empty [OF list_store.store_axioms [of True] this, of "''/tmp/db''"]
  show ?thesis by blast
qed

end
