(* ===== verification/Namespace_Store.thy ===== *)
theory Namespace_Store
  imports Statement_Store
begin

text \<open>
  The namespaces of \<open>LevelDBPersistence\<close> as two finite maps, from prefixes and from URIs to
  namespaces, and what the operations on namespaces do to them; and the writer threads, whose
  result does not depend on the order in which they are scheduled.
\<close>

subsection \<open>Writer threads in any order\<close>

text \<open>
  The state of the threads: those that have not written yet and the databases, or an aborted
  process. A step is the write of any pending thread.
\<close>

datatype 'db writers_state = Running "writer list" "'db LevelDBPersistence" | Aborted

inductive writers_step ::
  "('db, 'it) environment \<Rightarrow> 'db writers_state \<Rightarrow> 'db writers_state \<Rightarrow> bool" for E where
  thread_writes: "(n, b) \<in> set ws \<Longrightarrow> db_Write E (get_db n p) b = Some d \<Longrightarrow>
    writers_step E (Running ws p) (Running (remove1 (n, b) ws) (set_db n d p))"
| thread_fails: "(n, b) \<in> set ws \<Longrightarrow> db_Write E (get_db n p) b = None \<Longrightarrow>
    writers_step E (Running ws p) Aborted"

inductive_cases writers_step_Running: "writers_step E (Running ws p) st"
inductive_cases writers_step_Aborted: "writers_step E Aborted st"

fun writers_outcome :: "('db, 'it) environment \<Rightarrow> 'db writers_state \<Rightarrow> 'db LevelDBPersistence exec" where
  "writers_outcome E (Running ws p) = run_writers E ws p"
| "writers_outcome E Aborted = exec_throw CheckFailed"

fun writers_distinct :: "'db writers_state \<Rightarrow> bool" where
  "writers_distinct (Running ws p) = distinct (map fst ws)"
| "writers_distinct Aborted = True"

lemma run_writers_any_first:
  assumes "(n, b) \<in> set ws" and "distinct (map fst ws)"
  shows "run_writers E ws p =
    (case db_Write E (get_db n p) b of
       None \<Rightarrow> exec_throw CheckFailed
     | Some d \<Rightarrow> run_writers E (remove1 (n, b) ws) (set_db n d p))"
  using assms
proof (induction ws arbitrary: p)
  case (Cons w ws)
  obtain m c where w: "w = (m, c)" by (cases w)
  show ?case
  proof (cases "w = (n, b)")
    case True
    then show ?thesis by (simp split: option.split)
  next
    case False
    then have mem: "(n, b) \<in> set ws" using Cons.prems(1) by auto
    then have "m \<noteq> n" using Cons.prems(2) by (force simp: w)
    then show ?thesis
      using Cons.IH [OF mem] Cons.prems(2) False
      by (auto simp: w get_set_db set_db_commute [of n m] split: option.split)
  qed
qed simp

lemma distinct_remove1_fst: "distinct (map fst ws) \<Longrightarrow> distinct (map fst (remove1 w ws))"
proof (induction ws)
  case (Cons v ws)
  have "fst ` set (remove1 w ws) \<subseteq> fst ` set ws" by (intro image_mono set_remove1_subset)
  with Cons show ?case by auto
qed simp

lemma writers_step_outcome:
  assumes "writers_step E st st'" and "writers_distinct st"
  shows "writers_outcome E st' = writers_outcome E st \<and> writers_distinct st'"
  using assms
  by (cases rule: writers_step.cases) (auto simp: run_writers_any_first distinct_remove1_fst)

lemma writers_steps_outcome:
  assumes "(writers_step E)\<^sup>*\<^sup>* st st'" and "writers_distinct st"
  shows "writers_outcome E st' = writers_outcome E st"
  using assms
proof (induction rule: converse_rtranclp_induct)
  case (step y z)
  then show ?case using writers_step_outcome [OF step(1)] by simp
qed simp

lemma writers_sequential:
  "case run_writers E ws p of
     Some (Inr p') \<Rightarrow> (writers_step E)\<^sup>*\<^sup>* (Running ws p) (Running [] p')
   | Some (Inl e) \<Rightarrow> (writers_step E)\<^sup>*\<^sup>* (Running ws p) Aborted
   | None \<Rightarrow> False"
proof (induction ws arbitrary: p)
  case Nil
  show ?case by (simp add: exec_return_def)
next
  case (Cons w ws)
  obtain n b where w: "w = (n, b)" by (cases w)
  show ?case
  proof (cases "db_Write E (get_db n p) b")
    case None
    then show ?thesis using writers_step.thread_fails [of n b "w # ws" E p] by (auto simp: w exec_throw_def)
  next
    case (Some d)
    then have "writers_step E (Running (w # ws) p) (Running ws (set_db n d p))"
      using writers_step.thread_writes [of n b "w # ws" E p d] by (simp add: w)
    then show ?thesis
      using Cons [of "set_db n d p"] Some
      by (auto simp: w split: option.splits sum.splits intro: converse_rtranclp_into_rtranclp)
  qed
qed

text \<open>
  C20: the writer threads of an operation write different databases, and every schedule of them has
  the same outcome: all threads finish in a state exactly when running them one after the other
  returns that state, and the process aborts exactly when one of the writes fails.
\<close>

theorem writers_schedule_independent:
  assumes "distinct (map fst ws)"
  shows "((writers_step E)\<^sup>*\<^sup>* (Running ws p) (Running [] p') \<longleftrightarrow> run_writers E ws p = exec_return p') \<and>
    ((writers_step E)\<^sup>*\<^sup>* (Running ws p) Aborted \<longleftrightarrow> run_writers E ws p = exec_throw CheckFailed)"
proof -
  have d: "writers_distinct (Running ws p)" using assms by simp
  have run: "run_writers E ws p = exec_throw CheckFailed \<or> (\<exists>p'. run_writers E ws p = exec_return p')"
    using run_writers_result [OF assms, of E p] by metis
  show ?thesis
    using writers_steps_outcome [OF _ d] writers_sequential [of E ws p] run
    by (auto simp: exec_return_def exec_throw_def dest: writers_steps_outcome [OF _ d])
qed

theorem writers_schedule_independent_witness:
  "(writers_step (list_environment True))\<^sup>*\<^sup>*
     (Running [(DB_NS_PREFIX, [Put [1] [2]]), (DB_NS_URL, [Put [3] [4]])] empty_store)
     (Running [] (empty_store\<lparr>db_ns_prefix := (bytes_compare, [([1], [2])]), db_ns_url := (bytes_compare, [([3], [4])])\<rparr>))"
  using writers_schedule_independent [of "[(DB_NS_PREFIX, [Put [1] [2]]), (DB_NS_URL, [Put [3] [4]])]"
      "list_environment True" empty_store
      "empty_store\<lparr>db_ns_prefix := (bytes_compare, [([1], [2])]), db_ns_url := (bytes_compare, [([3], [4])])\<rparr>"]
  by (simp add: list_environment_def empty_store_def)

subsection \<open>The maps of namespaces\<close>

definition ns_find :: "('db, 'it) environment \<Rightarrow> entry list \<Rightarrow> string \<Rightarrow> proto_Namespace option" where
  "ns_find E es k = map_option (\<lambda>v. snd (parse_Namespace E v)) (map_of es (bytes_of k))"

abbreviation ns_lookup :: "('db, 'it) environment \<Rightarrow> ('db, 'it) view \<Rightarrow> 'db \<Rightarrow> string \<Rightarrow> proto_Namespace option" where
  "ns_lookup E A db \<equiv> ns_find E (entries_of A db)"

text \<open>A database that holds namespaces under one of their fields, in the default order.\<close>

definition ns_entries_ok ::
  "('db, 'it) environment \<Rightarrow> ('db, 'it) view \<Rightarrow> (proto_Namespace \<Rightarrow> string) \<Rightarrow> entry list \<Rightarrow> bool" where
  "ns_entries_ok E A key es \<longleftrightarrow>
     sorted_entries (slice_compare E) es \<and>
     (\<forall>e \<in> set es. \<exists>n. ns_ok A n \<and> e = (bytes_of (key n), ser_Namespace E n))"

definition ns_db_ok ::
  "('db, 'it) environment \<Rightarrow> ('db, 'it) view \<Rightarrow> (proto_Namespace \<Rightarrow> string) \<Rightarrow> 'db \<Rightarrow> bool" where
  "ns_db_ok E A key db \<longleftrightarrow> cmp_of A db = slice_compare E \<and> ns_entries_ok E A key (entries_of A db)"

definition wf_namespaces ::
  "('db, 'it) environment \<Rightarrow> ('db, 'it) view \<Rightarrow> 'db LevelDBPersistence \<Rightarrow> bool" where
  "wf_namespaces E A p \<longleftrightarrow>
     ns_db_ok E A ns_prefix (db_ns_prefix p) \<and> ns_db_ok E A ns_uri (db_ns_url p)"

datatype ns_op = NS_Add proto_Namespace | NS_Remove proto_Namespace

fun ns_batch_op :: "('db, 'it) environment \<Rightarrow> (proto_Namespace \<Rightarrow> string) \<Rightarrow> ns_op \<Rightarrow> batch_op" where
  "ns_batch_op E key (NS_Add n) = Put (bytes_of (key n)) (ser_Namespace E n)"
| "ns_batch_op E key (NS_Remove n) = Delete (bytes_of (key n))"

fun apply_ns_op ::
  "(proto_Namespace \<Rightarrow> string) \<Rightarrow> (string \<Rightarrow> proto_Namespace option) \<Rightarrow> ns_op \<Rightarrow>
   (string \<Rightarrow> proto_Namespace option)" where
  "apply_ns_op key m (NS_Add n) = m(key n \<mapsto> n)"
| "apply_ns_op key m (NS_Remove n) = m(key n := None)"

fun ns_op_ns :: "ns_op \<Rightarrow> proto_Namespace" where
  "ns_op_ns (NS_Add n) = n"
| "ns_op_ns (NS_Remove n) = n"

lemma bytes_of_inject [simp]: "bytes_of a = bytes_of b \<longleftrightarrow> a = b"
  by (metis text_of_bytes_of)

lemma option_eqI_Some: "(\<And>v. a = Some v \<longleftrightarrow> b = Some v) \<Longrightarrow> a = b"
  by (cases a; cases b) auto

context key_order
begin

lemma map_of_apply_op:
  assumes "fst ` set es \<subseteq> keys" and "op_key op \<in> keys" and "sorted_entries c es"
  shows "map_of (apply_op c es op) =
    (case op of Put k v \<Rightarrow> (map_of es)(k \<mapsto> v) | Delete k \<Rightarrow> (map_of es)(k := None))"
proof (rule ext)
  fix x
  note keeps = apply_op_keeps [OF assms]
  have d: "distinct (map fst es)" "distinct (map fst (apply_op c es op))"
    using sorted_entries_distinct assms(1,3) keeps(1,2) by blast+
  have "map_of (apply_op c es op) x = Some y \<longleftrightarrow> (x, y) \<in> apply_op_set (set es) op" for y
    using map_of_eq_Some_iff [OF d(2)] keeps(3) by simp
  then show "map_of (apply_op c es op) x =
      (case op of Put k v \<Rightarrow> (map_of es)(k \<mapsto> v) | Delete k \<Rightarrow> (map_of es)(k := None)) x"
    by (intro option_eqI_Some) (cases op; auto simp: map_of_eq_Some_iff [OF d(1)])
qed

end

context store
begin

interpretation ns_order: key_order "slice_compare E" UNIV
  by (rule slice_order)

lemma parse_ser_ns: "ns_ok A n \<Longrightarrow> snd (parse_Namespace E (ser_Namespace E n)) = n"
  by (simp add: parse_Namespace_ser)

lemma ns_op_effect:
  assumes "ns_entries_ok E A key es" and "ns_ok A (ns_op_ns op)"
  shows "ns_entries_ok E A key (apply_op (slice_compare E) es (ns_batch_op E key op))"
    and "ns_find E (apply_op (slice_compare E) es (ns_batch_op E key op)) = apply_ns_op key (ns_find E es) op"
proof -
  have sorted: "sorted_entries (slice_compare E) es" using assms(1) by (simp add: ns_entries_ok_def)
  note keeps = ns_order.apply_op_keeps [OF _ _ sorted, of "ns_batch_op E key op", simplified]
  have "\<forall>e \<in> apply_op_set (set es) (ns_batch_op E key op).
      \<exists>n. ns_ok A n \<and> e = (bytes_of (key n), ser_Namespace E n)"
    using assms by (cases op) (auto simp: ns_entries_ok_def)
  with keeps show "ns_entries_ok E A key (apply_op (slice_compare E) es (ns_batch_op E key op))"
    by (simp add: ns_entries_ok_def)
  show "ns_find E (apply_op (slice_compare E) es (ns_batch_op E key op)) = apply_ns_op key (ns_find E es) op"
    using ns_order.map_of_apply_op [OF _ _ sorted, of "ns_batch_op E key op", simplified] assms(2)
    by (cases op) (auto simp: ns_find_def parse_ser_ns fun_eq_iff simp del: apply_op.simps)
qed

lemma ns_ops_effect:
  assumes "ns_entries_ok E A key es" and "\<forall>op \<in> set ops. ns_ok A (ns_op_ns op)"
  shows "ns_entries_ok E A key (foldl (apply_op (slice_compare E)) es (map (ns_batch_op E key) ops)) \<and>
    ns_find E (foldl (apply_op (slice_compare E)) es (map (ns_batch_op E key) ops)) =
      foldl (apply_ns_op key) (ns_find E es) ops"
  using assms
proof (induction ops arbitrary: es)
  case (Cons op ops)
  then have "ns_ok A (ns_op_ns op)" by simp
  note step = ns_op_effect [OF Cons.prems(1) this]
  show ?case using Cons.IH [OF step(1)] Cons.prems(2) step(2) by (simp del: apply_op.simps)
qed simp

lemma ns_batch_effect:
  assumes "ns_db_ok E A key db" and "\<forall>op \<in> set ops. ns_ok A (ns_op_ns op)"
    and "db_Write E db (map (ns_batch_op E key) ops) = Some db'"
  shows "ns_db_ok E A key db' \<and> ns_lookup E A db' = foldl (apply_ns_op key) (ns_lookup E A db) ops"
  using ns_ops_effect [of key "entries_of A db" ops] assms(1,2) Write [OF assms(3)]
  by (simp add: ns_db_ok_def)

lemma namespaces_written:
  assumes "wf_namespaces E A p" and "\<forall>op \<in> set ops. ns_ok A (ns_op_ns op)" and "written E ws p p'"
    and "map_of ws DB_NS_PREFIX = Some (map (ns_batch_op E ns_prefix) ops)"
    and "map_of ws DB_NS_URL = Some (map (ns_batch_op E ns_uri) ops)"
  shows "wf_namespaces E A p' \<and>
    ns_lookup E A (db_ns_prefix p') = foldl (apply_ns_op ns_prefix) (ns_lookup E A (db_ns_prefix p)) ops \<and>
    ns_lookup E A (db_ns_url p') = foldl (apply_ns_op ns_uri) (ns_lookup E A (db_ns_url p)) ops"
  using ns_batch_effect [of ns_prefix "db_ns_prefix p" ops "db_ns_prefix p'"]
    ns_batch_effect [of ns_uri "db_ns_url p" ops "db_ns_url p'"] assms(1,2)
    assms(3) [unfolded written_def, rule_format, of DB_NS_PREFIX]
    assms(3) [unfolded written_def, rule_format, of DB_NS_URL]
  by (simp add: wf_namespaces_def assms(4,5))

end

subsection \<open>Retrieval of namespaces\<close>

fun ns_usable :: "'it NamespaceIterator \<Rightarrow> bool" where
  "ns_usable (NS_Singleton i) = True"
| "ns_usable NS_Empty = True"
| "ns_usable (NS_LevelDB i) = (\<not> ldb_parsed i)"

fun ns_remaining ::
  "('db, 'it) environment \<Rightarrow> ('db, 'it) view \<Rightarrow> 'it NamespaceIterator \<Rightarrow> proto_Namespace list" where
  "ns_remaining E A (NS_Singleton i) = singleton_remaining i"
| "ns_remaining E A NS_Empty = []"
| "ns_remaining E A (NS_LevelDB i) = ldb_remaining A (parse_Namespace E) i"

sublocale leveldb_contract \<subseteq> ns_iterator:
  closeable_iterator "NamespaceIterator_class E" ns_usable "ns_remaining E A"
proof unfold_locales
  fix it :: "'it NamespaceIterator" and x xs
  assume ok: "ns_usable it"
  show "it_hasNext (NamespaceIterator_class E) it \<longleftrightarrow> ns_remaining E A it \<noteq> []"
    using ok by (cases it) (simp_all add: NamespaceIterator_class_def singleton_iterator.hasNext
        empty_iterator.hasNext db_iterator.hasNext)
  assume rest: "ns_remaining E A it = x # xs"
  show "\<exists>it'. it_deref (NamespaceIterator_class E) it = Inr (x, it') \<and> ns_usable it' \<and>
      ns_remaining E A it' = x # xs"
  proof (cases it)
    case (NS_Singleton i)
    then show ?thesis using rest singleton_iterator.deref [of i x xs]
      by (auto simp: NamespaceIterator_class_def)
  next
    case (NS_LevelDB i)
    then show ?thesis using ok rest db_iterator.deref [of i "parse_Namespace E" x xs]
      by (auto simp: NamespaceIterator_class_def)
  qed (use rest in simp)
  show "ns_usable (it_inc (NamespaceIterator_class E) it) \<and>
      ns_remaining E A (it_inc (NamespaceIterator_class E) it) = xs"
    using ok rest singleton_iterator.inc [of _ x xs] db_iterator.inc [of _ "parse_Namespace E" x xs]
    by (cases it) (simp_all add: NamespaceIterator_class_def)
qed

definition ns_result ::
  "('db, 'it) environment \<Rightarrow> ('db, 'it) view \<Rightarrow> 'db LevelDBPersistence \<Rightarrow> proto_Namespace \<Rightarrow>
   proto_Namespace list" where
  "ns_result E A p pattern = ns_remaining E A (GetNamespaces_it E p pattern)"

lemma find_map_of: "map_option snd (find (\<lambda>e. fst e = k) es) = map_of es k"
  by (induction es) auto

context store
begin

lemma ns_db_Get:
  assumes "ns_db_ok E A key db"
  shows "map_option (\<lambda>v. snd (parse_Namespace E v)) (db_Get E db (bytes_of k)) = ns_lookup E A db k"
  using assms find_map_of [of "bytes_of k" "entries_of A db"]
  by (simp add: Get ns_db_ok_def slice_zero ns_find_def)

lemma ns_entries_range:
  assumes "ns_entries_ok E A key es"
  shows "set (map (\<lambda>e. snd (parse_Namespace E (snd e))) es) = ran (ns_find E es)"
    and "distinct (map (\<lambda>e. snd (parse_Namespace E (snd e))) es)"
proof -
  have d: "distinct (map fst es)"
    using assms key_order.sorted_entries_distinct [OF slice_order] by (auto simp: ns_entries_ok_def)
  have es: "\<exists>n. ns_ok A n \<and> e = (bytes_of (key n), ser_Namespace E n)" if "e \<in> set es" for e
    using assms that by (simp add: ns_entries_ok_def)
  have find: "ns_find E es k = Some n \<longleftrightarrow> (\<exists>v. (bytes_of k, v) \<in> set es \<and> n = snd (parse_Namespace E v))" for k n
    using map_of_eq_Some_iff [OF d] by (auto simp: ns_find_def)
  show "set (map (\<lambda>e. snd (parse_Namespace E (snd e))) es) = ran (ns_find E es)"
    using es by (force simp: ran_def find)
  have "fst e = bytes_of (key (snd (parse_Namespace E (snd e))))" if "e \<in> set es" for e
    using es [OF that] parse_Namespace_ser by auto
  then have "map fst es = map (\<lambda>n. bytes_of (key n)) (map (\<lambda>e. snd (parse_Namespace E (snd e))) es)" by simp
  with d show "distinct (map (\<lambda>e. snd (parse_Namespace E (snd e))) es)"
    by (metis distinct_map)
qed

lemma ns_result_cases:
  assumes "wf_namespaces E A p"
  shows "ns_prefix pattern \<noteq> '''' \<Longrightarrow>
      ns_result E A p pattern = (case ns_lookup E A (db_ns_prefix p) (ns_prefix pattern) of None \<Rightarrow> [] | Some n \<Rightarrow> [n])"
    and "ns_prefix pattern = '''' \<Longrightarrow> ns_uri pattern \<noteq> '''' \<Longrightarrow>
      ns_result E A p pattern = (case ns_lookup E A (db_ns_url p) (ns_uri pattern) of None \<Rightarrow> [] | Some n \<Rightarrow> [n])"
    and "ns_prefix pattern = '''' \<Longrightarrow> ns_uri pattern = '''' \<Longrightarrow>
      ns_result E A p pattern = map (\<lambda>e. snd (parse_Namespace E (snd e))) (entries_of A (db_ns_prefix p))"
  using ns_db_Get [of ns_prefix "db_ns_prefix p" "ns_prefix pattern", symmetric]
    ns_db_Get [of ns_uri "db_ns_url p" "ns_uri pattern", symmetric] assms
  by (auto simp: wf_namespaces_def ns_result_def GetNamespaces_it_def Let_def SingletonIterator_new_def
      singleton_remaining_def LevelDBIterator_new_def ldb_remaining_def SeekToFirst NewIterator
      split: option.split)

lemma GetNamespaces_result:
  "GetNamespaces E p pattern cb s = exec_return (callback_foldl cb s (ns_result E A p pattern))"
proof -
  have "ns_usable (GetNamespaces_it E p pattern)"
    by (auto simp: GetNamespaces_it_def Let_def LevelDBIterator_new_def split: option.split)
  then show ?thesis
    by (simp add: GetNamespaces_def ns_iterator.for_callback_remaining ns_result_def)
qed

end

text \<open>
  Looking up namespaces. A pattern with a prefix reports the namespace stored under the prefix
  (whatever its URI field says), one with only a URI the namespace stored under the URI, and the
  empty pattern reports every namespace stored under a prefix, each once.
\<close>

theorem GetNamespaces_exact:
  assumes "store E A" and "wf_namespaces E A p"
  shows "\<exists>ns. (\<forall>cb s :: 's. GetNamespaces E p pattern cb s = exec_return (callback_foldl cb s ns)) \<and>
    (if ns_prefix pattern \<noteq> '''' then
       ns = (case ns_lookup E A (db_ns_prefix p) (ns_prefix pattern) of None \<Rightarrow> [] | Some n \<Rightarrow> [n])
     else if ns_uri pattern \<noteq> '''' then
       ns = (case ns_lookup E A (db_ns_url p) (ns_uri pattern) of None \<Rightarrow> [] | Some n \<Rightarrow> [n])
     else set ns = ran (ns_lookup E A (db_ns_prefix p)) \<and> distinct ns)"
proof (intro exI [of _ "ns_result E A p pattern"] conjI allI)
  have "ns_entries_ok E A ns_prefix (entries_of A (db_ns_prefix p))"
    using assms(2) by (simp add: wf_namespaces_def ns_db_ok_def)
  then show "if ns_prefix pattern \<noteq> '''' then
       ns_result E A p pattern = (case ns_lookup E A (db_ns_prefix p) (ns_prefix pattern) of None \<Rightarrow> [] | Some n \<Rightarrow> [n])
     else if ns_uri pattern \<noteq> '''' then
       ns_result E A p pattern = (case ns_lookup E A (db_ns_url p) (ns_uri pattern) of None \<Rightarrow> [] | Some n \<Rightarrow> [n])
     else set (ns_result E A p pattern) = ran (ns_lookup E A (db_ns_prefix p)) \<and> distinct (ns_result E A p pattern)"
    using store.ns_result_cases [OF assms, of pattern] store.ns_entries_range [OF assms(1)] by simp
qed (rule store.GetNamespaces_result [OF assms(1)])

lemma empty_store_namespaces [simp]:
  "wf_namespaces (list_environment x) list_view empty_store"
  "ns_lookup (list_environment x) list_view (db_ns_prefix empty_store) = (\<lambda>_. None)"
  "ns_lookup (list_environment x) list_view (db_ns_url empty_store) = (\<lambda>_. None)"
  by (simp_all add: wf_namespaces_def ns_db_ok_def ns_entries_ok_def list_view_def list_environment_def
      empty_store_def ns_find_def fun_eq_iff)

theorem GetNamespaces_exact_witness:
  "\<exists>ns. (\<forall>cb s :: int. GetNamespaces (list_environment True) empty_store Namespace_default cb s =
      exec_return (callback_foldl cb s ns)) \<and> ns = []"
  using GetNamespaces_exact [where 's = int, OF list_store.store_axioms [of True] empty_store_namespaces(1),
      of Namespace_default]
  by (simp add: Namespace_default_def)

subsection \<open>Adding namespaces\<close>

definition ns_batches_of :: "('db, 'it) environment \<Rightarrow> ns_op list \<Rightarrow> namespace_batches" where
  "ns_batches_of E ops =
     \<lparr>batch_prefix = map (ns_batch_op E ns_prefix) ops, batch_url = map (ns_batch_op E ns_uri) ops\<rparr>"

definition namespace_writers :: "namespace_batches \<Rightarrow> writer list" where
  "namespace_writers b = [(DB_NS_PREFIX, batch_prefix b), (DB_NS_URL, batch_url b)]"

lemma AddNamespace_batches: "AddNamespace E n (ns_batches_of E ops) = ns_batches_of E (ops @ [NS_Add n])"
  by (simp add: AddNamespace_def Let_def ns_batches_of_def)

lemma AddNamespace_foldl:
  "foldl (\<lambda>(b, n) x. (AddNamespace E x b, n + 1)) (ns_batches_of E ops, n :: int) ns =
     (ns_batches_of E (ops @ map NS_Add ns), n + int (length ns))"
  by (induction ns arbitrary: ops n) (simp_all add: AddNamespace_batches)

lemma AddNamespaces_result:
  assumes "store E A" and "closeable_iterator V usable remaining" and "usable it"
    and "wf_namespaces E A p" and "\<forall>n \<in> set (remaining it). ns_ok A n"
  shows "if writes_ok E (namespace_writers (ns_batches_of E (map NS_Add (remaining it)))) p
    then \<exists>p'. AddNamespaces E V it p = exec_return (int (length (remaining it)), p') \<and>
      wf_namespaces E A p' \<and> stored E A p' = stored E A p \<and> (wf_statements E A p' \<longleftrightarrow> wf_statements E A p) \<and>
      ns_lookup E A (db_ns_prefix p') =
        foldl (\<lambda>m n. m(ns_prefix n \<mapsto> n)) (ns_lookup E A (db_ns_prefix p)) (remaining it) \<and>
      ns_lookup E A (db_ns_url p') =
        foldl (\<lambda>m n. m(ns_uri n \<mapsto> n)) (ns_lookup E A (db_ns_url p)) (remaining it)
    else AddNamespaces E V it p = exec_throw CheckFailed"
proof -
  let ?ops = "map NS_Add (remaining it)" and ?ws = "namespace_writers (ns_batches_of E (map NS_Add (remaining it)))"
  have step: "(\<lambda>(b, n) x. exec_return (AddNamespace E x b, n + 1)) =
      (\<lambda>y x. exec_return ((\<lambda>(b, n :: int) x. (AddNamespace E x b, n + 1)) y x))" by auto
  have new: "namespace_batches_new = ns_batches_of E []"
    by (simp add: namespace_batches_new_def ns_batches_of_def)
  have loop: "for_each V (\<lambda>(b, n :: int) x. exec_return (AddNamespace E x b, n + 1)) it (namespace_batches_new, 0) =
      exec_return (ns_batches_of E ?ops, int (length (remaining it)))"
    unfolding closeable_iterator.for_each_remaining [OF assms(2,3)] step exec_foldl_return new
    using AddNamespace_foldl [of E "[]" 0 "remaining it"] by simp
  have ok: "\<forall>op \<in> set ?ops. ns_ok A (ns_op_ns op)" using assms(5) by auto
  have fold: "foldl (apply_ns_op key) m ?ops = foldl (\<lambda>m n. m(key n \<mapsto> n)) m (remaining it)" for key m
    by (simp add: foldl_map)
  have "wf_namespaces E A p' \<and> stored E A p' = stored E A p \<and> (wf_statements E A p' \<longleftrightarrow> wf_statements E A p) \<and>
      ns_lookup E A (db_ns_prefix p') = foldl (\<lambda>m n. m(ns_prefix n \<mapsto> n)) (ns_lookup E A (db_ns_prefix p)) (remaining it) \<and>
      ns_lookup E A (db_ns_url p') = foldl (\<lambda>m n. m(ns_uri n \<mapsto> n)) (ns_lookup E A (db_ns_url p)) (remaining it)"
    if w: "written E ?ws p p'" for p'
  proof -
    have same: "index_db t p' = index_db t p" for t
      using w [unfolded written_def, rule_format, of "index_name t"] by (cases t) (simp_all add: namespace_writers_def)
    have "db_spoc p' = db_spoc p" using same [of SPOC] by simp
    then have stored: "stored E A p' = stored E A p" by (simp add: stored_def)
    show ?thesis
      using store.namespaces_written [OF assms(1,4) ok w] stored
      by (simp add: namespace_writers_def ns_batches_of_def fold wf_statements_def same)
  qed
  moreover have "distinct (map fst ?ws)" by (simp add: namespace_writers_def)
  ultimately show ?thesis
    using run_writers_result [of ?ws E p]
    by (auto simp: AddNamespaces_def loop namespace_writers_def split: if_splits)
qed

text \<open>
  Adding namespaces. When both writes succeed \<open>AddNamespaces\<close> returns the number of
  namespaces read, and each of them is stored under its prefix and under its URI, the last one
  winning where several share a key. The statements are untouched.
\<close>

theorem AddNamespaces_effect:
  assumes "store E A" and "closeable_iterator V usable remaining" and "usable it"
    and "wf_namespaces E A p" and "\<forall>n \<in> set (remaining it). ns_ok A n"
  shows "if writes_ok E (namespace_writers (ns_batches_of E (map NS_Add (remaining it)))) p
    then \<exists>p'. AddNamespaces E V it p = exec_return (int (length (remaining it)), p') \<and>
      wf_namespaces E A p' \<and> stored E A p' = stored E A p \<and> (wf_statements E A p' \<longleftrightarrow> wf_statements E A p) \<and>
      ns_lookup E A (db_ns_prefix p') =
        foldl (\<lambda>m n. m(ns_prefix n \<mapsto> n)) (ns_lookup E A (db_ns_prefix p)) (remaining it) \<and>
      ns_lookup E A (db_ns_url p') =
        foldl (\<lambda>m n. m(ns_uri n \<mapsto> n)) (ns_lookup E A (db_ns_url p)) (remaining it)
    else AddNamespaces E V it p = exec_throw CheckFailed"
  by (rule AddNamespaces_result [OF assms])

definition example_namespace :: proto_Namespace where
  "example_namespace = Namespace_new ''foaf'' ''http://xmlns.com/foaf/0.1/''"

theorem AddNamespaces_effect_witness:
  "\<exists>p'. AddNamespaces (list_environment True) SingletonIterator (SingletonIterator_new example_namespace) empty_store =
      exec_return (1, p') \<and>
    ns_lookup (list_environment True) list_view (db_ns_prefix p') ''foaf'' = Some example_namespace"
  using AddNamespaces_effect [OF list_store.store_axioms [of True] singleton_iterator.closeable_iterator_axioms,
      where it = "SingletonIterator_new example_namespace" and p = empty_store]
  by (auto simp: singleton_remaining_def SingletonIterator_new_def)
    (simp add: example_namespace_def Namespace_new_def Namespace_default_def)

text \<open>
  Binding a prefix to a new URI leaves the old URI in place. After adding a namespace, every
  other URI still finds the namespace it found before, also when that namespace had the prefix
  that has just been bound anew: the two databases then disagree.
\<close>

theorem AddNamespaces_keeps_old_url:
  assumes "store E A" and "closeable_iterator V usable remaining" and "usable it"
    and "wf_namespaces E A p" and "remaining it = [Namespace_new prefix new_uri]"
    and "ns_ok A (Namespace_new prefix new_uri)"
    and "ns_lookup E A (db_ns_url p) old_uri = Some (Namespace_new prefix old_uri)" and "old_uri \<noteq> new_uri"
    and "AddNamespaces E V it p = exec_return (n, p')"
  shows "ns_lookup E A (db_ns_prefix p') prefix = Some (Namespace_new prefix new_uri) \<and>
    ns_lookup E A (db_ns_url p') old_uri = Some (Namespace_new prefix old_uri)"
  using AddNamespaces_result [OF assms(1-4)] assms(5-9)
  by (auto simp: Namespace_new_def Namespace_default_def exec_return_def exec_throw_def split: if_splits)

definition one_namespace_store :: "proto_Namespace \<Rightarrow> list_db LevelDBPersistence" where
  "one_namespace_store n =
     empty_store\<lparr>db_ns_prefix := (bytes_compare, [(bytes_of (ns_prefix n), wire_Namespace n)]),
       db_ns_url := (bytes_compare, [(bytes_of (ns_uri n), wire_Namespace n)])\<rparr>"

lemma one_namespace_store_wf [simp]:
  "wf_namespaces (list_environment x) list_view (one_namespace_store n)"
  "ns_lookup (list_environment x) list_view (db_ns_prefix (one_namespace_store n)) = [ns_prefix n \<mapsto> n]"
  "ns_lookup (list_environment x) list_view (db_ns_url (one_namespace_store n)) = [ns_uri n \<mapsto> n]"
  by (auto simp: wf_namespaces_def ns_db_ok_def ns_entries_ok_def list_view_def list_environment_def
      one_namespace_store_def empty_store_def ns_find_def fun_eq_iff parse_with_def)

theorem AddNamespaces_keeps_old_url_witness:
  "\<exists>n p'. AddNamespaces (list_environment True) SingletonIterator
      (SingletonIterator_new (Namespace_new ''a'' ''http://new'')) (one_namespace_store (Namespace_new ''a'' ''http://old'')) =
      exec_return (n, p') \<and>
    ns_lookup (list_environment True) list_view (db_ns_url p') ''http://old'' = Some (Namespace_new ''a'' ''http://old'')"
proof -
  let ?it = "SingletonIterator_new (Namespace_new ''a'' ''http://new'')"
    and ?p = "one_namespace_store (Namespace_new ''a'' ''http://old'')"
  note it = list_store.store_axioms [of True] singleton_iterator.closeable_iterator_axioms
  have rest: "singleton_remaining ?it = [Namespace_new ''a'' ''http://new'']"
    by (simp add: singleton_remaining_def SingletonIterator_new_def)
  obtain n p' where run: "AddNamespaces (list_environment True) SingletonIterator ?it ?p = exec_return (n, p')"
    using AddNamespaces_result [OF it, where it = ?it and p = ?p] by auto
  have "ns_lookup (list_environment True) list_view (db_ns_url ?p) ''http://old'' = Some (Namespace_new ''a'' ''http://old'')"
    by (simp add: Namespace_new_def)
  from AddNamespaces_keeps_old_url [OF it _ _ rest _ this _ run] run show ?thesis by auto
qed

end
