(* ===== verification/Grpc.thy ===== *)
theory Grpc
  imports Util
begin

text \<open>
  The streams of gRPC as the services use them, and the iterator over a request stream at the top
  of \<open>persistence/leveldb_service.cc\<close>.

  gRPC is not part of the sources. A \<open>ServerReader\<close> is the list of the messages that are still
  to be delivered before \<open>Read\<close> returns false; a \<open>ServerWriter\<close> is any state with a \<open>Write\<close>
  that returns whether the stream is still open.
\<close>

type_synonym 'm ServerReader = "'m list"
type_synonym ('w, 'm) ServerWriter = "'w \<Rightarrow> 'm \<Rightarrow> bool \<times> 'w"

datatype Status = Status_OK | Status_NOT_FOUND | Status_error nat

fun Status_ok :: "Status \<Rightarrow> bool" where
  "Status_ok Status_OK = True"
| "Status_ok _ = False"

fun Read :: "'m ServerReader \<Rightarrow> ('m \<times> 'm ServerReader) option" where
  "Read [] = None"
| "Read (m # ms) = Some (m, ms)"

record 'm ReaderIterator =
  ri_reader :: "'m ServerReader"
  ri_buffer :: 'm
  ri_finished :: bool

definition ReaderIterator_inc :: "'m ReaderIterator \<Rightarrow> 'm ReaderIterator" where
  "ReaderIterator_inc it =
     (if \<not> ri_finished it then
        (case Read (ri_reader it) of
           None \<Rightarrow> it\<lparr>ri_finished := True\<rparr>
         | Some (m, r) \<Rightarrow> it\<lparr>ri_reader := r, ri_buffer := m, ri_finished := False\<rparr>)
      else it)"

definition ReaderIterator_new :: "'m \<Rightarrow> 'm ServerReader \<Rightarrow> 'm ReaderIterator" where
  "ReaderIterator_new buffer r =
     ReaderIterator_inc \<lparr>ri_reader = r, ri_buffer = buffer, ri_finished = False\<rparr>"

definition ReaderIterator_class :: "('m ReaderIterator, 'm) CloseableIterator" where
  "ReaderIterator_class =
     \<lparr>it_inc = ReaderIterator_inc,
      it_deref = (\<lambda>it. Inr (ri_buffer it, it)),
      it_hasNext = (\<lambda>it. \<not> ri_finished it)\<rparr>"

definition reader_remaining :: "'m ReaderIterator \<Rightarrow> 'm list" where
  "reader_remaining it = (if ri_finished it then [] else ri_buffer it # ri_reader it)"

interpretation reader_iterator: closeable_iterator ReaderIterator_class "\<lambda>_. True" reader_remaining
  by unfold_locales
    (auto simp: ReaderIterator_class_def reader_remaining_def ReaderIterator_inc_def
      split: if_splits option.split elim: Read.elims)

lemma reader_remaining_new [simp]: "reader_remaining (ReaderIterator_new b r) = r"
  by (cases r) (simp_all add: ReaderIterator_new_def ReaderIterator_inc_def reader_remaining_def)

text \<open>
  The server's loop over a request stream. Over a reader, the iterator loop runs the body once
  for every message of the stream, in order, and returns; it is never asked for an element past
  the end.
\<close>

theorem ReaderIterator_loop:
  "for_each ReaderIterator_class (\<lambda>s m. exec_return (body s m)) (ReaderIterator_new buffer r) s =
     exec_return (foldl body s r)"
  by (simp add: reader_iterator.for_each_remaining exec_foldl_return)

text \<open>A client that reads the whole response stream.\<close>

definition collect :: "('m list, 'm) ServerWriter" where
  "collect w m = (True, w @ [m])"

lemma collect_all: "callback_foldl collect w ss = w @ ss"
  by (induction ss arbitrary: w) (simp_all add: collect_def)

lemma collect_state: "callback_state collect w ss = w @ ss"
  by (induction ss arbitrary: w) (simp_all add: collect_def)

end
