(* ===== verification/Update_Store.thy ===== *)
theory Update_Store
  imports Namespace_Store Grpc
begin

text \<open>
  Batch updates of \<open>LevelDBPersistence\<close>: what \<open>Update\<close> does to the statements and to the
  namespaces, and the statistics it returns.

  The removals of a batch are looked up in the databases as they were before the batch, while the
  operations of the batch are applied in order; the lemmas say what this amounts to.
\<close>

subsection \<open>The operations a request stands for\<close>

fun request_stmt_ops ::
  "('db, 'it) environment \<Rightarrow> ('db, 'it) view \<Rightarrow> 'db LevelDBPersistence \<Rightarrow> UpdateRequest \<Rightarrow> stmt_op list" where
  "request_stmt_ops E A p (stmt_added s) = [Op_Add s]"
| "request_stmt_ops E A p (stmt_removed s) = map Op_Remove (query_result E A p s)"
| "request_stmt_ops E A p _ = []"

fun request_ns_ops ::
  "('db, 'it) environment \<Rightarrow> ('db, 'it) view \<Rightarrow> 'db LevelDBPersistence \<Rightarrow> UpdateRequest \<Rightarrow> ns_op list" where
  "request_ns_ops E A p (ns_added n) = [NS_Add n]"
| "request_ns_ops E A p (ns_removed n) = map NS_Remove (ns_result E A p n)"
| "request_ns_ops E A p _ = []"

fun request_stats ::
  "('db, 'it) environment \<Rightarrow> ('db, 'it) view \<Rightarrow> 'db LevelDBPersistence \<Rightarrow> UpdateStatistics \<Rightarrow>
   UpdateRequest \<Rightarrow> UpdateStatistics" where
  "request_stats E A p st (stmt_added s) = st\<lparr>added_stmts := added_stmts st + 1\<rparr>"
| "request_stats E A p st (stmt_removed s) =
     st\<lparr>removed_stmts := removed_stmts st + int (length (query_result E A p s))\<rparr>"
| "request_stats E A p st (ns_added n) = st\<lparr>added_ns := added_ns st + 1\<rparr>"
| "request_stats E A p st _ = st"

fun request_ok :: "('db, 'it) view \<Rightarrow> UpdateRequest \<Rightarrow> bool" where
  "request_ok A (stmt_added s) = stmt_ok A s"
| "request_ok A (ns_added n) = ns_ok A n"
| "request_ok A _ = True"

lemma RemoveNamespace_batches:
  "(ns_batches_of E ops)\<lparr>batch_prefix := batch_prefix (ns_batches_of E ops) @ [Delete (bytes_of (ns_prefix n))],
     batch_url := batch_url (ns_batches_of E ops) @ [Delete (bytes_of (ns_uri n))]\<rparr> =
   ns_batches_of E (ops @ [NS_Remove n])"
  by (simp add: ns_batches_of_def)

lemma RemoveNamespace_foldl:
  "foldl (\<lambda>b n. b\<lparr>batch_prefix := batch_prefix b @ [Delete (bytes_of (ns_prefix n))],
       batch_url := batch_url b @ [Delete (bytes_of (ns_uri n))]\<rparr>) (ns_batches_of E ops) ns =
     ns_batches_of E (ops @ map NS_Remove ns)"
  by (induction ns arbitrary: ops) (simp_all add: RemoveNamespace_batches)

context store
begin

lemma RemoveNamespace_result:
  "RemoveNamespace E p pattern (ns_batches_of E ops) =
     exec_return (ns_batches_of E (ops @ map NS_Remove (ns_result E A p pattern)))"
  by (simp add: RemoveNamespace_def GetNamespaces_result callback_foldl_always RemoveNamespace_foldl)

lemma Update_request_result:
  "Update_request E p \<lparr>us_stmts = batches_of E so, us_ns = ns_batches_of E no, us_stats = st\<rparr> r =
     exec_return \<lparr>us_stmts = batches_of E (so @ request_stmt_ops E A p r),
       us_ns = ns_batches_of E (no @ request_ns_ops E A p r), us_stats = request_stats E A p st r\<rparr>"
  by (cases r) (simp_all add: AddStatement_batches AddNamespace_batches RemoveStatements_batch_result
      RemoveNamespace_result)

lemma Update_requests_result:
  "exec_foldl (Update_request E p) \<lparr>us_stmts = batches_of E so, us_ns = ns_batches_of E no, us_stats = st\<rparr> rs =
     exec_return \<lparr>us_stmts = batches_of E (so @ concat (map (request_stmt_ops E A p) rs)),
       us_ns = ns_batches_of E (no @ concat (map (request_ns_ops E A p) rs)),
       us_stats = foldl (request_stats E A p) st rs\<rparr>"
  by (induction rs arbitrary: so no st) (simp_all add: Update_request_result)

lemma request_stmt_ops_ok:
  assumes "wf_statements E A p" and "\<forall>r \<in> set rs. request_ok A r"
  shows "\<forall>op \<in> set (concat (map (request_stmt_ops E A p) rs)). stmt_ok A (op_stmt op)"
proof -
  have "\<forall>op \<in> set (request_stmt_ops E A p r). stmt_ok A (op_stmt op)" if "r \<in> set rs" for r
    using assms(2) that assms(1) query_result_set(1) [OF assms(1)]
    by (cases r) (auto simp: wf_statements_def)
  then show ?thesis by auto
qed

lemma request_ns_ops_ok:
  assumes "wf_namespaces E A p" and "\<forall>r \<in> set rs. request_ok A r"
  shows "\<forall>op \<in> set (concat (map (request_ns_ops E A p) rs)). ns_ok A (ns_op_ns op)"
proof -
  have find_ok: "ns_ok A n" if "ns_entries_ok E A key es" "ns_find E es k = Some n" for key es k n
    using that parse_Namespace_ser by (auto simp: ns_entries_ok_def ns_find_def dest!: map_of_SomeD)
  have entries: "ns_entries_ok E A ns_prefix (entries_of A (db_ns_prefix p))"
    "ns_entries_ok E A ns_uri (entries_of A (db_ns_url p))"
    using assms(1) by (simp_all add: wf_namespaces_def ns_db_ok_def)
  have "ns_ok A n" if "n \<in> set (ns_result E A p pattern)" for n pattern
    using that ns_result_cases [OF assms(1), of pattern] find_ok [OF entries(1)] find_ok [OF entries(2)]
      ns_entries_range(1) [OF entries(1)]
    by (cases "ns_prefix pattern = ''''"; cases "ns_uri pattern = ''''")
      (auto simp: ran_def split: option.splits)
  then have "\<forall>op \<in> set (request_ns_ops E A p r). ns_ok A (ns_op_ns op)" if "r \<in> set rs" for r
    using assms(2) that by (cases r) auto
  then show ?thesis by auto
qed

end

abbreviation update_writers :: "statement_batches \<Rightarrow> namespace_batches \<Rightarrow> writer list" where
  "update_writers sb nb \<equiv> statement_writers sb @ [(DB_NS_PREFIX, batch_prefix nb), (DB_NS_URL, batch_url nb)]"

lemma map_of_update_writers:
  "map_of (update_writers (batches_of E so) nb) (index_name t) = Some (map (index_op E t) so)"
  "map_of (update_writers sb (ns_batches_of E no)) DB_NS_PREFIX = Some (map (ns_batch_op E ns_prefix) no)"
  "map_of (update_writers sb (ns_batches_of E no)) DB_NS_URL = Some (map (ns_batch_op E ns_uri) no)"
  "distinct (map fst (update_writers sb nb))"
  by (cases t) (simp_all add: statement_writers_def batches_of_def ns_batches_of_def)

lemma Update_result:
  assumes "store E A" and "closeable_iterator V usable remaining" and "usable it"
    and "wf_statements E A p" and "wf_namespaces E A p" and "\<forall>r \<in> set (remaining it). request_ok A r"
  shows "if writes_ok E (update_writers (batches_of E (concat (map (request_stmt_ops E A p) (remaining it))))
        (ns_batches_of E (concat (map (request_ns_ops E A p) (remaining it))))) p
    then \<exists>p'. Update E V it p =
        exec_return (foldl (request_stats E A p) UpdateStatistics_new (remaining it), p') \<and>
      wf_statements E A p' \<and> wf_namespaces E A p' \<and>
      stored E A p' = foldl (apply_stmt_op E) (stored E A p) (concat (map (request_stmt_ops E A p) (remaining it))) \<and>
      ns_lookup E A (db_ns_prefix p') =
        foldl (apply_ns_op ns_prefix) (ns_lookup E A (db_ns_prefix p)) (concat (map (request_ns_ops E A p) (remaining it))) \<and>
      ns_lookup E A (db_ns_url p') =
        foldl (apply_ns_op ns_uri) (ns_lookup E A (db_ns_url p)) (concat (map (request_ns_ops E A p) (remaining it)))
    else Update E V it p = exec_throw CheckFailed"
proof -
  define rs where "rs = remaining it"
  let ?so = "concat (map (request_stmt_ops E A p) rs)" and ?no = "concat (map (request_ns_ops E A p) rs)"
  let ?ws = "update_writers (batches_of E ?so) (ns_batches_of E ?no)"
  have new: "update_state_new = \<lparr>us_stmts = batches_of E [], us_ns = ns_batches_of E [], us_stats = UpdateStatistics_new\<rparr>"
    by (simp add: update_state_new_def batches_new [of E] ns_batches_of_def namespace_batches_new_def)
  have loop: "for_each V (Update_request E p) it update_state_new =
      exec_return \<lparr>us_stmts = batches_of E ?so, us_ns = ns_batches_of E ?no,
        us_stats = foldl (request_stats E A p) UpdateStatistics_new rs\<rparr>"
    using store.Update_requests_result [OF assms(1), of p "[]" "[]" UpdateStatistics_new rs]
    unfolding new closeable_iterator.for_each_remaining [OF assms(2,3)] rs_def by simp
  have ok: "\<forall>r \<in> set rs. request_ok A r" using assms(6) by (simp add: rs_def)
  note statements = store.statements_written [OF assms(1,4) store.request_stmt_ops_ok [OF assms(1,4) ok]
      _ map_of_update_writers(1)]
  note namespaces = store.namespaces_written [OF assms(1,5) store.request_ns_ops_ok [OF assms(1,5) ok]
      _ map_of_update_writers(2,3)]
  show ?thesis
    using run_writers_result [OF map_of_update_writers(4), of E "batches_of E ?so" "ns_batches_of E ?no" p]
      statements namespaces
    unfolding rs_def [symmetric] by (auto simp: Update_def loop split: if_splits)
qed

text \<open>
  C4: what a batch update does. When the writes succeed, the statements are the old ones with the
  operations of the batch applied in order, an addition replacing the statements with the same
  hashes, and a removal deleting the statements that its pattern reported on the store as it was
  before the batch; likewise the namespaces under both keys. The invariants are kept, and the
  statistics add up the requests.
\<close>

theorem Update_effect:
  assumes "store E A" and "closeable_iterator V usable remaining" and "usable it"
    and "wf_statements E A p" and "wf_namespaces E A p" and "\<forall>r \<in> set (remaining it). request_ok A r"
  shows "if writes_ok E (update_writers (batches_of E (concat (map (request_stmt_ops E A p) (remaining it))))
        (ns_batches_of E (concat (map (request_ns_ops E A p) (remaining it))))) p
    then \<exists>p'. Update E V it p =
        exec_return (foldl (request_stats E A p) UpdateStatistics_new (remaining it), p') \<and>
      wf_statements E A p' \<and> wf_namespaces E A p' \<and>
      stored E A p' = foldl (apply_stmt_op E) (stored E A p) (concat (map (request_stmt_ops E A p) (remaining it))) \<and>
      ns_lookup E A (db_ns_prefix p') =
        foldl (apply_ns_op ns_prefix) (ns_lookup E A (db_ns_prefix p)) (concat (map (request_ns_ops E A p) (remaining it))) \<and>
      ns_lookup E A (db_ns_url p') =
        foldl (apply_ns_op ns_uri) (ns_lookup E A (db_ns_url p)) (concat (map (request_ns_ops E A p) (remaining it)))
    else Update E V it p = exec_throw CheckFailed"
  by (rule Update_result [OF assms])

theorem Update_effect_witness:
  "\<exists>p'. Update (list_environment True) ReaderIterator_class
      (ReaderIterator_new Update_none [stmt_removed Statement_default, stmt_added example_statement, ns_added example_namespace])
      empty_store =
      exec_return (\<lparr>added_stmts = 1, removed_stmts = 0, added_ns = 1, removed_ns = 0\<rparr>, p') \<and>
    stored (list_environment True) list_view p' = {example_statement}"
proof -
  have "query_result (list_environment True) list_view empty_store Statement_default = []"
    using list_store.query_result_set(1) [OF empty_store_wf(1), of True Statement_default] by simp
  then show ?thesis
    using Update_effect [OF list_store.store_axioms [of True] reader_iterator.closeable_iterator_axioms,
        where it = "ReaderIterator_new Update_none
          [stmt_removed Statement_default, stmt_added example_statement, ns_added example_namespace]"
          and p = empty_store]
    by (auto simp: UpdateStatistics_new_def)
qed

lemma request_stats_sums:
  assumes "store E A" and "wf_statements E A p"
  shows "added_stmts (foldl (request_stats E A p) st rs) = added_stmts st + int (length [r \<leftarrow> rs. \<exists>s. r = stmt_added s]) \<and>
    added_ns (foldl (request_stats E A p) st rs) = added_ns st + int (length [r \<leftarrow> rs. \<exists>n. r = ns_added n]) \<and>
    removed_stmts (foldl (request_stats E A p) st rs) = removed_stmts st + (\<Sum>r \<leftarrow> rs. case r of
       stmt_removed s \<Rightarrow> int (card {u \<in> stored E A p. hash_matches E (effective s) u}) | _ \<Rightarrow> 0) \<and>
    removed_ns (foldl (request_stats E A p) st rs) = removed_ns st"
proof (induction rs arbitrary: st)
  case (Cons r rs)
  then show ?case by (cases r) (simp_all add: store.query_result_set(3) [OF assms])
qed simp

text \<open>
  The statistics of a batch update: the numbers of statements and of namespaces added, and the
  sum of the numbers of statements the removal patterns reported before the batch. The number of
  namespaces removed is always reported as zero.
\<close>

theorem Update_statistics:
  assumes "store E A" and "closeable_iterator V usable remaining" and "usable it"
    and "wf_statements E A p" and "wf_namespaces E A p" and "\<forall>r \<in> set (remaining it). request_ok A r"
    and "Update E V it p = exec_return (st, p')"
  shows "added_stmts st = int (length [r \<leftarrow> remaining it. \<exists>s. r = stmt_added s]) \<and>
    added_ns st = int (length [r \<leftarrow> remaining it. \<exists>n. r = ns_added n]) \<and>
    removed_stmts st = (\<Sum>r \<leftarrow> remaining it. case r of
       stmt_removed s \<Rightarrow> int (card {u \<in> stored E A p. hash_matches E (effective s) u}) | _ \<Rightarrow> 0) \<and>
    removed_ns st = 0"
proof -
  have "st = foldl (request_stats E A p) UpdateStatistics_new (remaining it)"
    using Update_result [OF assms(1-6)] assms(7)
    by (auto simp: exec_return_def exec_throw_def split: if_splits)
  then show ?thesis
    using request_stats_sums [OF assms(1,4), of UpdateStatistics_new "remaining it"]
    by (simp add: UpdateStatistics_new_def)
qed

theorem Update_statistics_witness:
  "\<exists>st p'. Update (list_environment True) ReaderIterator_class
      (ReaderIterator_new Update_none [stmt_added example_statement, ns_removed example_namespace, stmt_added example_statement])
      empty_store = exec_return (st, p') \<and> added_stmts st = 2 \<and> removed_ns st = 0"
proof -
  let ?it = "ReaderIterator_new Update_none
      [stmt_added example_statement, ns_removed example_namespace, stmt_added example_statement]"
  note it = list_store.store_axioms [of True] reader_iterator.closeable_iterator_axioms
  obtain st p' where run: "Update (list_environment True) ReaderIterator_class ?it empty_store = exec_return (st, p')"
    using Update_result [OF it, where it = ?it and p = empty_store] by auto
  from Update_statistics [OF it _ _ _ _ run] run show ?thesis by simp
qed

text \<open>
  A removal does not see the additions before it. A batch that adds a statement to a store
  without statements and then removes everything leaves the statement stored, and reports that
  nothing was removed, although updates are documented to be applied in order.
\<close>

theorem Update_remove_misses_added:
  assumes "store E A" and "closeable_iterator V usable remaining" and "usable it"
    and "wf_statements E A p" and "wf_namespaces E A p" and "stored E A p = {}"
    and "remaining it = [stmt_added s, stmt_removed Statement_default]" and "stmt_ok A s"
    and "Update E V it p = exec_return (st, p')"
  shows "stored E A p' = {s} \<and> removed_stmts st = 0"
proof -
  have "\<forall>r \<in> set (remaining it). request_ok A r" using assms(7,8) by simp
  note result = Update_result [OF assms(1-5) this]
  have "query_result E A p Statement_default = []"
    using store.query_result_set(1) [OF assms(1,4)] assms(6) by auto
  then show ?thesis
    using result assms(6,7,9)
    by (auto simp: exec_return_def exec_throw_def UpdateStatistics_new_def split: if_splits)
qed

theorem Update_remove_misses_added_witness:
  "\<exists>st p'. Update (list_environment True) ReaderIterator_class
      (ReaderIterator_new Update_none [stmt_added example_statement, stmt_removed Statement_default]) empty_store =
      exec_return (st, p') \<and>
    stored (list_environment True) list_view p' = {example_statement} \<and> removed_stmts st = 0"
proof -
  let ?it = "ReaderIterator_new Update_none [stmt_added example_statement, stmt_removed Statement_default]"
  note it = list_store.store_axioms [of True] reader_iterator.closeable_iterator_axioms
  obtain st p' where run: "Update (list_environment True) ReaderIterator_class ?it empty_store = exec_return (st, p')"
    using Update_result [OF it, where it = ?it and p = empty_store] by auto
  from Update_remove_misses_added [OF it _ _ _ _ _ _ run, where s = example_statement] run
  show ?thesis by simp
qed

end
