(* ===== verification/Service.thy ===== *)
theory Service
  imports Update_Store
begin

text \<open>
  \<open>persistence/leveldb_service.cc\<close>: the handlers of the gRPC service \<open>SailService\<close> over one
  \<open>LevelDBPersistence\<close>.

  A handler takes the persistence as the state, the request (a message or a stream) and, for a
  streamed response, the writer; it returns the status with the response, the new state of the
  persistence when it may change, and the new state of the writer. The iteration order of
  \<open>std::unordered_set\<close> and \<open>std::hash<std::string>\<close> are arguments.
\<close>

subsection \<open>Namespaces\<close>

definition Service_AddNamespaces ::
  "('db, 'it) environment \<Rightarrow> proto_Namespace ServerReader \<Rightarrow> 'db LevelDBPersistence \<Rightarrow>
   ((Status \<times> int) \<times> 'db LevelDBPersistence) exec" where
  "Service_AddNamespaces E reader p =
     exec_bind (AddNamespaces E ReaderIterator_class (ReaderIterator_new Namespace_default reader) p)
       (\<lambda>(count, p). exec_return ((Status_OK, count), p))"

text \<open>The response message arrives default-initialised and is overwritten by every result.\<close>

definition Service_GetNamespace ::
  "('db, 'it) environment \<Rightarrow> 'db LevelDBPersistence \<Rightarrow> proto_Namespace \<Rightarrow> proto_Namespace \<Rightarrow>
   (Status \<times> proto_Namespace) exec" where
  "Service_GetNamespace E p pattern result =
     GetNamespaces E p pattern (\<lambda>(status, result) r. (True, (Status_OK, r))) (Status_NOT_FOUND, result)"

definition Service_GetNamespaces ::
  "('db, 'it) environment \<Rightarrow> 'db LevelDBPersistence \<Rightarrow> ('w, proto_Namespace) ServerWriter \<Rightarrow> 'w \<Rightarrow>
   (Status \<times> 'w) exec" where
  "Service_GetNamespaces E p Write w =
     exec_bind (GetNamespaces E p Namespace_default Write w) (\<lambda>w. exec_return (Status_OK, w))"

subsection \<open>Statements\<close>

definition Service_AddStatements ::
  "('db, 'it) environment \<Rightarrow> proto_Statement ServerReader \<Rightarrow> 'db LevelDBPersistence \<Rightarrow>
   ((Status \<times> int) \<times> 'db LevelDBPersistence) exec" where
  "Service_AddStatements E reader p =
     exec_bind (AddStatements E ReaderIterator_class (ReaderIterator_new Statement_default reader) p)
       (\<lambda>(count, p). exec_return ((Status_OK, count), p))"

definition Service_GetStatements ::
  "('db, 'it) environment \<Rightarrow> 'db LevelDBPersistence \<Rightarrow> proto_Statement \<Rightarrow>
   ('w, proto_Statement) ServerWriter \<Rightarrow> 'w \<Rightarrow> (Status \<times> 'w) exec" where
  "Service_GetStatements E p pattern Write w =
     exec_bind (GetStatements E p pattern Write w) (\<lambda>w. exec_return (Status_OK, w))"

definition Service_RemoveStatements ::
  "('db, 'it) environment \<Rightarrow> proto_Statement \<Rightarrow> 'db LevelDBPersistence \<Rightarrow>
   ((Status \<times> int) \<times> 'db LevelDBPersistence) exec" where
  "Service_RemoveStatements E pattern p =
     exec_bind (RemoveStatements E pattern p) (\<lambda>(count, p). exec_return ((Status_OK, count), p))"

fun Clear_loop ::
  "('db, 'it) environment \<Rightarrow> proto_Resource list \<Rightarrow> proto_Statement \<Rightarrow> int \<Rightarrow> 'db LevelDBPersistence \<Rightarrow>
   (int \<times> 'db LevelDBPersistence) exec" where
  "Clear_loop E [] pattern count p = exec_return (count, p)"
| "Clear_loop E (r # rs) pattern count p =
     (let pattern = pattern\<lparr>st_context := Some r\<rparr>
      in exec_bind (RemoveStatements E pattern p) (\<lambda>(n, p). Clear_loop E rs pattern (count + n) p))"

definition Service_Clear ::
  "('db, 'it) environment \<Rightarrow> proto_Resource list \<Rightarrow> 'db LevelDBPersistence \<Rightarrow>
   ((Status \<times> int) \<times> 'db LevelDBPersistence) exec" where
  "Service_Clear E contexts p =
     exec_bind
       (if 0 < length contexts then Clear_loop E contexts Statement_default 0 p
        else exec_bind (RemoveStatements E Statement_default p) (\<lambda>(n, p). exec_return (0 + n, p)))
       (\<lambda>(count, p). exec_return ((Status_OK, count), p))"

fun Size_contexts ::
  "('db, 'it) environment \<Rightarrow> 'db LevelDBPersistence \<Rightarrow> proto_Resource list \<Rightarrow> proto_Statement \<Rightarrow> int \<Rightarrow> int exec" where
  "Size_contexts E p [] pattern count = exec_return count"
| "Size_contexts E p (r # rs) pattern count =
     (let pattern = pattern\<lparr>st_context := Some r\<rparr>
      in exec_bind (GetStatements E p pattern (\<lambda>count stmt. (True, count + 1)) count)
           (\<lambda>count. Size_contexts E p rs pattern count))"

definition Service_Size ::
  "('db, 'it) environment \<Rightarrow> 'db LevelDBPersistence \<Rightarrow> proto_Resource list \<Rightarrow> (Status \<times> int) exec" where
  "Service_Size E p contexts =
     exec_bind
       (if 0 < length contexts then Size_contexts E p contexts Statement_default 0
        else (case Size E p of None \<Rightarrow> None | Some count \<Rightarrow> exec_return count))
       (\<lambda>count. exec_return (Status_OK, count))"

definition Service_GetContexts ::
  "('db, 'it) environment \<Rightarrow> string_hash \<Rightarrow> (proto_Resource list \<Rightarrow> proto_Resource list) \<Rightarrow>
   'db LevelDBPersistence \<Rightarrow> ('w, proto_Resource) ServerWriter \<Rightarrow> 'w \<Rightarrow> (Status \<times> 'w) exec" where
  "Service_GetContexts E std_hash iteration_order p Write w =
     exec_bind
       (GetStatements E p Statement_default
          (\<lambda>contexts stmt.
             (True,
              if has_context stmt
              then unordered_set_insert (hash_Resource std_hash (ser_Resource E)) Resource_eq (context_of stmt) contexts
              else contexts)) [])
       (\<lambda>contexts. exec_return (Status_OK, foldl (\<lambda>w c. snd (Write w c)) w (iteration_order contexts)))"

subsection \<open>Updates\<close>

record UpdateResponse =
  added_statements :: int
  removed_statements :: int
  added_namespaces :: int
  removed_namespaces :: int

definition Service_Update ::
  "('db, 'it) environment \<Rightarrow> UpdateRequest ServerReader \<Rightarrow> 'db LevelDBPersistence \<Rightarrow>
   ((Status \<times> UpdateResponse) \<times> 'db LevelDBPersistence) exec" where
  "Service_Update E reader p =
     exec_bind (Update E ReaderIterator_class (ReaderIterator_new Update_none reader) p)
       (\<lambda>(stats, p). exec_return
          ((Status_OK,
            \<lparr>added_statements = added_stmts stats, removed_statements = removed_stmts stats,
             added_namespaces = added_ns stats, removed_namespaces = removed_ns stats\<rparr>), p))"

subsection \<open>Adding and finding a statement\<close>

text \<open>The pattern that gives every field of a statement.\<close>

definition pattern_of :: "proto_Statement \<Rightarrow> proto_Statement" where
  "pattern_of s =
     \<lparr>st_subject = Some (subject_of s), st_predicate = Some (predicate_of s),
      st_object = Some (object_of s), st_context = Some (context_of s)\<rparr>"

lemma hash_matches_pattern_of [simp]: "hash_matches E (effective (pattern_of s)) u \<longleftrightarrow> same_hashes E s u"
  by (simp add: effective_def pattern_of_def hash_matches_def field_match_def same_hashes_def)

lemma same_hashes_refl [simp]: "same_hashes E s s"
  by (simp add: same_hashes_def)

lemma same_hashes_sym: "same_hashes E s u \<longleftrightarrow> same_hashes E u s"
  by (auto simp: same_hashes_def)

lemma Service_AddStatements_run:
  "Service_AddStatements E r p =
     exec_bind (run_writers E (statement_writers (batches_of E (map Op_Add r))) p)
       (\<lambda>p. exec_return ((Status_OK, int (length r)), p))"
proof -
  have step: "(\<lambda>(b, n) s. exec_return (AddStatement E s b, n + 1)) =
      (\<lambda>x s. exec_return ((\<lambda>(b, n :: int) s. (AddStatement E s b, n + 1)) x s))" by auto
  show ?thesis
    unfolding Service_AddStatements_def AddStatements_def reader_iterator.for_each_remaining [OF TrueI]
      step exec_foldl_return
    using AddStatement_foldl [of E "[]" 0 r] by (simp add: batches_new [of E] exec_bind_assoc)
qed

lemma AddStatements_reader:
  assumes "store E A" and "wf_statements E A p" and "\<forall>s \<in> set r. stmt_ok A s"
    and "Service_AddStatements E r p = exec_return ((st, n), p')"
  shows "st = Status_OK \<and> n = int (length r) \<and> wf_statements E A p' \<and>
    stored E A p' = foldl (apply_stmt_op E) (stored E A p) (map Op_Add r)"
proof -
  have "\<forall>op \<in> set (map Op_Add r). stmt_ok A (op_stmt op)" using assms(3) by auto
  then show ?thesis
    using store.run_statement_writers [OF assms(1,2), of "map Op_Add r"] assms(4)
    by (auto simp: Service_AddStatements_run exec_return_def exec_throw_def split: if_splits)
qed

text \<open>
  C21: what was added is found. After the service has added a stream of statements, a query with all
  the fields of the last one reports that statement and nothing else.
\<close>

theorem Service_add_then_get:
  assumes "store E A" and "wf_statements E A p" and "\<forall>u \<in> set (r @ [s]). stmt_ok A u"
    and "Service_AddStatements E (r @ [s]) p = exec_return ((st, n), p')"
  shows "st = Status_OK \<and> n = int (length r) + 1 \<and>
    Service_GetStatements E p' (pattern_of s) (\<lambda>w m. (True, w @ [m])) [] = exec_return (Status_OK, [s])"
proof -
  note added = AddStatements_reader [OF assms]
  have hits: "hits E (stored E A p') (pattern_of s) = {s}"
    using added by (auto simp: same_hashes_sym [of E s])
  have "wf_statements E A p'" using added by simp
  note result = store.query_result_set(1,2) [OF assms(1) this, of "pattern_of s"]
  then have "query_result E A p' (pattern_of s) = [s]"
    unfolding hits by (intro distinct_set_singleton)
  then show ?thesis
    using added by (simp add: Service_GetStatements_def store.GetStatements_result [OF assms(1)])
qed

theorem Service_add_then_get_witness:
  "\<exists>p'. Service_AddStatements (list_environment True) [example_statement] empty_store =
      exec_return ((Status_OK, 1), p') \<and>
    Service_GetStatements (list_environment True) p' (pattern_of example_statement) (\<lambda>w m. (True, w @ [m])) [] =
      exec_return (Status_OK, [example_statement])"
proof -
  obtain st n p' where run: "Service_AddStatements (list_environment True) [example_statement] empty_store =
      exec_return ((st, n), p')"
    using list_store.run_statement_writers [of True empty_store "[Op_Add example_statement]"]
    by (auto simp: Service_AddStatements_def AddStatements_def reader_iterator.for_each_remaining
        batches_new [of "list_environment True"] AddStatement_batches)
  from Service_add_then_get [OF list_store.store_axioms [of True] empty_store_wf(1), where r = "[]", simplified, OF run] run
  show ?thesis by simp
qed

subsection \<open>Clearing and counting contexts\<close>

text \<open>Whether a statement is in one of the contexts of a request, by the hash of the context.\<close>

definition in_contexts :: "('db, 'it) environment \<Rightarrow> proto_Resource list \<Rightarrow> proto_Statement \<Rightarrow> bool" where
  "in_contexts E contexts s \<longleftrightarrow>
     (\<exists>r \<in> set contexts. keyHash (is_x86_64 E) (ser_Resource E r) = keyHash (is_x86_64 E) (ser_Resource E (context_of s)))"

lemma hash_matches_context:
  "hash_matches E (effective (Statement_default\<lparr>st_context := Some r\<rparr>)) s \<longleftrightarrow> in_contexts E [r] s"
  by (simp add: effective_def Statement_default_def hash_matches_def field_match_def in_contexts_def)

lemma hash_matches_default [simp]: "hash_matches E (effective Statement_default) s"
  by (simp add: effective_def Statement_default_def hash_matches_def field_match_def)

context store
begin

lemma RemoveStatements_result:
  assumes "wf_statements E A p" and "\<forall>db b. db_Write E db b \<noteq> None"
  shows "\<exists>p'. RemoveStatements E pattern p = exec_return (int (card (hits E (stored E A p) pattern)), p') \<and>
    wf_statements E A p' \<and> stored E A p' = stored E A p - hits E (stored E A p) pattern"
proof -
  let ?ops = "map Op_Remove (query_result E A p pattern)"
  have ops: "\<forall>op \<in> set ?ops. stmt_ok A (op_stmt op)"
    using assms(1) query_result_set(1) [OF assms(1)] by (auto simp: wf_statements_def)
  have "writes_ok E (statement_writers (batches_of E ?ops)) p" using assms(2) by (auto simp: writes_ok_def)
  then obtain p' where "run_writers E (statement_writers (batches_of E ?ops)) p = exec_return p'"
    "wf_statements E A p'" "stored E A p' = foldl (apply_stmt_op E) (stored E A p) ?ops"
    using run_statement_writers [OF assms(1) ops] by auto
  then show ?thesis
    using RemoveStatements_batch_result [of p pattern "[]"] query_result_set(3) [OF assms(1), of pattern]
      remove_hits [OF assms(1), of pattern]
    by (simp add: RemoveStatements_def batches_new [of E])
qed

lemma Clear_loop_result:
  assumes "wf_statements E A p" and "\<forall>db b. db_Write E db b \<noteq> None"
    and "\<And>r. pattern\<lparr>st_context := Some r\<rparr> = Statement_default\<lparr>st_context := Some r\<rparr>"
  shows "\<exists>p'. Clear_loop E rs pattern n p =
      exec_return (n + int (card {s \<in> stored E A p. in_contexts E rs s}), p') \<and>
    wf_statements E A p' \<and> stored E A p' = {s \<in> stored E A p. \<not> in_contexts E rs s}"
  using assms
proof (induction rs arbitrary: p pattern n)
  case Nil
  then show ?case by (simp add: in_contexts_def)
next
  case (Cons r rs)
  let ?S = "stored E A p" and ?q = "Statement_default\<lparr>st_context := Some r\<rparr>"
  obtain p1 where p1: "RemoveStatements E ?q p = exec_return (int (card (hits E ?S ?q)), p1)"
    "wf_statements E A p1" "stored E A p1 = ?S - hits E ?S ?q"
    using RemoveStatements_result [OF Cons.prems(1,2)] by blast
  have q: "?q\<lparr>st_context := Some r'\<rparr> = Statement_default\<lparr>st_context := Some r'\<rparr>" for r' by simp
  obtain p2 where p2: "Clear_loop E rs ?q (n + int (card (hits E ?S ?q))) p1 =
      exec_return (n + int (card (hits E ?S ?q)) + int (card {s \<in> stored E A p1. in_contexts E rs s}), p2)"
    "wf_statements E A p2" "stored E A p2 = {s \<in> stored E A p1. \<not> in_contexts E rs s}"
    using Cons.IH [OF p1(2) Cons.prems(2) q] by blast
  have split: "in_contexts E (r # rs) s \<longleftrightarrow> in_contexts E [r] s \<or> in_contexts E rs s" for s
    by (auto simp: in_contexts_def)
  have "{s \<in> ?S. in_contexts E (r # rs) s} = hits E ?S ?q \<union> {s \<in> stored E A p1. in_contexts E rs s}"
    unfolding p1(3) split by (auto simp: hash_matches_context)
  moreover have "hits E ?S ?q \<inter> {s \<in> stored E A p1. in_contexts E rs s} = {}" unfolding p1(3) by auto
  ultimately have "card {s \<in> ?S. in_contexts E (r # rs) s} =
      card (hits E ?S ?q) + card {s \<in> stored E A p1. in_contexts E rs s}"
    by (simp add: card_Un_disjoint)
  moreover have "stored E A p2 = {s \<in> ?S. \<not> in_contexts E (r # rs) s}"
    unfolding p2(3) p1(3) split by (auto simp: hash_matches_context)
  ultimately show ?case using p1 p2 Cons.prems(3) by (simp add: Let_def add.assoc)
qed

end

lemma Service_Clear_run:
  assumes "store E A" and "wf_statements E A p" and "\<forall>db b. db_Write E db b \<noteq> None"
  shows "\<exists>p'. Service_Clear E contexts p =
      exec_return ((Status_OK, int (card {s \<in> stored E A p. contexts = [] \<or> in_contexts E contexts s})), p') \<and>
    wf_statements E A p' \<and>
    stored E A p' = {s \<in> stored E A p. contexts \<noteq> [] \<and> \<not> in_contexts E contexts s}"
proof (cases "contexts = []")
  case True
  have all: "hits E (stored E A p) Statement_default = stored E A p" by simp
  then show ?thesis
    using store.RemoveStatements_result [OF assms, of Statement_default] True
    by (auto simp: Service_Clear_def)
next
  case False
  then show ?thesis
    using store.Clear_loop_result [OF assms, of Statement_default contexts 0]
    by (auto simp: Service_Clear_def)
qed

text \<open>
  Clearing. While the disk does not fail, \<open>Clear\<close> removes exactly the statements that are in
  one of the contexts of the request (by the hash of the context), all statements when the request
  names none, returns how many it removed, and keeps the indexes consistent.
\<close>

theorem Service_Clear_effect:
  assumes "store E A" and "wf_statements E A p" and "\<forall>db b. db_Write E db b \<noteq> None"
  shows "\<exists>p'. Service_Clear E contexts p =
      exec_return ((Status_OK, int (card {s \<in> stored E A p. contexts = [] \<or> in_contexts E contexts s})), p') \<and>
    wf_statements E A p' \<and>
    stored E A p' = {s \<in> stored E A p. contexts \<noteq> [] \<and> \<not> in_contexts E contexts s}"
  using assms by (rule Service_Clear_run)

theorem Service_Clear_effect_witness:
  "\<exists>p'. Service_Clear (list_environment True) [] (one_statement_store True example_statement) =
      exec_return ((Status_OK, 1), p') \<and> stored (list_environment True) list_view p' = {}"
proof -
  have "\<forall>db b. db_Write (list_environment True) db b \<noteq> None" by (simp add: list_environment_def)
  from Service_Clear_effect [OF list_store.store_axioms [of True] one_statement_store_wf(1) [of True example_statement] this, of "[]"]
  show ?thesis by (auto simp: conj_commute)
qed

lemma count_callback: "callback_foldl (\<lambda>n s. (True, n + 1)) n xs = n + int (length xs)"
  by (induction xs arbitrary: n) simp_all

context store
begin

lemma Size_contexts_result:
  assumes "wf_statements E A p"
    and "\<And>r. pattern\<lparr>st_context := Some r\<rparr> = Statement_default\<lparr>st_context := Some r\<rparr>"
  shows "Size_contexts E p rs pattern n =
    exec_return (n + (\<Sum>r \<leftarrow> rs. int (card {s \<in> stored E A p. in_contexts E [r] s})))"
  using assms(2)
proof (induction rs arbitrary: pattern n)
  case (Cons r rs)
  have q: "(Statement_default\<lparr>st_context := Some r\<rparr>)\<lparr>st_context := Some r'\<rparr> = Statement_default\<lparr>st_context := Some r'\<rparr>" for r'
    by simp
  have "GetStatements E p (Statement_default\<lparr>st_context := Some r\<rparr>) (\<lambda>n s. (True, n + 1)) n =
      exec_return (n + int (card {s \<in> stored E A p. in_contexts E [r] s}))"
    by (simp add: GetStatements_result count_callback query_result_set(3) [OF assms(1)] hash_matches_context)
  then show ?case using Cons.IH [OF q] Cons.prems by (simp add: Let_def add.assoc)
qed simp

end

text \<open>
  Counting. \<open>Size\<close> returns the number of stored statements when the request names no context,
  and otherwise the sum over the named contexts of the number of statements in each (a context
  named twice counts twice).
\<close>

theorem Service_Size_result:
  assumes "store E A" and "wf_statements E A p"
  shows "Service_Size E p contexts = exec_return (Status_OK,
    if contexts = [] then int (card (stored E A p))
    else (\<Sum>r \<leftarrow> contexts. int (card {s \<in> stored E A p. in_contexts E [r] s})))"
  using store.Size_result [OF assms] store.Size_contexts_result [OF assms, of Statement_default contexts 0]
  by (simp add: Service_Size_def)

theorem Service_Size_result_witness:
  "Service_Size (list_environment True) (one_statement_store True example_statement) [] = exec_return (Status_OK, 1)"
  using Service_Size_result [OF list_store.store_axioms [of True] one_statement_store_wf(1) [of True example_statement], of "[]"]
  by simp

subsection \<open>Contexts and namespaces\<close>

text \<open>
  Listing the contexts. When every stored context is a URI or a blank node, \<open>GetContexts\<close>
  writes each context of a stored statement exactly once, whatever the iteration order and the
  hash of the set.
\<close>

theorem Service_GetContexts_result:
  assumes "store E A" and "wf_statements E A p"
    and "\<forall>s \<in> stored E A p. st_context s \<noteq> Some R_NONE"
    and "\<forall>xs. set (iteration_order xs) = set xs \<and> (distinct xs \<longrightarrow> distinct (iteration_order xs))"
  shows "\<exists>cs. Service_GetContexts E std_hash iteration_order p Write w =
      exec_return (Status_OK, foldl (\<lambda>w c. snd (Write w c)) w cs) \<and>
    set cs = {c. \<exists>s \<in> stored E A p. st_context s = Some c} \<and> distinct cs"
proof -
  let ?insert = "\<lambda>xs c. unordered_set_insert (hash_Resource std_hash (ser_Resource E)) Resource_eq c xs"
  let ?cb = "\<lambda>xs s. (True, if has_context s then ?insert xs (context_of s) else xs)"
  let ?ss = "query_result E A p Statement_default"
  let ?cs = "map context_of [s \<leftarrow> ?ss. has_context s]"
  have fold: "callback_foldl ?cb xs ss = foldl ?insert xs (map context_of [s \<leftarrow> ss. has_context s])" for xs ss
    by (induction ss arbitrary: xs) simp_all
  have set: "set ?ss = stored E A p"
    using store.query_result_set(1) [OF assms(1,2), of Statement_default] by simp
  have dom: "\<forall>c \<in> set ?cs. c \<noteq> R_NONE"
    using assms(3) set by (auto simp: has_context_def context_of_def)
  have contexts: "set ?cs = {c. \<exists>s \<in> stored E A p. st_context s = Some c}"
    using set by (force simp: has_context_def context_of_def)
  note inserted = resource_hash.insert_all [OF dom distinct.simps(1) [THEN iffD2, OF TrueI], of std_hash "ser_Resource E"]
  show ?thesis
    using inserted contexts assms(4)
    by (intro exI [of _ "iteration_order (foldl ?insert [] ?cs)"])
      (simp add: Service_GetContexts_def store.GetStatements_result [OF assms(1)] fold)
qed

theorem Service_GetContexts_result_witness:
  "\<exists>cs. Service_GetContexts (list_environment True) (\<lambda>_. 0) rev
      (one_statement_store True (setContext example_statement (Resource_from_string ''http://g'')))
      (\<lambda>w c. (True, w @ [c])) [] = exec_return (Status_OK, foldl (\<lambda>w c. w @ [c]) [] cs) \<and>
    set cs = {R_URI (URI_new ''http://g'')}"
proof -
  let ?s = "setContext example_statement (Resource_from_string ''http://g'')"
  have c: "st_context ?s = Some (R_URI (URI_new ''http://g''))"
    by (simp add: setContext_def example_statement_def Statement_new_def Statement_default_def
        context_of_def Resource_from_string_def mutable_uri_def URI_new_def URI_default_def
        URI_MergeFrom_def)
  then show ?thesis
    using Service_GetContexts_result [OF list_store.store_axioms [of True] one_statement_store_wf(1) [of True ?s],
        where iteration_order = rev and std_hash = "\<lambda>_. 0" and Write = "\<lambda>w c. (True, w @ [c])" and w = "[]"]
    by auto
qed

text \<open>
  Looking up one namespace. The handler answers \<open>NOT_FOUND\<close> and leaves the response alone
  exactly when nothing is stored under the prefix of the request (or, without a prefix, under its
  URI); otherwise it answers \<open>OK\<close> with what is stored there.
\<close>

theorem Service_GetNamespace_result:
  assumes "store E A" and "wf_namespaces E A p" and "ns_prefix pattern \<noteq> '''' \<or> ns_uri pattern \<noteq> ''''"
  shows "Service_GetNamespace E p pattern result = exec_return
    (case (if ns_prefix pattern \<noteq> '''' then ns_lookup E A (db_ns_prefix p) (ns_prefix pattern)
           else ns_lookup E A (db_ns_url p) (ns_uri pattern)) of
       None \<Rightarrow> (Status_NOT_FOUND, result)
     | Some n \<Rightarrow> (Status_OK, n))"
  using store.ns_result_cases(1,2) [OF assms(1,2), of pattern] assms(3)
  by (auto simp: Service_GetNamespace_def store.GetNamespaces_result [OF assms(1)] split: option.split)

theorem Service_GetNamespace_result_witness:
  "Service_GetNamespace (list_environment True) (one_namespace_store example_namespace)
     (Namespace_new '''' ''http://xmlns.com/foaf/0.1/'') Namespace_default = exec_return (Status_OK, example_namespace)"
  using Service_GetNamespace_result [OF list_store.store_axioms [of True] one_namespace_store_wf(1) [of True example_namespace],
      of "Namespace_new '''' ''http://xmlns.com/foaf/0.1/''" Namespace_default]
  by (simp add: Namespace_new_def Namespace_default_def example_namespace_def)

text \<open>
  Streaming statements. The handler answers \<open>OK\<close> and writes the statements of the query in
  key order, stopping after the first write that finds the stream closed.
\<close>

theorem Service_GetStatements_result:
  assumes "store E A" and "wf_statements E A p"
  shows "\<exists>ss. set ss = {s \<in> stored E A p. hash_matches E (effective pattern) s} \<and> distinct ss \<and>
    (\<exists>k \<le> length ss.
       Service_GetStatements E p pattern Write w = exec_return (Status_OK, callback_state Write w (take k ss)) \<and>
       (\<forall>i. i + 1 < k \<longrightarrow> fst (Write (callback_state Write w (take i ss)) (ss ! i))) \<and>
       (k < length ss \<longrightarrow> \<not> fst (Write (callback_state Write w (take (k - 1) ss)) (ss ! (k - 1)))))"
  using store.query_result_set(1,2) [OF assms, of pattern]
    callback_foldl_prefix [of "query_result E A p pattern" Write w]
  by (intro exI [of _ "query_result E A p pattern"])
    (auto simp: Service_GetStatements_def store.GetStatements_result [OF assms(1)])

theorem Service_GetStatements_result_witness:
  "\<exists>w. Service_GetStatements (list_environment True) (one_statement_store True example_statement)
      Statement_default (\<lambda>w s. (True, w @ [s])) [] = exec_return (Status_OK, w)"
  using Service_GetStatements_result [OF list_store.store_axioms [of True]
      one_statement_store_wf(1) [of True example_statement], of Statement_default "\<lambda>w s. (True, w @ [s])" "[]"]
  by blast

end
