(* ===== verification/Sharding.thy ===== *)
theory Sharding
  imports Service "HOL-Library.Multiset"
begin

text \<open>
  \<open>sharding/sharding.cc\<close>: the proxy service that distributes statements over several backends by
  their hash.

  The backends are reached through generated stubs, which are not part of the sources: \<open>SailStub\<close>
  is a record of the remote calls over the state of one backend, a streamed request being the list
  of the messages written before \<open>WritesDone\<close>, a streamed response the list of the messages that
  \<open>Read\<close> delivers. The state of the proxy is the list of the backends' states. The threads of an
  operation are scheduled by a list of thread numbers: each occurrence lets that thread take one
  step, and after the list the remaining steps are taken thread by thread, since the operation
  joins all threads. \<open>rand()\<close> and the string hash are arguments.
\<close>

record 'b SailStub =
  stub_AddNamespaces :: "proto_Namespace list \<Rightarrow> 'b \<Rightarrow> (Status \<times> int) \<times> 'b"
  stub_GetNamespace :: "proto_Namespace \<Rightarrow> 'b \<Rightarrow> Status \<times> proto_Namespace"
  stub_GetNamespaces :: "'b \<Rightarrow> Status \<times> proto_Namespace list"
  stub_AddStatements :: "proto_Statement list \<Rightarrow> 'b \<Rightarrow> (Status \<times> int) \<times> 'b"
  stub_GetStatements :: "proto_Statement \<Rightarrow> 'b \<Rightarrow> proto_Statement list"
  stub_RemoveStatements :: "proto_Statement \<Rightarrow> 'b \<Rightarrow> (Status \<times> int) \<times> 'b"
  stub_Update :: "UpdateRequest list \<Rightarrow> 'b \<Rightarrow> (Status \<times> UpdateResponse) \<times> 'b"
  stub_Clear :: "proto_Resource list \<Rightarrow> 'b \<Rightarrow> (Status \<times> int) \<times> 'b"
  stub_Size :: "proto_Resource list \<Rightarrow> 'b \<Rightarrow> (Status \<times> int) \<times> 'b"
  stub_GetContexts :: "'b \<Rightarrow> proto_Resource list"

subsection \<open>Fan-out\<close>

text \<open>
  A thread of \<open>Fanout\<close> makes its call and then executes \<open>r += response.value()\<close>, a load and a
  store of the shared variable.
\<close>

datatype fan_phase = Fan_load | Fan_store int | Fan_done

fun fan_step :: "int list \<Rightarrow> fan_phase list \<times> int \<Rightarrow> nat \<Rightarrow> fan_phase list \<times> int" where
  "fan_step values (phases, r) i =
     (if i < length phases then
        (case phases ! i of
           Fan_load \<Rightarrow> (phases[i := Fan_store r], r)
         | Fan_store x \<Rightarrow> (phases[i := Fan_done], x + values ! i)
         | Fan_done \<Rightarrow> (phases, r))
      else (phases, r))"

definition join_schedule :: "nat \<Rightarrow> nat list" where
  "join_schedule n = concat (map (\<lambda>i. [i, i]) [0..<n])"

definition fan_sum :: "nat list \<Rightarrow> int list \<Rightarrow> int" where
  "fan_sum schedule values =
     snd (foldl (fan_step values) (replicate (length values) Fan_load, 0)
       (schedule @ join_schedule (length values)))"

fun first_error :: "Status list \<Rightarrow> Status" where
  "first_error [] = Status_OK"
| "first_error (s # ss) = (if \<not> Status_ok s then s else first_error ss)"

definition Fanout :: "('b \<Rightarrow> (Status \<times> int) \<times> 'b) \<Rightarrow> nat list \<Rightarrow> 'b list \<Rightarrow> (Status \<times> int) \<times> 'b list" where
  "Fanout ClientMethod schedule backends =
     (let results = map ClientMethod backends;
          statuses = map (fst \<circ> fst) results;
          r = fan_sum schedule (map (snd \<circ> fst) results)
      in ((first_error statuses, r), map snd results))"

subsection \<open>Namespaces\<close>

definition Sharding_AddNamespaces ::
  "'b SailStub \<Rightarrow> proto_Namespace ServerReader \<Rightarrow> 'b list \<Rightarrow> ((Status \<times> int) \<times> 'b list) exec" where
  "Sharding_AddNamespaces S reader backends =
     (let results = map (stub_AddNamespaces S reader) backends;
          stats = map (snd \<circ> fst) results
      in case stats of
           [] \<Rightarrow> exec_throw Undefined
         | st # _ \<Rightarrow> exec_return ((Status_OK, st), map snd results))"

definition Sharding_GetNamespace ::
  "'b SailStub \<Rightarrow> nat \<Rightarrow> proto_Namespace \<Rightarrow> 'b list \<Rightarrow> (Status \<times> proto_Namespace) exec" where
  "Sharding_GetNamespace S rand pattern backends =
     (if backends = [] then exec_throw Undefined
      else (let bucket = rand mod length backends
            in exec_return (stub_GetNamespace S pattern (backends ! bucket))))"

definition Sharding_GetNamespaces ::
  "'b SailStub \<Rightarrow> nat \<Rightarrow> ('w, proto_Namespace) ServerWriter \<Rightarrow> 'w \<Rightarrow> 'b list \<Rightarrow> (Status \<times> 'w) exec" where
  "Sharding_GetNamespaces S rand Write w backends =
     (if backends = [] then exec_throw Undefined
      else (let bucket = rand mod length backends;
                (status, ns) = stub_GetNamespaces S (backends ! bucket)
            in exec_return (status, callback_state Write w ns)))"

subsection \<open>Statements\<close>

text \<open>
  The loop over the request stream: every statement goes to the writer of the bucket its hash
  selects. The remainder by zero, without backends, is undefined.
\<close>

fun AddStatements_route ::
  "(proto_Statement \<Rightarrow> 64 word) \<Rightarrow> proto_Statement ServerReader \<Rightarrow> proto_Statement list list \<Rightarrow>
   proto_Statement list list exec" where
  "AddStatements_route stmt_hash [] writers = exec_return writers"
| "AddStatements_route stmt_hash (stmt # reader) writers =
     (if length writers = 0 then exec_throw Undefined
      else (let bucket = unat (stmt_hash stmt) mod length writers
            in AddStatements_route stmt_hash reader (writers[bucket := writers ! bucket @ [stmt]])))"

definition Sharding_AddStatements ::
  "'b SailStub \<Rightarrow> (proto_Statement \<Rightarrow> 64 word) \<Rightarrow> proto_Statement ServerReader \<Rightarrow> 'b list \<Rightarrow>
   ((Status \<times> int) \<times> 'b list) exec" where
  "Sharding_AddStatements S stmt_hash reader backends =
     exec_bind (AddStatements_route stmt_hash reader (replicate (length backends) [])) (\<lambda>writers.
       let results = map (\<lambda>(w, b). stub_AddStatements S w b) (zip writers backends);
           responses = map (snd \<circ> fst) results
       in exec_return ((Status_OK, foldl (+) 0 responses), map snd results))"

text \<open>
  The threads of \<open>GetStatements\<close>: what each has still to read and whether its last write
  succeeded. One step is one round of the loop, under the mutex.
\<close>

fun get_step ::
  "('w, proto_Statement) ServerWriter \<Rightarrow> (proto_Statement list \<times> bool) list \<times> 'w \<Rightarrow> nat \<Rightarrow>
   (proto_Statement list \<times> bool) list \<times> 'w" where
  "get_step Write (threads, w) i =
     (if i < length threads then
        (case threads ! i of
           (stmt # reader, True) \<Rightarrow>
             (let (run, w') = Write w stmt in (threads[i := (reader, run)], w'))
         | _ \<Rightarrow> (threads, w))
      else (threads, w))"

definition Sharding_GetStatements ::
  "'b SailStub \<Rightarrow> nat list \<Rightarrow> proto_Statement \<Rightarrow> ('w, proto_Statement) ServerWriter \<Rightarrow> 'w \<Rightarrow> 'b list \<Rightarrow>
   Status \<times> 'w" where
  "Sharding_GetStatements S schedule pattern Write w backends =
     (let readers = map (stub_GetStatements S pattern) backends;
          joins = concat (map (\<lambda>i. replicate (length (readers ! i)) i) [0..<length readers])
      in (Status_OK,
          snd (foldl (get_step Write) (map (\<lambda>r. (r, True)) readers, w) (schedule @ joins))))"

definition Sharding_RemoveStatements ::
  "'b SailStub \<Rightarrow> nat list \<Rightarrow> proto_Statement \<Rightarrow> 'b list \<Rightarrow> (Status \<times> int) \<times> 'b list" where
  "Sharding_RemoveStatements S schedule pattern backends =
     Fanout (stub_RemoveStatements S pattern) schedule backends"

definition Sharding_Clear ::
  "'b SailStub \<Rightarrow> nat list \<Rightarrow> proto_Resource list \<Rightarrow> 'b list \<Rightarrow> (Status \<times> int) \<times> 'b list" where
  "Sharding_Clear S schedule contexts backends = Fanout (stub_Clear S contexts) schedule backends"

definition Sharding_Size ::
  "'b SailStub \<Rightarrow> nat list \<Rightarrow> proto_Resource list \<Rightarrow> 'b list \<Rightarrow> (Status \<times> int) \<times> 'b list" where
  "Sharding_Size S schedule contexts backends = Fanout (stub_Size S contexts) schedule backends"

subsection \<open>Updates\<close>

fun Update_route ::
  "(proto_Statement \<Rightarrow> 64 word) \<Rightarrow> UpdateRequest ServerReader \<Rightarrow> UpdateRequest list list \<Rightarrow>
   UpdateRequest list list exec" where
  "Update_route stmt_hash [] writers = exec_return writers"
| "Update_route stmt_hash (req # reader) writers =
     (case req of
        stmt_added s \<Rightarrow>
          (if length writers = 0 then exec_throw Undefined
           else (let bucket = unat (stmt_hash s) mod length writers
                 in Update_route stmt_hash reader (writers[bucket := writers ! bucket @ [req]])))
      | _ \<Rightarrow> Update_route stmt_hash reader (map (\<lambda>w. w @ [req]) writers))"

definition UpdateResponse_default :: UpdateResponse where
  "UpdateResponse_default =
     \<lparr>added_statements = 0, removed_statements = 0, added_namespaces = 0, removed_namespaces = 0\<rparr>"

definition UpdateResponse_add :: "UpdateResponse \<Rightarrow> UpdateResponse \<Rightarrow> UpdateResponse" where
  "UpdateResponse_add result r =
     \<lparr>added_statements = added_statements result + added_statements r,
      removed_statements = removed_statements result + removed_statements r,
      added_namespaces = added_namespaces result + added_namespaces r,
      removed_namespaces = removed_namespaces result + removed_namespaces r\<rparr>"

definition Sharding_Update ::
  "'b SailStub \<Rightarrow> (proto_Statement \<Rightarrow> 64 word) \<Rightarrow> UpdateRequest ServerReader \<Rightarrow> 'b list \<Rightarrow>
   ((Status \<times> UpdateResponse) \<times> 'b list) exec" where
  "Sharding_Update S stmt_hash reader backends =
     exec_bind (Update_route stmt_hash reader (replicate (length backends) [])) (\<lambda>writers.
       let results = map (\<lambda>(w, b). stub_Update S w b) (zip writers backends);
           responses = map (snd \<circ> fst) results
       in exec_return ((Status_OK, foldl UpdateResponse_add UpdateResponse_default responses), map snd results))"

subsection \<open>Contexts\<close>

text \<open>
  \<open>GetContexts\<close> starts its threads and does not join them. One step of a thread inserts one
  context under the mutex; the main thread writes what has been inserted so far. On return the
  vector of threads is destroyed: the destructor of a thread that has not been joined, finished or
  not, calls \<open>std::terminate\<close>.
\<close>

fun contexts_step ::
  "(proto_Resource \<Rightarrow> 64 word) \<Rightarrow> proto_Resource list list \<times> proto_Resource list \<Rightarrow> nat \<Rightarrow>
   proto_Resource list list \<times> proto_Resource list" where
  "contexts_step hash (readers, contexts) i =
     (if i < length readers then
        (case readers ! i of
           [] \<Rightarrow> (readers, contexts)
         | r # rs \<Rightarrow> (readers[i := rs], unordered_set_insert hash Resource_eq r contexts))
      else (readers, contexts))"

definition destroy_threads :: "bool list \<Rightarrow> 'a \<Rightarrow> 'a exec" where
  "destroy_threads joined v = (if \<forall>j \<in> set joined. j then exec_return v else exec_throw Terminated)"

definition Sharding_GetContexts ::
  "'b SailStub \<Rightarrow> (proto_Resource \<Rightarrow> 64 word) \<Rightarrow> (proto_Resource list \<Rightarrow> proto_Resource list) \<Rightarrow> nat list \<Rightarrow>
   ('w, proto_Resource) ServerWriter \<Rightarrow> 'w \<Rightarrow> 'b list \<Rightarrow> (Status \<times> 'w) exec" where
  "Sharding_GetContexts S hash iteration_order schedule Write w backends =
     (let readers = map (stub_GetContexts S) backends;
          contexts = snd (foldl (contexts_step hash) (readers, []) schedule)
      in destroy_threads (map (\<lambda>_. False) readers)
           (Status_OK, callback_state Write w (iteration_order contexts)))"

subsection \<open>A stub for a LevelDB backend\<close>

text \<open>
  The stub of a backend that runs the handlers of \<open>Service\<close>: the messages written to a response
  stream are the messages read from it. A handler that does not return reaches the caller as a
  failed call (status 14, \<open>UNAVAILABLE\<close>) without a response.
\<close>

definition call_result :: "'r \<Rightarrow> (Status \<times> 'r) exec \<Rightarrow> Status \<times> 'r" where
  "call_result no_response e = (case e of Some (Inr r) \<Rightarrow> r | _ \<Rightarrow> (Status_error 14, no_response))"

definition call_update :: "'r \<Rightarrow> 'p \<Rightarrow> ((Status \<times> 'r) \<times> 'p) exec \<Rightarrow> (Status \<times> 'r) \<times> 'p" where
  "call_update no_response p e =
     (case e of Some (Inr r) \<Rightarrow> r | _ \<Rightarrow> ((Status_error 14, no_response), p))"

definition leveldb_stub ::
  "('db, 'it) environment \<Rightarrow> string_hash \<Rightarrow> (proto_Resource list \<Rightarrow> proto_Resource list) \<Rightarrow>
   'db LevelDBPersistence SailStub" where
  "leveldb_stub E std_hash iteration_order =
     \<lparr>stub_AddNamespaces = (\<lambda>ns p. call_update 0 p (Service_AddNamespaces E ns p)),
      stub_GetNamespace = (\<lambda>pattern p. call_result Namespace_default (Service_GetNamespace E p pattern Namespace_default)),
      stub_GetNamespaces = (\<lambda>p. call_result [] (Service_GetNamespaces E p collect [])),
      stub_AddStatements = (\<lambda>ss p. call_update 0 p (Service_AddStatements E ss p)),
      stub_GetStatements = (\<lambda>pattern p. snd (call_result [] (Service_GetStatements E p pattern collect []))),
      stub_RemoveStatements = (\<lambda>pattern p. call_update 0 p (Service_RemoveStatements E pattern p)),
      stub_Update = (\<lambda>us p. call_update UpdateResponse_default p (Service_Update E us p)),
      stub_Clear = (\<lambda>contexts p. call_update 0 p (Service_Clear E contexts p)),
      stub_Size = (\<lambda>contexts p. (call_result 0 (Service_Size E p contexts), p)),
      stub_GetContexts = (\<lambda>p. snd (call_result [] (Service_GetContexts E std_hash iteration_order p collect [])))\<rparr>"

subsection \<open>Routing\<close>

abbreviation bucket :: "('a \<Rightarrow> 64 word) \<Rightarrow> nat \<Rightarrow> 'a \<Rightarrow> nat" where
  "bucket h n s \<equiv> unat (h s) mod n"

lemma AddStatements_route_result:
  assumes "length writers = n" and "0 < n"
  shows "AddStatements_route h reader writers =
    exec_return (map (\<lambda>i. writers ! i @ [s \<leftarrow> reader. bucket h n s = i]) [0..<n])"
  using assms(1)
proof (induction reader arbitrary: writers)
  case Nil
  then show ?case using map_nth [of writers] by simp
next
  case (Cons s reader)
  let ?b = "bucket h n s"
  have len: "length (writers[?b := writers ! ?b @ [s]]) = n" using Cons.prems by simp
  have "AddStatements_route h (s # reader) writers = AddStatements_route h reader (writers[?b := writers ! ?b @ [s]])"
    using Cons.prems assms(2) by (simp add: Let_def)
  also have "\<dots> = exec_return (map (\<lambda>i. writers[?b := writers ! ?b @ [s]] ! i @ [s \<leftarrow> reader. bucket h n s = i]) [0..<n])"
    by (rule Cons.IH [OF len])
  also have "map (\<lambda>i. writers[?b := writers ! ?b @ [s]] ! i @ [s \<leftarrow> reader. bucket h n s = i]) [0..<n] =
      map (\<lambda>i. writers ! i @ [s \<leftarrow> s # reader. bucket h n s = i]) [0..<n]"
    using Cons.prems by (intro map_cong refl) (auto simp: nth_list_update)
  finally show ?case .
qed

fun routed :: "(proto_Statement \<Rightarrow> 64 word) \<Rightarrow> nat \<Rightarrow> nat \<Rightarrow> UpdateRequest \<Rightarrow> bool" where
  "routed h n i (stmt_added s) = (bucket h n s = i)"
| "routed h n i _ = True"

lemma Update_route_result:
  assumes "length writers = n" and "0 < n"
  shows "Update_route h reader writers =
    exec_return (map (\<lambda>i. writers ! i @ [q \<leftarrow> reader. routed h n i q]) [0..<n])"
  using assms(1)
proof (induction reader arbitrary: writers)
  case Nil
  then show ?case using map_nth [of writers] by simp
next
  case (Cons q reader)
  show ?case
  proof (cases "\<exists>s. q = stmt_added s")
    case True
    then obtain s where q: "q = stmt_added s" by blast
    let ?b = "bucket h n s"
    have len: "length (writers[?b := writers ! ?b @ [q]]) = n" using Cons.prems by simp
    have "Update_route h (q # reader) writers = Update_route h reader (writers[?b := writers ! ?b @ [q]])"
      using Cons.prems assms(2) by (simp add: q Let_def)
    also have "\<dots> = exec_return (map (\<lambda>i. writers[?b := writers ! ?b @ [q]] ! i @ [q \<leftarrow> reader. routed h n i q]) [0..<n])"
      by (rule Cons.IH [OF len])
    also have "map (\<lambda>i. writers[?b := writers ! ?b @ [q]] ! i @ [q \<leftarrow> reader. routed h n i q]) [0..<n] =
        map (\<lambda>i. writers ! i @ [q \<leftarrow> q # reader. routed h n i q]) [0..<n]"
      using Cons.prems by (intro map_cong refl) (auto simp: nth_list_update q)
    finally show ?thesis .
  next
    case False
    have len: "length (map (\<lambda>w. w @ [q]) writers) = n" using Cons.prems by simp
    have "Update_route h (q # reader) writers = Update_route h reader (map (\<lambda>w. w @ [q]) writers)"
      using False by (cases q) simp_all
    also have "\<dots> = exec_return (map (\<lambda>i. map (\<lambda>w. w @ [q]) writers ! i @ [q \<leftarrow> reader. routed h n i q]) [0..<n])"
      by (rule Cons.IH [OF len])
    also have "map (\<lambda>i. map (\<lambda>w. w @ [q]) writers ! i @ [q \<leftarrow> reader. routed h n i q]) [0..<n] =
        map (\<lambda>i. writers ! i @ [q \<leftarrow> q # reader. routed h n i q]) [0..<n]"
      using Cons.prems False by (intro map_cong refl) (cases q; simp)
    finally show ?thesis .
  qed
qed

lemma zip_upt_map:
  "length bs = n \<Longrightarrow> map (\<lambda>(w, b). f w b) (zip (map g [0..<n]) bs) = map (\<lambda>i. f (g i) (bs ! i)) [0..<n]"
  by (rule nth_equalityI) simp_all

lemma foldl_plus_sum_list: "foldl (+) a xs = a + sum_list (xs :: int list)"
  by (induction xs arbitrary: a) simp_all

lemma Sharding_AddStatements_result:
  "Sharding_AddStatements S h reader bs =
    (if bs = [] then (if reader = [] then exec_return ((Status_OK, 0), []) else exec_throw Undefined)
     else
       (let call = (\<lambda>i. stub_AddStatements S [s \<leftarrow> reader. unat (h s) mod length bs = i] (bs ! i))
        in exec_return ((Status_OK, \<Sum>i \<leftarrow> [0..<length bs]. snd (fst (call i))),
             map (\<lambda>i. snd (call i)) [0..<length bs])))"
proof (cases "bs = []")
  case True
  then show ?thesis by (cases reader) (simp_all add: Sharding_AddStatements_def)
next
  case False
  then have "AddStatements_route h reader (replicate (length bs) []) =
      exec_return (map (\<lambda>i. [s \<leftarrow> reader. bucket h (length bs) s = i]) [0..<length bs])"
    using AddStatements_route_result [of "replicate (length bs) []" "length bs" h reader]
    by (simp cong: map_cong)
  then show ?thesis
    using False unfolding Sharding_AddStatements_def Let_def
    by (simp add: zip_upt_map foldl_plus_sum_list del: map_map) (simp add: comp_def)
qed

text \<open>
  How a stream of statements is sharded. With at least one backend, every statement of the
  stream goes to exactly one backend, the one that its hash modulo the number of backends selects,
  in the order of the stream; the answer is \<open>OK\<close> with the sum of the counts the backends report.
  Without backends a non-empty stream divides by zero.
\<close>

theorem Sharding_AddStatements_routes:
  "Sharding_AddStatements S h reader bs =
    (if bs = [] then (if reader = [] then exec_return ((Status_OK, 0), []) else exec_throw Undefined)
     else
       (let call = (\<lambda>i. stub_AddStatements S [s \<leftarrow> reader. unat (h s) mod length bs = i] (bs ! i))
        in exec_return ((Status_OK, \<Sum>i \<leftarrow> [0..<length bs]. snd (fst (call i))),
             map (\<lambda>i. snd (call i)) [0..<length bs])))"
  by (rule Sharding_AddStatements_result)

lemma foldl_UpdateResponse_add:
  "foldl UpdateResponse_add a rs =
     \<lparr>added_statements = added_statements a + (\<Sum>r \<leftarrow> rs. added_statements r),
      removed_statements = removed_statements a + (\<Sum>r \<leftarrow> rs. removed_statements r),
      added_namespaces = added_namespaces a + (\<Sum>r \<leftarrow> rs. added_namespaces r),
      removed_namespaces = removed_namespaces a + (\<Sum>r \<leftarrow> rs. removed_namespaces r)\<rparr>"
  by (induction rs arbitrary: a) (simp_all add: UpdateResponse_add_def)

lemma Sharding_Update_result:
  assumes "bs \<noteq> []"
  shows "Sharding_Update S h reader bs =
    (let call = (\<lambda>i. stub_Update S [q \<leftarrow> reader. \<forall>s. q = stmt_added s \<longrightarrow> unat (h s) mod length bs = i] (bs ! i));
         responses = map (\<lambda>i. snd (fst (call i))) [0..<length bs]
     in exec_return
          ((Status_OK,
            \<lparr>added_statements = (\<Sum>r \<leftarrow> responses. added_statements r),
             removed_statements = (\<Sum>r \<leftarrow> responses. removed_statements r),
             added_namespaces = (\<Sum>r \<leftarrow> responses. added_namespaces r),
             removed_namespaces = (\<Sum>r \<leftarrow> responses. removed_namespaces r)\<rparr>),
           map (\<lambda>i. snd (call i)) [0..<length bs]))"
proof -
  have routed: "routed h n i = (\<lambda>q. \<forall>s. q = stmt_added s \<longrightarrow> unat (h s) mod n = i)" for n i
  proof
    fix q show "routed h n i q \<longleftrightarrow> (\<forall>s. q = stmt_added s \<longrightarrow> unat (h s) mod n = i)" by (cases q) simp_all
  qed
  have "Update_route h reader (replicate (length bs) []) =
      exec_return (map (\<lambda>i. [q \<leftarrow> reader. routed h (length bs) i q]) [0..<length bs])"
    using Update_route_result [of "replicate (length bs) []" "length bs" h reader] assms
    by (simp cong: map_cong)
  then show ?thesis
    unfolding Sharding_Update_def Let_def routed [symmetric]
    by (simp add: zip_upt_map foldl_UpdateResponse_add UpdateResponse_default_def del: map_map)
      (simp add: comp_def)
qed

text \<open>
  How a batch of updates is sharded. With at least one backend, an added statement goes to the
  backend its hash selects and every other request to all backends, each backend receiving its
  requests in the order of the stream; the response sums the statistics of all backends.
\<close>

theorem Sharding_Update_routes:
  assumes "bs \<noteq> []"
  shows "Sharding_Update S h reader bs =
    (let call = (\<lambda>i. stub_Update S [q \<leftarrow> reader. \<forall>s. q = stmt_added s \<longrightarrow> unat (h s) mod length bs = i] (bs ! i));
         responses = map (\<lambda>i. snd (fst (call i))) [0..<length bs]
     in exec_return
          ((Status_OK,
            \<lparr>added_statements = (\<Sum>r \<leftarrow> responses. added_statements r),
             removed_statements = (\<Sum>r \<leftarrow> responses. removed_statements r),
             added_namespaces = (\<Sum>r \<leftarrow> responses. added_namespaces r),
             removed_namespaces = (\<Sum>r \<leftarrow> responses. removed_namespaces r)\<rparr>),
           map (\<lambda>i. snd (call i)) [0..<length bs]))"
  by (rule Sharding_Update_result [OF assms])

theorem Sharding_Update_routes_witness:
  "\<exists>r. Sharding_Update (leveldb_stub (list_environment True) (\<lambda>_. 0) rev) (\<lambda>_. 0)
      [stmt_added example_statement] [empty_store, empty_store] = exec_return r"
  using Sharding_Update_routes [of "[empty_store, empty_store]"] by (simp add: Let_def)

subsection \<open>The shared sum of Fanout\<close>

lemma fan_step_length: "length (fst (fan_step vs st i)) = length (fst st)"
  by (cases st) (auto split: fan_phase.split)

text \<open>A thread that loads and stores without interruption adds its value.\<close>

lemma fan_two_steps:
  assumes "i < length ph" and "ph ! i = Fan_load"
  shows "foldl (fan_step vs) (ph, r) [i, i] = (ph[i := Fan_done], r + vs ! i)"
  using assms by simp

lemma fan_join:
  assumes "k \<le> length vs"
  shows "foldl (fan_step vs) (replicate (length vs) Fan_load, 0) (join_schedule k) =
    (replicate k Fan_done @ replicate (length vs - k) Fan_load, sum_list (take k vs))"
  using assms
proof (induction k)
  case (Suc k)
  let ?ph = "replicate k Fan_done @ replicate (length vs - k) Fan_load"
  have k: "k < length ?ph" "?ph ! k = Fan_load" using Suc.prems by (simp_all add: nth_append)
  have "replicate (length vs - k) Fan_load = Fan_load # replicate (length vs - Suc k) Fan_load"
    using Suc.prems by (metis Suc_diff_Suc Suc_le_lessD replicate_Suc)
  then have "?ph[k := Fan_done] = replicate (Suc k) Fan_done @ replicate (length vs - Suc k) Fan_load"
    by (simp add: list_update_append replicate_app_Cons_same)
  moreover have "sum_list (take k vs) + vs ! k = sum_list (take (Suc k) vs)"
    using Suc.prems by (simp add: take_Suc_conv_app_nth)
  moreover have "join_schedule (Suc k) = join_schedule k @ [k, k]" by (simp add: join_schedule_def)
  ultimately show ?case
    using Suc fan_two_steps [OF k, of vs] by (simp only: foldl_append Suc_leD)
qed (simp add: join_schedule_def)

lemma fan_sum_sequential: "fan_sum [] vs = sum_list vs"
  using fan_join [of "length vs" vs] by (simp add: fan_sum_def)

lemma Fanout_result:
  "Fanout call [] bs =
    ((first_error (map (\<lambda>b. fst (fst (call b))) bs), \<Sum>b \<leftarrow> bs. snd (fst (call b))), map (\<lambda>b. snd (call b)) bs)"
  by (simp add: Fanout_def Let_def fan_sum_sequential comp_def)

text \<open>
  Whatever the schedule, every load reads the sum over some threads that are done, so the result is
  the sum over a set of backends: responses can be lost, and nothing else can happen.
\<close>

definition fan_reads :: "int list \<Rightarrow> fan_phase list \<Rightarrow> int \<Rightarrow> bool" where
  "fan_reads vs ph x \<longleftrightarrow>
     (\<exists>I \<subseteq> {i. i < length vs \<and> ph ! i = Fan_done}. x = (\<Sum>i \<in> I. vs ! i) \<and> (Fan_done \<in> set ph \<longrightarrow> I \<noteq> {}))"

definition fan_ok :: "int list \<Rightarrow> fan_phase list \<times> int \<Rightarrow> bool" where
  "fan_ok vs st \<longleftrightarrow> length (fst st) = length vs \<and> fan_reads vs (fst st) (snd st) \<and>
     (\<forall>i < length vs. \<forall>x. fst st ! i = Fan_store x \<longrightarrow>
        (\<exists>I \<subseteq> {j. j < length vs \<and> fst st ! j = Fan_done}. x = (\<Sum>j \<in> I. vs ! j)))"

lemma fan_step_ok:
  assumes "fan_ok vs st"
  shows "fan_ok vs (fan_step vs st i)"
proof -
  obtain ph r where st: "st = (ph, r)" by (cases st)
  let ?D = "\<lambda>ph. {j. j < length vs \<and> ph ! j = Fan_done}"
  have len: "length ph = length vs" and r: "fan_reads vs ph r"
    and stores: "\<And>j x. j < length vs \<Longrightarrow> ph ! j = Fan_store x \<Longrightarrow> \<exists>I \<subseteq> ?D ph. x = (\<Sum>j \<in> I. vs ! j)"
    using assms by (auto simp: fan_ok_def st)
  show ?thesis
  proof (cases "i < length vs")
    case True
    show ?thesis
    proof (cases "ph ! i")
      case Fan_load
      have same: "?D (ph[i := Fan_store r]) = ?D ph"
        using Fan_load True len by (auto simp: nth_list_update split: if_splits)
      have mem: "Fan_done \<in> set (ph[i := Fan_store r]) \<longleftrightarrow> Fan_done \<in> set ph"
        using same len by (auto simp: in_set_conv_nth)
      have "\<exists>I \<subseteq> ?D ph. r = (\<Sum>j \<in> I. vs ! j)" using r by (auto simp: fan_reads_def)
      then have "\<exists>I \<subseteq> ?D ph. x = (\<Sum>j \<in> I. vs ! j)" if "j < length vs" "ph[i := Fan_store r] ! j = Fan_store x" for j x
        using that stores [of j x] True len by (auto simp: nth_list_update split: if_splits)
      with r show ?thesis unfolding fan_ok_def fan_reads_def st using True Fan_load len same mem by simp
    next
      case (Fan_store x)
      obtain I where I: "I \<subseteq> ?D ph" "x = (\<Sum>j \<in> I. vs ! j)" using stores [OF True Fan_store] by blast
      have sub: "?D ph \<subseteq> ?D (ph[i := Fan_done])" "i \<in> ?D (ph[i := Fan_done])"
        using True len by (auto simp: nth_list_update)
      have "finite I" using I(1) by (rule finite_subset) simp
      moreover have "i \<notin> I" using I(1) Fan_store by auto
      ultimately have "x + vs ! i = (\<Sum>j \<in> insert i I. vs ! j)" using I(2) by simp
      then have "fan_reads vs (ph[i := Fan_done]) (x + vs ! i)"
        unfolding fan_reads_def using sub I(1) by (intro exI [of _ "insert i I"]) blast
      moreover have "\<exists>I \<subseteq> ?D (ph[i := Fan_done]). y = (\<Sum>j \<in> I. vs ! j)"
        if j: "j < length vs" "ph[i := Fan_done] ! j = Fan_store y" for j y
      proof -
        have "j \<noteq> i" using j True len by auto
        then obtain J where "J \<subseteq> ?D ph" "y = (\<Sum>j \<in> J. vs ! j)" using stores [of j y] j by auto
        then show ?thesis using sub(1) by blast
      qed
      ultimately show ?thesis unfolding fan_ok_def st using True Fan_store len by simp
    next
      case Fan_done
      then show ?thesis using assms True len by (simp add: st)
    qed
  next
    case False
    then show ?thesis using assms len by (simp add: st)
  qed
qed

lemma fan_steps_ok: "fan_ok vs st \<Longrightarrow> fan_ok vs (foldl (fan_step vs) st sched)"
  by (induction sched arbitrary: st) (simp_all add: fan_step_ok)

lemma fan_step_done: "j < length (fst st) \<Longrightarrow> fst st ! j = Fan_done \<Longrightarrow> fst (fan_step vs st i) ! j = Fan_done"
  by (cases st) (auto simp: nth_list_update split: fan_phase.split)

lemma fan_steps_length: "length (fst (foldl (fan_step vs) st sched)) = length (fst st)"
  by (induction sched arbitrary: st) (simp_all add: fan_step_length)

lemma fan_joined:
  assumes "k \<le> length (fst st)"
  shows "\<forall>j < k. fst (foldl (fan_step vs) st (join_schedule k)) ! j = Fan_done"
  using assms
proof (induction k)
  case (Suc k)
  let ?st = "foldl (fan_step vs) st (join_schedule k)"
  have "join_schedule (Suc k) = join_schedule k @ [k, k]" by (simp add: join_schedule_def)
  then have run: "foldl (fan_step vs) st (join_schedule (Suc k)) = fan_step vs (fan_step vs ?st k) k" by simp
  have k: "k < length (fst ?st)" using Suc.prems by (simp add: fan_steps_length)
  have "fst (fan_step vs (fan_step vs ?st k) k) ! k = Fan_done"
    using k by (cases ?st; cases "fst ?st ! k") auto
  moreover have "fst (fan_step vs (fan_step vs ?st k) k) ! j = Fan_done" if "j < k" for j
    using Suc that k by (intro fan_step_done) (simp_all add: fan_step_length)
  ultimately show ?case unfolding run by (simp add: less_Suc_eq)
qed simp

lemma fan_sum_subset:
  "\<exists>I \<subseteq> {..<length vs}. fan_sum schedule vs = (\<Sum>i \<in> I. vs ! i) \<and> (vs \<noteq> [] \<longrightarrow> I \<noteq> {})"
proof -
  let ?start = "(replicate (length vs) Fan_load, 0) :: fan_phase list \<times> int"
  let ?mid = "foldl (fan_step vs) ?start schedule"
  let ?final = "foldl (fan_step vs) ?mid (join_schedule (length vs))"
  have "fan_ok vs ?start" by (auto simp: fan_ok_def fan_reads_def)
  then have ok: "fan_ok vs ?final" by (intro fan_steps_ok)
  have "\<forall>j < length vs. fst ?final ! j = Fan_done"
    by (rule fan_joined) (simp add: fan_steps_length)
  moreover have "length (fst ?final) = length vs" by (simp add: fan_steps_length)
  ultimately have "vs \<noteq> [] \<Longrightarrow> Fan_done \<in> set (fst ?final)" by (metis length_greater_0_conv nth_mem)
  moreover have "fan_sum schedule vs = snd ?final" by (simp add: fan_sum_def)
  ultimately show ?thesis using ok unfolding fan_ok_def fan_reads_def by (metis (no_types, lifting) lessThan_iff mem_Collect_eq subset_iff)
qed

lemma fan_sum_bounds:
  assumes "\<forall>v \<in> set vs. 0 \<le> v"
  shows "0 \<le> fan_sum schedule vs" and "fan_sum schedule vs \<le> sum_list vs"
    and "length vs = 1 \<Longrightarrow> fan_sum schedule vs = sum_list vs"
proof -
  obtain I where I: "I \<subseteq> {..<length vs}" "fan_sum schedule vs = (\<Sum>i \<in> I. vs ! i)" "vs \<noteq> [] \<longrightarrow> I \<noteq> {}"
    using fan_sum_subset by blast
  have nth: "0 \<le> vs ! i" if "i < length vs" for i using assms that by simp
  show "0 \<le> fan_sum schedule vs" unfolding I(2) using I(1) nth by (intro sum_nonneg) auto
  show "fan_sum schedule vs \<le> sum_list vs"
    unfolding I(2) sum_list_sum_nth atLeast0LessThan using I(1) nth by (intro sum_mono2) auto
  show "fan_sum schedule vs = sum_list vs" if "length vs = 1"
  proof -
    have "I = {0}" using I(1,3) that by (auto simp: subset_singleton_iff lessThan_Suc)
    then show ?thesis using that by (simp add: I(2) sum_list_sum_nth)
  qed
qed

text \<open>A fan-out whose threads race leaves the backends and the status as one whose threads do not.\<close>

lemma Fanout_schedule:
  assumes "Fanout call [] bs = ((st, n), bs')" and "\<forall>b \<in> set bs. 0 \<le> snd (fst (call b))"
  shows "\<exists>m. Fanout call schedule bs = ((st, m), bs') \<and> 0 \<le> m \<and> m \<le> n \<and> (length bs = 1 \<longrightarrow> m = n)"
proof -
  let ?vs = "map (snd \<circ> fst) (map call bs)"
  have "\<forall>v \<in> set ?vs. 0 \<le> v" using assms(2) by simp
  note bounds = fan_sum_bounds [OF this, of schedule]
  have "n = sum_list ?vs" using assms(1) by (simp add: Fanout_def Let_def fan_sum_sequential)
  moreover have "Fanout call schedule bs = ((st, fan_sum schedule ?vs), bs')"
    using assms(1) by (simp add: Fanout_def Let_def)
  ultimately show ?thesis using bounds by simp
qed

lemma first_error_OK: "first_error (replicate n Status_OK) = Status_OK"
  by (induction n) simp_all

text \<open>
  Fan-out. When no two threads overlap in the addition, the response is the sum of the
  backends' responses; the status is the first failure in the order of the backends.
\<close>

theorem Fanout_sequential:
  "Fanout call [] bs =
    ((first_error (map (\<lambda>b. fst (fst (call b))) bs), \<Sum>b \<leftarrow> bs. snd (fst (call b))), map (\<lambda>b. snd (call b)) bs)"
  by (rule Fanout_result)

text \<open>
  C28: what the race in fan-out can do. Whatever the schedule of the threads, the status and the changes of the backends
  are those of the calls, and the response is the sum of the responses of some of the backends,
  at least one of them: responses can be lost, but not invented or counted twice.
\<close>

theorem Fanout_any_schedule:
  "\<exists>I \<subseteq> {..<length bs}. (bs \<noteq> [] \<longrightarrow> I \<noteq> {}) \<and>
     Fanout call schedule bs =
       ((first_error (map (\<lambda>b. fst (fst (call b))) bs), \<Sum>i \<in> I. snd (fst (call (bs ! i)))), map (\<lambda>b. snd (call b)) bs)"
proof -
  let ?vs = "map (snd \<circ> fst) (map call bs)"
  obtain I where I: "I \<subseteq> {..<length bs}" "fan_sum schedule ?vs = (\<Sum>i \<in> I. ?vs ! i)" "bs \<noteq> [] \<longrightarrow> I \<noteq> {}"
    using fan_sum_subset [of ?vs schedule] by auto
  have "(\<Sum>i \<in> I. ?vs ! i) = (\<Sum>i \<in> I. snd (fst (call (bs ! i))))" using I(1) by (intro sum.cong refl) auto
  with I show ?thesis by (intro exI [of _ I]) (simp add: Fanout_def Let_def comp_def)
qed

theorem Fanout_any_schedule_witness:
  "\<exists>I \<subseteq> {..<2}. I \<noteq> {} \<and> Fanout (\<lambda>b. ((Status_OK, b), b)) [0, 1, 0, 1] [2, 3] = ((Status_OK, \<Sum>i \<in> I. [2, 3] ! i), [2, 3])"
  using Fanout_any_schedule [of "[2, 3]" "\<lambda>b. ((Status_OK, b), b)" "[0, 1, 0, 1]"]
  by (simp add: numeral_2_eq_2)

text \<open>
  C29: the race in fan-out. The threads add to the shared sum without a lock: with two backends
  there is a schedule in which the first response is lost, whatever the backends answer.
\<close>

theorem Fanout_lost_update:
  "\<exists>schedule. Fanout call schedule [b1, b2] =
    ((first_error [fst (fst (call b1)), fst (fst (call b2))], snd (fst (call b2))), [snd (call b1), snd (call b2)])"
  by (intro exI [of _ "[0, 1, 0, 1]"])
    (simp add: Fanout_def Let_def fan_sum_def join_schedule_def numeral_2_eq_2)

text \<open>
  Listing the contexts through the proxy. With at least one backend the handler ends the process
  in \<open>std::terminate\<close>, whatever its threads have done by then, because it never joins them.
\<close>

theorem Sharding_GetContexts_terminates:
  assumes "bs \<noteq> []"
  shows "Sharding_GetContexts S hash iteration_order schedule Write w bs = exec_throw Terminated"
  using assms by (cases bs) (simp_all add: Sharding_GetContexts_def destroy_threads_def)

theorem Sharding_GetContexts_terminates_witness:
  "Sharding_GetContexts (leveldb_stub (list_environment True) (\<lambda>_. 0) rev) (\<lambda>_. 0) rev [0, 1, 0] collect []
     [empty_store, empty_store] = exec_throw Terminated"
  using Sharding_GetContexts_terminates [of "[empty_store, empty_store]"] by simp

subsection \<open>Multiplexed results\<close>

text \<open>
  With a writer that accepts everything, after a schedule each thread has written as many of its
  statements as it had steps, and all that was read has been written.
\<close>

lemma get_schedule_state:
  fixes readers :: "proto_Statement list list" and w :: "proto_Statement list"
  defines "run sched \<equiv> foldl (get_step collect) (map (\<lambda>r. (r, True)) readers, w) sched"
  shows "fst (run sched) = map (\<lambda>i. (drop (count_list sched i) (readers ! i), True)) [0..<length readers] \<and>
    mset (snd (run sched)) + (\<Sum>i < length readers. mset (drop (count_list sched i) (readers ! i))) =
      mset w + (\<Sum>i < length readers. mset (readers ! i))"
proof (induction sched rule: rev_induct)
  case Nil
  have "map (\<lambda>r. (r, True)) readers = map (\<lambda>i. (readers ! i, True)) [0..<length readers]"
    by (rule nth_equalityI) simp_all
  then show ?case by (simp add: run_def)
next
  case (snoc i sched)
  obtain ts w1 where run: "run sched = (ts, w1)" by (cases "run sched")
  let ?d = "\<lambda>j. drop (count_list sched j) (readers ! j)" and ?n = "length readers"
  have ts: "ts = map (\<lambda>j. (?d j, True)) [0..<?n]" using snoc run by simp
  have step: "run (sched @ [i]) = get_step collect (ts, w1) i" using run by (simp add: run_def)
  show ?case
  proof (cases "i < ?n \<and> ?d i \<noteq> []")
    case False
    then have same: "drop (count_list (sched @ [i]) j) (readers ! j) = ?d j" if "j < ?n" for j
      using that by auto
    have "map (\<lambda>j. (drop (count_list (sched @ [i]) j) (readers ! j), True)) [0..<?n] = map (\<lambda>j. (?d j, True)) [0..<?n]"
      by (intro map_cong refl) (simp only: set_upt atLeastLessThan_iff same)
    moreover have "(\<Sum>j < ?n. mset (drop (count_list (sched @ [i]) j) (readers ! j))) = (\<Sum>j < ?n. mset (?d j))"
      by (intro sum.cong refl) (simp only: lessThan_iff same)
    moreover have "run (sched @ [i]) = run sched" using False unfolding step run by (auto simp: ts)
    ultimately show ?thesis using snoc by (simp only:)
  next
    case True
    then obtain s rs where d: "?d i = s # rs" and i: "i < ?n" by (cases "?d i") auto
    have next_d: "drop (count_list (sched @ [i]) j) (readers ! j) = (if j = i then rs else ?d j)" for j
      using d by (simp add: drop_Suc) (metis drop_Suc drop_tl list.sel(3) tl_drop)
    have run': "run (sched @ [i]) = (ts[i := (rs, True)], w1 @ [s])"
      unfolding step using i d by (simp add: ts collect_def)
    have "ts[i := (rs, True)] = map (\<lambda>j. (if j = i then rs else ?d j, True)) [0..<?n]"
      by (rule nth_equalityI) (auto simp: ts nth_list_update)
    moreover have "(\<Sum>j < ?n. mset (?d j)) = {#s#} + (\<Sum>j < ?n. mset (if j = i then rs else ?d j))"
      using i d by (simp add: sum.remove [of "{..<?n}" i])
    ultimately show ?thesis
      using snoc unfolding run' next_d by (simp add: run ac_simps)
  qed
qed

text \<open>
  Whatever the client answers, a thread that still runs has read one statement in each of its turns.
\<close>

lemma get_schedule_progress:
  fixes Write :: "('w, proto_Statement) ServerWriter" and readers :: "proto_Statement list list" and w :: 'w
  defines "run sched \<equiv> fst (foldl (get_step Write) (map (\<lambda>r. (r, True)) readers, w) sched)"
  shows "length (run sched) = length readers \<and>
    (\<forall>i < length readers. snd (run sched ! i) \<longrightarrow> fst (run sched ! i) = drop (count_list sched i) (readers ! i))"
proof (induction sched rule: rev_induct)
  case (snoc i sched)
  let ?state = "foldl (get_step Write) (map (\<lambda>r. (r, True)) readers, w) sched"
  obtain ts w1 where state: "?state = (ts, w1)" by (cases ?state)
  then have IH: "length ts = length readers" "fst (ts ! j) = drop (count_list sched j) (readers ! j)"
    if "j < length readers" "snd (ts ! j)" for j using snoc that by (simp_all add: run_def)
  have step: "run (sched @ [i]) = fst (get_step Write (ts, w1) i)" by (simp add: run_def state)
  have len: "length ts = length readers" using snoc by (simp add: run_def state)
  show ?case
  proof (cases "i < length ts \<and> snd (ts ! i) \<and> fst (ts ! i) \<noteq> []")
    case True
    then obtain s rs where t: "ts ! i = (s # rs, True)" by (cases "ts ! i"; cases "fst (ts ! i)") auto
    then have "drop (count_list sched i) (readers ! i) = s # rs" using IH(2) [of i] True len by simp
    then have rs: "rs = drop (Suc (count_list sched i)) (readers ! i)" by (metis drop_Suc list.sel(3) tl_drop)
    have new: "run (sched @ [i]) = ts[i := (rs, fst (Write w1 s))]"
      using True t by (simp add: step split: prod.split)
    show ?thesis using IH(2) rs len by (auto simp: new nth_list_update)
  next
    case False
    then have same: "run (sched @ [i]) = ts"
      by (auto simp: step split: prod.split list.split bool.split)
    have "drop (count_list (sched @ [i]) j) (readers ! j) = drop (count_list sched j) (readers ! j)"
      if "j < length readers" "snd (ts ! j)" for j
      using False IH(2) [OF that] that len by auto
    then show ?thesis using IH(2) len by (simp add: same)
  qed
qed (simp add: run_def)

lemma get_step_idle:
  "\<forall>t \<in> set ts. \<not> snd t \<or> fst t = [] \<Longrightarrow> foldl (get_step Write) (ts, w) later = (ts, w)"
proof (induction later)
  case (Cons i later)
  have "get_step Write (ts, w) i = (ts, w)"
  proof (cases "i < length ts")
    case True
    then have "\<not> snd (ts ! i) \<or> fst (ts ! i) = []" using Cons.prems nth_mem by blast
    then show ?thesis by (cases "ts ! i") (auto split: list.split bool.split)
  qed simp
  then show ?case using Cons by simp
qed simp

lemma get_schedule_finished:
  assumes "\<forall>i < length readers. length (readers ! i) \<le> count_list sched i"
  shows "\<forall>t \<in> set (fst (foldl (get_step Write) (map (\<lambda>r. (r, True)) readers, w) sched)). \<not> snd t \<or> fst t = []"
  using get_schedule_progress [of Write readers w sched] assms by (fastforce simp: in_set_conv_nth)

text \<open>
  C27: The threads of \<open>GetStatements\<close> end. Every schedule that gives each thread at least as many turns
  as its backend has statements ends with all threads returned, whether the client accepts all
  statements or stops reading at any point, and the operation answers with what has been written
  until then.
\<close>

theorem Sharding_GetStatements_ends:
  fixes S :: "'b SailStub" and bs :: "'b list" and Write :: "('w, proto_Statement) ServerWriter" and w :: 'w
  assumes "\<forall>i < length bs. length (stub_GetStatements S pattern (bs ! i)) \<le> count_list schedule i"
  defines "final \<equiv> foldl (get_step Write) (map (\<lambda>b. (stub_GetStatements S pattern b, True)) bs, w) schedule"
  shows "(\<forall>t \<in> set (fst final). \<not> snd t \<or> fst t = []) \<and>
    foldl (get_step Write) final later = final \<and>
    Sharding_GetStatements S schedule pattern Write w bs = (Status_OK, snd final)"
proof -
  let ?rs = "map (stub_GetStatements S pattern) bs"
  have final: "final = foldl (get_step Write) (map (\<lambda>r. (r, True)) ?rs, w) schedule"
    by (simp add: final_def comp_def)
  have returned: "\<forall>t \<in> set (fst final). \<not> snd t \<or> fst t = []"
    unfolding final using assms(1) by (intro get_schedule_finished) simp
  have idle: "foldl (get_step Write) final is = final" for "is"
    using get_step_idle [OF returned] by (metis prod.collapse)
  show ?thesis
    unfolding Sharding_GetStatements_def Let_def foldl_append final [symmetric] idle using returned by simp
qed

text \<open>Backends that hold a fixed list of statements and refuse every change.\<close>

definition listing_stub :: "proto_Statement list SailStub" where
  "listing_stub =
     \<lparr>stub_AddNamespaces = (\<lambda>_ b. ((Status_NOT_FOUND, 0), b)), stub_GetNamespace = (\<lambda>n _. (Status_NOT_FOUND, n)),
      stub_GetNamespaces = (\<lambda>_. (Status_OK, [])), stub_AddStatements = (\<lambda>_ b. ((Status_NOT_FOUND, 0), b)),
      stub_GetStatements = (\<lambda>_ b. b), stub_RemoveStatements = (\<lambda>_ b. ((Status_NOT_FOUND, 0), b)),
      stub_Update = (\<lambda>_ b. ((Status_NOT_FOUND, UpdateResponse_default), b)),
      stub_Clear = (\<lambda>_ b. ((Status_NOT_FOUND, 0), b)), stub_Size = (\<lambda>_ b. ((Status_OK, int (length b)), b)),
      stub_GetContexts = (\<lambda>_. [])\<rparr>"

theorem Sharding_GetStatements_ends_witness:
  "Sharding_GetStatements listing_stub [1, 0, 1] Statement_default (\<lambda>w s. (False, w @ [s])) []
     [[Statement_default], [Statement_default, Statement_default]] =
   (Status_OK, [Statement_default, Statement_default])"
proof -
  let ?bs = "[[Statement_default], [Statement_default, Statement_default]]"
  have "\<forall>i < length ?bs. length (stub_GetStatements listing_stub Statement_default (?bs ! i)) \<le> count_list [1, 0, 1] i"
    by (simp add: All_less_Suc listing_stub_def)
  from Sharding_GetStatements_ends [OF this, where Write = "\<lambda>w s. (False, w @ [s])" and w = "[]"]
  show ?thesis by (simp add: listing_stub_def)
qed

lemma count_joins:
  "j < n \<Longrightarrow> count_list (concat (map (\<lambda>i. replicate (f i) i) [0..<n])) j = f j"
proof (induction n)
  case (Suc n)
  have rep: "count_list (replicate k a) b = (if a = b then k else 0)" for k and a b :: nat
    by (induction k) auto
  have "count_list (concat (map (\<lambda>i. replicate (f i) i) [0..<m])) m = 0" for m
    by (induction m) (auto simp: count_list_0_iff)
  with Suc show ?case by (cases "j = n") (auto simp: rep count_list_0_iff)
qed simp

lemma Sharding_GetStatements_result:
  "\<exists>w. Sharding_GetStatements S schedule pattern collect [] bs = (Status_OK, w) \<and>
     mset w = (\<Sum>i < length bs. mset (stub_GetStatements S pattern (bs ! i)))"
proof -
  let ?rs = "map (stub_GetStatements S pattern) bs"
  let ?joins = "concat (map (\<lambda>i. replicate (length (?rs ! i)) i) [0..<length ?rs])"
  have "drop (count_list (schedule @ ?joins) i) (?rs ! i) = []" if "i < length bs" for i
    using count_joins [of i "length ?rs" "\<lambda>i. length (?rs ! i)"] that by simp
  then have "(\<Sum>i < length ?rs. mset (drop (count_list (schedule @ ?joins) i) (?rs ! i))) = {#}"
    by (intro sum.neutral) simp
  then show ?thesis
    using get_schedule_state [of ?rs "[]" "schedule @ ?joins"]
    by (simp add: Sharding_GetStatements_def Let_def)
qed

text \<open>
  Reading through the proxy. Whatever the schedule of the threads, with a client that reads all
  of the stream each statement is written as often as the backends report it, and nothing else is.
\<close>

theorem Sharding_GetStatements_multiset:
  "\<exists>w. Sharding_GetStatements S schedule pattern collect [] bs = (Status_OK, w) \<and>
     mset w = (\<Sum>i < length bs. mset (stub_GetStatements S pattern (bs ! i)))"
  by (rule Sharding_GetStatements_result)

subsection \<open>The contract of a backend\<close>

text \<open>Every backend is sound and holds only statements that their hash sends to it.\<close>

definition placed ::
  "('b \<Rightarrow> bool) \<Rightarrow> ('b \<Rightarrow> proto_Statement set) \<Rightarrow> (proto_Statement \<Rightarrow> 64 word) \<Rightarrow> 'b list \<Rightarrow> bool" where
  "placed ok contents h bs \<longleftrightarrow>
     (\<forall>i < length bs. ok (bs ! i) \<and> (\<forall>s \<in> contents (bs ! i). bucket h (length bs) s = i))"

definition all_contents :: "('b \<Rightarrow> proto_Statement set) \<Rightarrow> 'b list \<Rightarrow> proto_Statement set" where
  "all_contents contents bs = (\<Union>i < length bs. contents (bs ! i))"

lemma placed_shard:
  assumes "placed ok contents h bs" and "i < length bs"
  shows "ok (bs ! i)" and "s \<in> contents (bs ! i) \<Longrightarrow> bucket h (length bs) s = i"
  using assms by (auto simp: placed_def)

lemma placed_disjoint:
  assumes "placed ok contents h bs" and "i < length bs" and "j < length bs" and "i \<noteq> j"
  shows "contents (bs ! i) \<inter> contents (bs ! j) = {}"
  using placed_shard(2) [OF assms(1,2)] placed_shard(2) [OF assms(1,3)] assms(4) by blast

text \<open>The shards are disjoint, so counts over them add up.\<close>

lemma card_placed:
  assumes "placed ok contents h bs" and "\<And>b. ok b \<Longrightarrow> finite (contents b)"
  shows "(\<Sum>i < length bs. int (card {s \<in> contents (bs ! i). P s})) = int (card {s \<in> all_contents contents bs. P s})"
proof -
  let ?F = "\<lambda>i. {s \<in> contents (bs ! i). P s}"
  have "{s \<in> all_contents contents bs. P s} = (\<Union>i \<in> {..<length bs}. ?F i)" by (auto simp: all_contents_def)
  moreover have "\<forall>i \<in> {..<length bs}. finite (?F i)" using assms by (simp add: placed_def)
  moreover have "\<forall>i \<in> {..<length bs}. \<forall>j \<in> {..<length bs}. i \<noteq> j \<longrightarrow> ?F i \<inter> ?F j = {}"
    using placed_disjoint [OF assms(1)] by fastforce
  ultimately show ?thesis by (simp add: card_UN_disjoint)
qed

lemma distinct_concat_upt:
  assumes "\<And>i. i < n \<Longrightarrow> distinct (l i)" and "\<And>i j. i < j \<Longrightarrow> j < n \<Longrightarrow> set (l i) \<inter> set (l j) = {}"
  shows "distinct (concat (map l [0..<n]))"
  using assms
proof (induction n)
  case (Suc n)
  have "set (l i) \<inter> set (l n) = {}" if "i < n" for i using Suc.prems(2) [OF that] by simp
  then have "set (concat (map l [0..<n])) \<inter> set (l n) = {}" by fastforce
  with Suc show ?case by simp
qed simp

lemma sum_list_upt: "sum_list (map f [0..<n]) = (\<Sum>i < n. f i)"
  by (induction n) simp_all

lemma sum_bucket_lengths:
  assumes "0 < n"
  shows "(\<Sum>i < n. int (length [s \<leftarrow> reader. unat (h s) mod n = i])) = int (length reader)"
proof (induction reader)
  case (Cons s reader)
  have "(\<Sum>i < n. int (length [u \<leftarrow> s # reader. unat (h u) mod n = i])) =
      (\<Sum>i < n. (if unat (h s) mod n = i then 1 else 0) + int (length [u \<leftarrow> reader. unat (h u) mod n = i]))"
    by (intro sum.cong refl) simp
  also have "\<dots> = 1 + int (length reader)" using Cons assms by (simp add: sum.distrib sum.delta)
  finally show ?case by simp
qed simp

text \<open>
  What the proxy relies on: a backend holds a set of statements; adding puts each statement in,
  replacing those it considers the same; reading lists the hits of a pattern, each once; removing
  takes them away and counts them; clearing does so with the statements a list of contexts selects;
  the size is the number of statements, or with a list of contexts the sum of the numbers of
  statements in each of them. Reading alone is the contract \<open>sail_reader\<close>.
\<close>

definition counted ::
  "(proto_Resource list \<Rightarrow> proto_Statement \<Rightarrow> bool) \<Rightarrow> proto_Resource list \<Rightarrow> proto_Statement set \<Rightarrow> int" where
  "counted selected contexts C =
     (if contexts = [] then int (card C) else (\<Sum>r \<leftarrow> contexts. int (card {s \<in> C. selected [r] s})))"

locale sail_reader =
  fixes S :: "'b SailStub" and ok :: "'b \<Rightarrow> bool" and contents :: "'b \<Rightarrow> proto_Statement set"
    and hit :: "proto_Statement \<Rightarrow> proto_Statement \<Rightarrow> bool"
  assumes get: "ok b \<Longrightarrow> set (stub_GetStatements S pattern b) = {s \<in> contents b. hit pattern s} \<and>
      distinct (stub_GetStatements S pattern b)"
begin

lemma get_all:
  assumes "placed ok contents h bs"
  shows "\<exists>w. Sharding_GetStatements S schedule pattern collect [] bs = (Status_OK, w) \<and>
    set w = {s \<in> all_contents contents bs. hit pattern s} \<and> distinct w"
proof -
  let ?l = "\<lambda>i. stub_GetStatements S pattern (bs ! i)" and ?n = "length bs"
  obtain w where w: "Sharding_GetStatements S schedule pattern collect [] bs = (Status_OK, w)"
    "mset w = (\<Sum>i < ?n. mset (?l i))"
    using Sharding_GetStatements_result by blast
  have l: "set (?l i) = {s \<in> contents (bs ! i). hit pattern s}" "distinct (?l i)" if "i < ?n" for i
    using get [of "bs ! i" pattern] assms that by (simp_all add: placed_def)
  have "mset w = mset (concat (map ?l [0..<?n]))"
    unfolding w(2) by (simp add: mset_concat comp_def interv_sum_list_conv_sum_set_nat atLeast0LessThan)
  moreover have "set (?l i) \<inter> set (?l j) = {}" if "i < j" "j < ?n" for i j
    using placed_disjoint [OF assms, of i j] that by (auto simp: l)
  then have "distinct (concat (map ?l [0..<?n]))" by (intro distinct_concat_upt l(2)) blast+
  moreover have "set (concat (map ?l [0..<?n])) = {s \<in> all_contents contents bs. hit pattern s}"
    using l(1) by (auto simp: all_contents_def)
  ultimately show ?thesis using w(1) mset_eq_imp_distinct_iff mset_eq_setD by metis
qed

end

locale sail_backend = sail_reader S ok contents hit
  for S :: "'b SailStub" and ok :: "'b \<Rightarrow> bool" and contents :: "'b \<Rightarrow> proto_Statement set"
    and hit :: "proto_Statement \<Rightarrow> proto_Statement \<Rightarrow> bool" +
  fixes valid :: "proto_Statement \<Rightarrow> bool"
    and same :: "proto_Statement \<Rightarrow> proto_Statement \<Rightarrow> bool"
    and selected :: "proto_Resource list \<Rightarrow> proto_Statement \<Rightarrow> bool"
  assumes finite_contents: "ok b \<Longrightarrow> finite (contents b)"
    and add: "ok b \<Longrightarrow> \<forall>s \<in> set ss. valid s \<Longrightarrow> \<exists>b'. stub_AddStatements S ss b = ((Status_OK, int (length ss)), b') \<and>
      ok b' \<and> contents b' = foldl (\<lambda>C s. insert s {u \<in> C. \<not> same u s}) (contents b) ss"
    and remove: "ok b \<Longrightarrow> \<exists>b'. stub_RemoveStatements S pattern b =
        ((Status_OK, int (card {s \<in> contents b. hit pattern s})), b') \<and>
      ok b' \<and> contents b' = {s \<in> contents b. \<not> hit pattern s}"
    and clear: "ok b \<Longrightarrow> \<exists>b'. stub_Clear S contexts b =
        ((Status_OK, int (card {s \<in> contents b. selected contexts s})), b') \<and>
      ok b' \<and> contents b' = {s \<in> contents b. \<not> selected contexts s}"
    and size_all: "ok b \<Longrightarrow> stub_Size S contexts b = ((Status_OK, counted selected contexts (contents b)), b)"
begin

lemma added_subset: "foldl (\<lambda>C s. insert s {u \<in> C. \<not> same u s}) C ss \<subseteq> C \<union> set ss"
  by (induction ss arbitrary: C) fastforce+

lemma added_exact:
  assumes "\<forall>u \<in> C \<union> set ss. \<forall>v \<in> C \<union> set ss. same u v \<longrightarrow> u = v"
  shows "foldl (\<lambda>C s. insert s {u \<in> C. \<not> same u s}) C ss = C \<union> set ss"
  using assms
proof (induction ss arbitrary: C)
  case (Cons s ss)
  have eq: "insert s {u \<in> C. \<not> same u s} \<union> set ss = C \<union> set (s # ss)" using Cons.prems by auto
  then show ?case using Cons.IH [of "insert s {u \<in> C. \<not> same u s}"] Cons.prems by (simp only: foldl_Cons eq)
qed simp

lemma add_all:
  assumes "placed ok contents h bs" and "bs \<noteq> []" and "\<forall>s \<in> set reader. valid s"
  shows "\<exists>bs'. Sharding_AddStatements S h reader bs = exec_return ((Status_OK, int (length reader)), bs') \<and>
    placed ok contents h bs' \<and>
    ((\<forall>u \<in> all_contents contents bs \<union> set reader. \<forall>v \<in> all_contents contents bs \<union> set reader. same u v \<longrightarrow> u = v) \<longrightarrow>
      all_contents contents bs' = all_contents contents bs \<union> set reader)"
proof -
  let ?n = "length bs" and ?r = "\<lambda>i. [s \<leftarrow> reader. unat (h s) mod length bs = i]"
  let ?C = "\<lambda>i. foldl (\<lambda>C s. insert s {u \<in> C. \<not> same u s}) (contents (bs ! i)) (?r i)"
  have "\<forall>i. \<exists>b'. i < ?n \<longrightarrow> stub_AddStatements S (?r i) (bs ! i) = ((Status_OK, int (length (?r i))), b') \<and> ok b' \<and> contents b' = ?C i"
    using add [of "bs ! i" "?r i" for i] assms(1,3) unfolding placed_def by simp
  from choice [OF this] obtain f where f: "i < ?n \<Longrightarrow> stub_AddStatements S (?r i) (bs ! i) = ((Status_OK, int (length (?r i))), f i)"
    "i < ?n \<Longrightarrow> ok (f i)" "i < ?n \<Longrightarrow> contents (f i) = ?C i" for i by blast
  let ?bs = "map f [0..<?n]"
  have calls: "map (\<lambda>i. snd (stub_AddStatements S (?r i) (bs ! i))) [0..<?n] = ?bs"
    "(\<Sum>i \<leftarrow> [0..<?n]. snd (fst (stub_AddStatements S (?r i) (bs ! i)))) = int (length reader)"
    using sum_bucket_lengths [of ?n h reader] assms(2) f(1) by (simp_all add: sum_list_upt cong: sum.cong_simp)
  have run: "Sharding_AddStatements S h reader bs = exec_return ((Status_OK, int (length reader)), ?bs)"
    using assms(2) unfolding Sharding_AddStatements_result Let_def calls by simp
  have "bucket h ?n s = i" if "i < ?n" "s \<in> contents (f i)" for i s
    using added_subset [of "contents (bs ! i)" "?r i"] that assms(1) unfolding f(3) [OF that(1)]
    by (auto simp: placed_def)
  then have "placed ok contents h ?bs" using f(2) by (simp add: placed_def)
  moreover have "all_contents contents ?bs = all_contents contents bs \<union> set reader"
    if sep: "\<forall>u \<in> all_contents contents bs \<union> set reader. \<forall>v \<in> all_contents contents bs \<union> set reader. same u v \<longrightarrow> u = v"
  proof -
    have "contents (f i) = contents (bs ! i) \<union> set (?r i)" if "i < ?n" for i
    proof -
      have "contents (bs ! i) \<union> set (?r i) \<subseteq> all_contents contents bs \<union> set reader"
        using that by (auto simp: all_contents_def)
      then show ?thesis unfolding f(3) [OF that] using sep by (intro added_exact) blast
    qed
    then have "all_contents contents ?bs = (\<Union>i < ?n. contents (bs ! i) \<union> set (?r i))"
      by (simp add: all_contents_def)
    also have "\<dots> = all_contents contents bs \<union> (\<Union>i < ?n. set (?r i))"
      by (simp add: all_contents_def UN_Un_distrib)
    also have "(\<Union>i < ?n. set (?r i)) = set reader" using assms(2) by auto
    finally show ?thesis .
  qed
  ultimately show ?thesis using run by blast
qed

lemma card_all:
  assumes "placed ok contents h bs"
  shows "(\<Sum>i < length bs. int (card {s \<in> contents (bs ! i). P s})) = int (card {s \<in> all_contents contents bs. P s})"
  using finite_contents by (intro card_placed [OF assms])

lemma fanout_all:
  assumes "placed ok contents h bs"
    and "\<And>b. ok b \<Longrightarrow> \<exists>b'. call b = ((Status_OK, int (card {s \<in> contents b. P s})), b') \<and>
      ok b' \<and> contents b' = {s \<in> contents b. \<not> P s}"
  shows "\<exists>bs'. Fanout call [] bs = ((Status_OK, int (card {s \<in> all_contents contents bs. P s})), bs') \<and>
    placed ok contents h bs' \<and> all_contents contents bs' = {s \<in> all_contents contents bs. \<not> P s}"
proof -
  let ?n = "length bs" and ?bs = "map (\<lambda>b. snd (call b)) bs"
  have c: "fst (call (bs ! i)) = (Status_OK, int (card {s \<in> contents (bs ! i). P s})) \<and>
      ok (?bs ! i) \<and> contents (?bs ! i) = {s \<in> contents (bs ! i). \<not> P s}" if i: "i < ?n" for i
  proof -
    obtain b' where "call (bs ! i) = ((Status_OK, int (card {s \<in> contents (bs ! i). P s})), b')"
      "ok b'" "contents b' = {s \<in> contents (bs ! i). \<not> P s}"
      using assms(2) [OF placed_shard(1) [OF assms(1) i]] by blast
    then show ?thesis using i by simp
  qed
  have "map (\<lambda>b. fst (fst (call b))) bs = replicate ?n Status_OK"
    by (rule nth_equalityI) (simp_all add: c)
  then have status: "first_error (map (\<lambda>b. fst (fst (call b))) bs) = Status_OK"
    by (simp add: first_error_OK)
  have "(\<Sum>b \<leftarrow> bs. snd (fst (call b))) = (\<Sum>i < ?n. snd (fst (call (bs ! i))))"
    by (simp add: sum_list_sum_nth atLeast0LessThan)
  also have "\<dots> = int (card {s \<in> all_contents contents bs. P s})"
    unfolding card_all [OF assms(1), symmetric] using c by (intro sum.cong refl) simp
  finally have "Fanout call [] bs = ((Status_OK, int (card {s \<in> all_contents contents bs. P s})), ?bs)"
    unfolding Fanout_result status by simp
  moreover have "placed ok contents h ?bs" using placed_shard [OF assms(1)] c by (simp add: placed_def)
  moreover have "all_contents contents ?bs = {s \<in> all_contents contents bs. \<not> P s}"
    using c by (auto simp: all_contents_def)
  ultimately show ?thesis by blast
qed

lemmas remove_all = fanout_all [OF _ remove, folded Sharding_RemoveStatements_def]
lemmas clear_all = fanout_all [OF _ clear, folded Sharding_Clear_def]

lemma counted_all:
  assumes "placed ok contents h bs"
  shows "(\<Sum>i < length bs. counted selected contexts (contents (bs ! i))) = counted selected contexts (all_contents contents bs)"
proof (cases "contexts = []")
  case True
  then show ?thesis using card_all [OF assms, of "\<lambda>_. True"] by (simp add: counted_def)
next
  case False
  have "(\<Sum>i < length bs. \<Sum>r \<leftarrow> rs. int (card {s \<in> contents (bs ! i). selected [r] s})) =
      (\<Sum>r \<leftarrow> rs. int (card {s \<in> all_contents contents bs. selected [r] s}))" for rs
    by (induction rs) (simp_all add: sum.distrib card_all [OF assms])
  with False show ?thesis by (simp add: counted_def)
qed

lemma size_of_all:
  assumes "placed ok contents h bs"
  shows "Sharding_Size S [] contexts bs = ((Status_OK, counted selected contexts (all_contents contents bs)), bs)"
proof -
  let ?count = "counted selected contexts"
  have c: "\<forall>b \<in> set bs. stub_Size S contexts b = ((Status_OK, ?count (contents b)), b)"
    using size_all assms by (auto simp: placed_def in_set_conv_nth)
  have "first_error (map (\<lambda>b. fst (fst (stub_Size S contexts b))) bs) = Status_OK"
    "map (\<lambda>b. snd (stub_Size S contexts b)) bs = bs"
    "(\<Sum>b \<leftarrow> bs. snd (fst (stub_Size S contexts b))) = (\<Sum>b \<leftarrow> bs. ?count (contents b))"
    using c by (induction bs) simp_all
  then show ?thesis
    using counted_all [OF assms]
    by (simp add: Sharding_Size_def Fanout_result sum_list_sum_nth atLeast0LessThan)
qed

end

end
