(* ===== verification/Sharded_Store.thy ===== *)
theory Sharded_Store
  imports Sharding
begin

text \<open>
  The proxy of \<open>sharding/sharding.cc\<close> in front of LevelDB backends (\<open>persistence/leveldb_service.cc\<close>):
  the contract \<open>sail_backend\<close> holds for the stub over the handlers of \<open>Service\<close> while the disk does
  not fail, so the proxy as a whole behaves as one set of statements, distributed by hash.
\<close>

subsection \<open>LevelDB backends meet the contract\<close>

lemma call_update_return [simp]: "call_update n p (exec_return r) = r"
  by (simp add: call_update_def exec_return_def)

lemma call_result_return [simp]: "call_result n (exec_return r) = r"
  by (simp add: call_result_def exec_return_def)

locale reliable_store = store E A
  for E :: "('db, 'it) environment" and A :: "('db, 'it) view" +
  fixes std_hash :: string_hash and iteration_order :: "proto_Resource list \<Rightarrow> proto_Resource list"
  assumes writes_succeed: "db_Write E db b \<noteq> None"
begin

lemma stub_add:
  assumes "wf_statements E A p" and "\<forall>s \<in> set ss. stmt_ok A s"
  shows "\<exists>p'. stub_AddStatements (leveldb_stub E std_hash iteration_order) ss p = ((Status_OK, int (length ss)), p') \<and>
    wf_statements E A p' \<and>
    stored E A p' = foldl (\<lambda>C s. insert s {u \<in> C. \<not> same_hashes E u s}) (stored E A p) ss"
proof -
  have ops: "\<forall>op \<in> set (map Op_Add ss). stmt_ok A (op_stmt op)" using assms(2) by auto
  have "writes_ok E (statement_writers (batches_of E (map Op_Add ss))) p"
    using writes_succeed by (auto simp: writes_ok_def)
  then obtain p' where "run_writers E (statement_writers (batches_of E (map Op_Add ss))) p = exec_return p'"
    "wf_statements E A p'" "stored E A p' = foldl (apply_stmt_op E) (stored E A p) (map Op_Add ss)"
    using run_statement_writers [OF assms(1) ops] by auto
  then show ?thesis by (simp add: leveldb_stub_def Service_AddStatements_run foldl_map)
qed

lemma stub_get:
  assumes "wf_statements E A p"
  shows "set (stub_GetStatements (leveldb_stub E std_hash iteration_order) pattern p) =
      {s \<in> stored E A p. hash_matches E (effective pattern) s} \<and>
    distinct (stub_GetStatements (leveldb_stub E std_hash iteration_order) pattern p)"
  using query_result_set(1,2) [OF assms, of pattern]
  by (simp add: leveldb_stub_def Service_GetStatements_def GetStatements_result collect_all)

lemma stub_remove:
  assumes "wf_statements E A p"
  shows "\<exists>p'. stub_RemoveStatements (leveldb_stub E std_hash iteration_order) pattern p =
      ((Status_OK, int (card {s \<in> stored E A p. hash_matches E (effective pattern) s})), p') \<and>
    wf_statements E A p' \<and> stored E A p' = {s \<in> stored E A p. \<not> hash_matches E (effective pattern) s}"
proof -
  obtain p' where "RemoveStatements E pattern p = exec_return (int (card (hits E (stored E A p) pattern)), p')"
    "wf_statements E A p'" "stored E A p' = stored E A p - hits E (stored E A p) pattern"
    using RemoveStatements_result [OF assms] writes_succeed by blast
  then show ?thesis by (auto simp: leveldb_stub_def Service_RemoveStatements_def)
qed

lemma stub_clear:
  assumes "wf_statements E A p"
  shows "\<exists>p'. stub_Clear (leveldb_stub E std_hash iteration_order) contexts p =
      ((Status_OK, int (card {s \<in> stored E A p. contexts = [] \<or> in_contexts E contexts s})), p') \<and>
    wf_statements E A p' \<and> stored E A p' = {s \<in> stored E A p. contexts \<noteq> [] \<and> \<not> in_contexts E contexts s}"
proof -
  have "\<forall>db b. db_Write E db b \<noteq> None" using writes_succeed by blast
  from Service_Clear_run [OF store_axioms assms this, of contexts]
  show ?thesis by (auto simp: leveldb_stub_def)
qed

lemma stub_size:
  assumes "wf_statements E A p"
  shows "stub_Size (leveldb_stub E std_hash iteration_order) contexts p =
    ((Status_OK, counted (\<lambda>contexts s. contexts = [] \<or> in_contexts E contexts s) contexts (stored E A p)), p)"
  using Size_result [OF assms] Size_contexts_result [OF assms, of Statement_default contexts 0]
  by (simp add: leveldb_stub_def Service_Size_def counted_def)

end

sublocale reliable_store \<subseteq> backend: sail_backend "leveldb_stub E std_hash iteration_order" "wf_statements E A"
  "stored E A" "\<lambda>pattern s. hash_matches E (effective pattern) s" "stmt_ok A" "same_hashes E"
  "\<lambda>contexts s. contexts = [] \<or> in_contexts E contexts s"
  by unfold_locales (simp_all add: stub_add stub_get stub_remove stub_clear stub_size)

interpretation list_backend: reliable_store "list_environment x86_64" list_view std_hash iteration_order
  for x86_64 std_hash iteration_order
  by unfold_locales (simp add: list_environment_def)

context reliable_store
begin

lemmas sharded_add = backend.add_all
lemmas sharded_get = backend.get_all
lemmas sharded_remove = backend.remove_all
lemmas sharded_clear = backend.clear_all
lemmas sharded_size = backend.size_of_all

end

subsection \<open>The sharded store as one set of statements\<close>

text \<open>The backends of a proxy: all consistent, each holding only the statements that hash to it.\<close>

abbreviation sharded ::
  "('db, 'it) environment \<Rightarrow> ('db, 'it) view \<Rightarrow> (proto_Statement \<Rightarrow> 64 word) \<Rightarrow> 'db LevelDBPersistence list \<Rightarrow> bool" where
  "sharded E A h bs \<equiv> placed (wf_statements E A) (stored E A) h bs"

abbreviation sharded_statements ::
  "('db, 'it) environment \<Rightarrow> ('db, 'it) view \<Rightarrow> 'db LevelDBPersistence list \<Rightarrow> proto_Statement set" where
  "sharded_statements E A bs \<equiv> all_contents (stored E A) bs"

lemma reliableI:
  assumes "store E A" and "\<forall>db b. db_Write E db b \<noteq> None"
  shows "reliable_store E A"
  using assms by (simp add: reliable_store_def reliable_store_axioms_def)

text \<open>
  C12: adding through the proxy and reading back. While the disks do not fail and no two of the
  statements involved have the same four hashes, a stream of statements added through the proxy is
  reported and counted as a whole, every shard keeps only statements that hash to it, and a later
  query through the proxy returns exactly the matching statements among the old and the new ones,
  each once, however the threads that read the shards are scheduled.
\<close>

theorem Sharded_add_then_get:
  assumes "store E A" and "\<forall>db b. db_Write E db b \<noteq> None"
    and "sharded E A (hash_Statement std_hash (ser_Statement E)) bs" and "bs \<noteq> []"
    and "\<forall>s \<in> set reader. stmt_ok A s"
    and "\<forall>u \<in> sharded_statements E A bs \<union> set reader. \<forall>v \<in> sharded_statements E A bs \<union> set reader.
      same_hashes E u v \<longrightarrow> u = v"
  shows "\<exists>bs'. Sharding_AddStatements (leveldb_stub E std_hash order) (hash_Statement std_hash (ser_Statement E)) reader bs =
      exec_return ((Status_OK, int (length reader)), bs') \<and>
    sharded E A (hash_Statement std_hash (ser_Statement E)) bs' \<and>
    (\<forall>schedule pattern. \<exists>w.
      Sharding_GetStatements (leveldb_stub E std_hash order) schedule pattern collect [] bs' = (Status_OK, w) \<and>
      set w = {s \<in> sharded_statements E A bs \<union> set reader. hash_matches E (effective pattern) s} \<and> distinct w)"
proof -
  note r = reliableI [OF assms(1,2)]
  obtain bs' where bs': "Sharding_AddStatements (leveldb_stub E std_hash order) (hash_Statement std_hash (ser_Statement E)) reader bs =
      exec_return ((Status_OK, int (length reader)), bs')"
    "sharded E A (hash_Statement std_hash (ser_Statement E)) bs'"
    "sharded_statements E A bs' = sharded_statements E A bs \<union> set reader"
    using reliable_store.sharded_add [OF r assms(3-5)] assms(6) by blast
  then show ?thesis using reliable_store.sharded_get [OF r bs'(2)] unfolding bs'(3) by blast
qed

lemma empty_shards: "sharded (list_environment x) list_view h [empty_store, empty_store]"
  "sharded_statements (list_environment x) list_view [empty_store, empty_store] = {}"
  by (simp_all add: placed_def all_contents_def lessThan_Suc nth_Cons split: nat.split)

theorem Sharded_add_then_get_witness:
  "\<exists>bs'. Sharding_AddStatements (leveldb_stub (list_environment True) (\<lambda>_. 5) rev)
      (hash_Statement (\<lambda>_. 5) (ser_Statement (list_environment True))) [example_statement] [empty_store, empty_store] =
      exec_return ((Status_OK, 1), bs') \<and>
    (\<exists>w. Sharding_GetStatements (leveldb_stub (list_environment True) (\<lambda>_. 5) rev) [1, 0] Statement_default collect [] bs' =
      (Status_OK, w) \<and> set w = {example_statement})"
proof -
  let ?E = "list_environment True"
  have writes: "\<forall>db b. db_Write ?E db b \<noteq> None" by (simp add: list_environment_def)
  have ok: "\<forall>s \<in> set [example_statement]. stmt_ok list_view s"
    "\<forall>u \<in> {} \<union> set [example_statement]. \<forall>v \<in> {} \<union> set [example_statement]. same_hashes ?E u v \<longrightarrow> u = v"
    by simp_all
  note result = Sharded_add_then_get [OF list_store.store_axioms [of True] writes empty_shards(1) _ ok(1),
      unfolded empty_shards(2), OF _ ok(2), of "\<lambda>_. 5" rev]
  from result obtain bs' where added: "Sharding_AddStatements (leveldb_stub ?E (\<lambda>_. 5) rev)
      (hash_Statement (\<lambda>_. 5) (ser_Statement ?E)) [example_statement] [empty_store, empty_store] =
      exec_return ((Status_OK, 1), bs')"
    and found: "\<forall>schedule pattern. \<exists>w. Sharding_GetStatements (leveldb_stub ?E (\<lambda>_. 5) rev) schedule pattern collect [] bs' =
      (Status_OK, w) \<and> set w = {s \<in> {} \<union> set [example_statement]. hash_matches ?E (effective pattern) s} \<and> distinct w"
    by auto
  from found [rule_format, of "[1, 0]" Statement_default] added show ?thesis by auto
qed

text \<open>
  Removing, clearing and counting through the proxy. While the disks do not fail and the additions of
  the fan-out threads do not overlap, \<open>RemoveStatements\<close> and \<open>Clear\<close> take exactly the selected statements out
  of the shards and return their number, and \<open>Size\<close> returns the number of statements in all
  shards, or the sum over the given contexts of the number of statements in each; the statements stay on the shards they hash to.
\<close>

theorem Sharded_remove_clear_size:
  assumes "store E A" and "\<forall>db b. db_Write E db b \<noteq> None" and "sharded E A h bs"
  shows "(\<exists>bs'. Sharding_RemoveStatements (leveldb_stub E std_hash order) [] pattern bs =
      ((Status_OK, int (card {s \<in> sharded_statements E A bs. hash_matches E (effective pattern) s})), bs') \<and>
      sharded E A h bs' \<and>
      sharded_statements E A bs' = {s \<in> sharded_statements E A bs. \<not> hash_matches E (effective pattern) s}) \<and>
    (\<exists>bs'. Sharding_Clear (leveldb_stub E std_hash order) [] contexts bs =
      ((Status_OK, int (card {s \<in> sharded_statements E A bs. contexts = [] \<or> in_contexts E contexts s})), bs') \<and>
      sharded E A h bs' \<and>
      sharded_statements E A bs' = {s \<in> sharded_statements E A bs. \<not> (contexts = [] \<or> in_contexts E contexts s)}) \<and>
    Sharding_Size (leveldb_stub E std_hash order) [] contexts bs = ((Status_OK,
      if contexts = [] then int (card (sharded_statements E A bs))
      else (\<Sum>r \<leftarrow> contexts. int (card {s \<in> sharded_statements E A bs. in_contexts E [r] s}))), bs)"
proof -
  note r = reliableI [OF assms(1,2)]
  have "Sharding_Size (leveldb_stub E std_hash order) [] contexts bs = ((Status_OK,
      if contexts = [] then int (card (sharded_statements E A bs))
      else (\<Sum>r \<leftarrow> contexts. int (card {s \<in> sharded_statements E A bs. in_contexts E [r] s}))), bs)"
    using reliable_store.sharded_size [OF r assms(3), of std_hash order contexts] by (simp add: counted_def)
  then show ?thesis
    by (intro conjI reliable_store.sharded_remove [OF r assms(3)] reliable_store.sharded_clear [OF r assms(3)])
qed

theorem Sharded_remove_clear_size_witness:
  "Sharding_Size (leveldb_stub (list_environment True) (\<lambda>_. 0) rev) [] [] [one_statement_store True example_statement] =
    ((Status_OK, 1), [one_statement_store True example_statement])"
proof -
  let ?E = "list_environment True" and ?bs = "[one_statement_store True example_statement]"
  have writes: "\<forall>db b. db_Write ?E db b \<noteq> None" by (simp add: list_environment_def)
  have "sharded ?E list_view (\<lambda>_. 0) ?bs" "sharded_statements ?E list_view ?bs = {example_statement}"
    by (simp_all add: placed_def all_contents_def lessThan_Suc)
  with Sharded_remove_clear_size [OF list_store.store_axioms [of True] writes this(1), of "\<lambda>_. 0" rev _ "[]"]
  show ?thesis by simp
qed

end
