(* ===== verification/Std.thy ===== *)
theory Std
  imports Prelude "HOL-Library.Char_ord"
begin

text \<open>
  What the components use of the C++ standard library beyond strings and vectors: C strings,
  \<open>std::map\<close> with string keys, decimal printing and reading of integers, and input streams.
\<close>

subsection \<open>C strings\<close>

text \<open>What a C function sees of \<open>s.c_str()\<close>: the characters before the first NUL.\<close>

definition c_str :: "string \<Rightarrow> string" where
  "c_str s = takeWhile (\<lambda>c. c \<noteq> CHR 0x00) s"

lemma c_str_id [simp]: "CHR 0x00 \<notin> set s \<Longrightarrow> c_str s = s"
  by (auto simp: c_str_def takeWhile_eq_all_conv)

text \<open>The non-empty texts that survive as C strings.\<close>

definition clean_text :: "string \<Rightarrow> bool" where
  "clean_text s \<longleftrightarrow> s \<noteq> '''' \<and> CHR 0x00 \<notin> set s"

subsection \<open>Maps with string keys\<close>

text \<open>
  A \<open>std::map<std::string, V>\<close> is the list of its entries in iteration order, the lexicographic
  order of the keys as byte strings. \<open>m[k] = v\<close> inserts or overwrites.
\<close>

type_synonym 'v std_map = "(string \<times> 'v) list"

fun std_map_put :: "string \<Rightarrow> 'v \<Rightarrow> 'v std_map \<Rightarrow> 'v std_map" where
  "std_map_put k v [] = [(k, v)]"
| "std_map_put k v ((k', v') # m) =
     (if k < k' then (k, v) # (k', v') # m
      else if k = k' then (k, v) # m
      else (k', v') # std_map_put k v m)"

abbreviation std_map_wf :: "'v std_map \<Rightarrow> bool" where
  "std_map_wf m \<equiv> sorted_wrt (<) (map fst m)"

lemma keys_std_map_put: "fst ` set (std_map_put k v m) = insert k (fst ` set m)"
  by (induction k v m rule: std_map_put.induct) (simp_all add: insert_commute)

lemma std_map_wf_put [simp]: "std_map_wf m \<Longrightarrow> std_map_wf (std_map_put k v m)"
proof (induction m)
  case (Cons e m)
  have less: "(\<forall>x \<in> set (std_map_put k v m). a < fst x) \<longleftrightarrow> a < k \<and> (\<forall>x \<in> set m. a < fst x)" for a
    using keys_std_map_put [of k v m] by (metis (no_types, lifting) image_iff insert_iff)
  obtain k' v' where e: "e = (k', v')" by (cases e)
  show ?case using Cons by (auto simp: e sorted_wrt_map less dest: order.strict_trans)
qed simp

lemma map_of_std_map_put [simp]: "map_of (std_map_put k v m) = (map_of m)(k \<mapsto> v)"
  by (induction m) (auto simp: fun_eq_iff)

lemma std_map_wf_distinct: "std_map_wf m \<Longrightarrow> distinct (map fst m)"
  by (induction m) auto

lemma map_of_rev_distinct: "distinct (map fst xs) \<Longrightarrow> map_of (rev xs) = map_of xs"
  by (subst map_of_inject_set) (simp_all flip: rev_map)

text \<open>The entries of a map built by a sequence of assignments: the last value of each key.\<close>

lemma std_map_foldl:
  "std_map_wf m \<Longrightarrow> std_map_wf (foldl (\<lambda>m (k, v). std_map_put k v m) m kvs) \<and>
     map_of (foldl (\<lambda>m (k, v). std_map_put k v m) m kvs) = map_of m ++ map_of (rev kvs)"
  by (induction kvs arbitrary: m) (auto simp: map_add_upd_left split: prod.splits)

subsection \<open>Integers as decimal text\<close>

definition digit_char :: "nat \<Rightarrow> char" where
  "digit_char d = char_of (48 + d)"

fun nat_digits :: "nat \<Rightarrow> string" where
  "nat_digits n = (if n < 10 then [digit_char n] else nat_digits (n div 10) @ [digit_char (n mod 10)])"

declare nat_digits.simps [simp del]

text \<open>\<open>std::to_string\<close> of an integer.\<close>

definition to_string :: "int \<Rightarrow> string" where
  "to_string i = (if i < 0 then CHR ''-'' # nat_digits (nat (- i)) else nat_digits (nat i))"

definition is_digit :: "char \<Rightarrow> bool" where
  "is_digit c \<longleftrightarrow> 48 \<le> (of_char c :: nat) \<and> (of_char c :: nat) \<le> 57"

definition is_space :: "char \<Rightarrow> bool" where
  "is_space c \<longleftrightarrow> (of_char c :: nat) = 32 \<or> 9 \<le> (of_char c :: nat) \<and> (of_char c :: nat) \<le> 13"

definition digits_value :: "string \<Rightarrow> nat" where
  "digits_value ds = foldl (\<lambda>n c. 10 * n + (of_char c - 48)) 0 ds"

text \<open>
  What \<open>strtol\<close> reads in base 10: white space, an optional sign and the longest run of digits, the
  rest being ignored; \<open>None\<close> when there is no digit.
\<close>

definition decimal_prefix :: "string \<Rightarrow> int option" where
  "decimal_prefix s =
     (let t = dropWhile is_space s;
          neg = (t \<noteq> [] \<and> hd t = CHR ''-'');
          u = (if t \<noteq> [] \<and> (hd t = CHR ''-'' \<or> hd t = CHR ''+'') then tl t else t);
          ds = takeWhile is_digit u
      in if ds = [] then None else Some (if neg then - int (digits_value ds) else int (digits_value ds)))"

text \<open>\<open>std::stoi\<close> and \<open>std::stoll\<close>: the width is 32 or 64.\<close>

definition sto_integer :: "nat \<Rightarrow> string \<Rightarrow> error + int" where
  "sto_integer w s =
     (case decimal_prefix s of
        None \<Rightarrow> Inl InvalidArgument
      | Some i \<Rightarrow> if - (2 ^ (w - 1)) \<le> i \<and> i < 2 ^ (w - 1) then Inr i else Inl OutOfRange)"

lemma of_digit_char: "d < 10 \<Longrightarrow> (of_char (digit_char d) :: nat) = 48 + d"
  by (simp add: digit_char_def)

lemma is_digit_digit_char [simp]: "d < 10 \<Longrightarrow> is_digit (digit_char d)"
  by (simp add: is_digit_def of_digit_char)

lemma nat_digits_all: "\<forall>c \<in> set (nat_digits n). is_digit c"
  by (induction n rule: nat_digits.induct) (subst nat_digits.simps, auto)

lemma nat_digits_not_empty [simp]: "nat_digits n \<noteq> []"
  by (subst nat_digits.simps) simp

lemma digits_value_snoc: "digits_value (ds @ [c]) = 10 * digits_value ds + (of_char c - 48)"
  by (simp add: digits_value_def)

lemma digits_value_nat_digits [simp]: "digits_value (nat_digits n) = n"
proof (induction n rule: nat_digits.induct)
  case (1 n)
  then show ?case
    by (subst nat_digits.simps) (auto simp: digits_value_snoc of_digit_char digits_value_def [of "[_]"])
qed

lemma takeWhile_nat_digits [simp]: "takeWhile is_digit (nat_digits n) = nat_digits n"
  using nat_digits_all by (simp add: takeWhile_eq_all_conv)

lemma hd_nat_digits: "is_digit (hd (nat_digits n))"
  using nat_digits_all hd_in_set [OF nat_digits_not_empty] by blast

lemma digit_not_sign: "is_digit c \<Longrightarrow> \<not> is_space c \<and> c \<noteq> CHR ''-'' \<and> c \<noteq> CHR ''+''"
  by (auto simp: is_digit_def is_space_def)

lemma minus_not_space: "\<not> is_space CHR ''-''"
  by (simp add: is_space_def)

lemma decimal_prefix_to_string [simp]: "decimal_prefix (to_string i) = Some i"
proof -
  obtain c cs where n: "nat_digits (nat i) = c # cs" by (cases "nat_digits (nat i)") simp_all
  then have c: "\<not> is_space c" "c \<noteq> CHR ''-''" "c \<noteq> CHR ''+''"
    using hd_nat_digits [of "nat i"] digit_not_sign by auto
  show ?thesis
  proof (cases "i < 0")
    case True
    then show ?thesis by (simp add: decimal_prefix_def to_string_def minus_not_space Let_def)
  next
    case False
    then have "decimal_prefix (to_string i) = decimal_prefix (nat_digits (nat i))" by (simp add: to_string_def)
    also have "\<dots> = Some (int (digits_value (takeWhile is_digit (nat_digits (nat i)))))"
      unfolding n decimal_prefix_def using c hd_nat_digits [of "nat i"] by (simp add: n Let_def)
    finally show ?thesis using False by simp
  qed
qed

subsection \<open>Input streams\<close>

text \<open>
  A \<open>std::istream\<close>: the bytes still to come and the fail and end-of-file bits. \<open>in.read(buf, n)\<close>
  on a good stream extracts up to \<open>n\<close> bytes and sets both bits when there were fewer; on a stream
  that is not good it only sets the fail bit. The result is what was extracted, of length
  \<open>in.gcount()\<close>.
\<close>

record istream =
  in_data :: bytes
  in_fail :: bool
  in_eof :: bool

definition istream_open :: "bytes \<Rightarrow> istream" where
  "istream_open data = \<lparr>in_data = data, in_fail = False, in_eof = False\<rparr>"

definition istream_read :: "istream \<Rightarrow> nat \<Rightarrow> bytes \<times> istream" where
  "istream_read i n =
     (if in_fail i \<or> in_eof i then ([], i\<lparr>in_fail := True\<rparr>)
      else if length (in_data i) < n then (in_data i, i\<lparr>in_data := [], in_fail := True, in_eof := True\<rparr>)
      else (take n (in_data i), i\<lparr>in_data := drop n (in_data i)\<rparr>))"

end
