(* ===== verification/Raptor.thy ===== *)
theory Raptor
  imports Rdf_Model Std Util
begin

text \<open>
  The interface of the Raptor library as the parser and the serializer use it.

  Raptor is not part of the sources. Its public structures \<open>raptor_term\<close> and \<open>raptor_statement\<close>
  are data, a URI being its text and a null pointer being \<open>None\<close>; its functions are records of
  parameters over the library's own state. The contract \<open>raptor_terms\<close> says what the term
  constructors are documented to do.
\<close>

datatype raptor_term =
    TERM_UNKNOWN
  | TERM_URI string
  | TERM_LITERAL string (literal_datatype: "string option") (literal_language: "string option")
  | TERM_BLANK string

record raptor_statement =
  rs_subject :: "raptor_term option"
  rs_predicate :: "raptor_term option"
  rs_object :: "raptor_term option"
  rs_graph :: "raptor_term option"

text \<open>What a parser reports to its handlers while it works on a chunk, in order.\<close>

datatype raptor_event = EV_STATEMENT raptor_statement | EV_NAMESPACE "string option" string

record 'p raptor_parsing =
  raptor_new_parser :: "string \<Rightarrow> 'p"
  raptor_parser_parse_start :: "'p \<Rightarrow> string option \<Rightarrow> 'p"
  raptor_parser_parse_chunk :: "'p \<Rightarrow> bytes \<Rightarrow> bool \<Rightarrow> raptor_event list \<times> 'p"

text \<open>The state \<open>'s\<close> of a serializer includes what it has written to its output stream.\<close>

record 's raptor_serializing =
  raptor_new_uri :: "string \<Rightarrow> string option"
  raptor_new_term_from_uri_string :: "string \<Rightarrow> raptor_term option"
  raptor_new_term_from_blank :: "string \<Rightarrow> raptor_term option"
  raptor_new_term_from_counted_literal :: "string \<Rightarrow> string option \<Rightarrow> string option \<Rightarrow> raptor_term option"
  raptor_new_serializer :: "string \<Rightarrow> 's"
  raptor_serializer_set_namespace :: "'s \<Rightarrow> string option \<Rightarrow> string \<Rightarrow> 's"
  raptor_serializer_start_to_iostream :: "'s \<Rightarrow> string option \<Rightarrow> 's"
  raptor_serializer_serialize_statement :: "'s \<Rightarrow> raptor_statement \<Rightarrow> 's"
  raptor_serializer_serialize_end :: "'s \<Rightarrow> 's"

text \<open>
  The term constructors keep their texts; an empty language counts as none.
\<close>

locale raptor_terms =
  fixes R :: "'s raptor_serializing"
  assumes new_uri: "u \<noteq> '''' \<Longrightarrow> raptor_new_uri R u = Some u"
    and uri_term: "u \<noteq> '''' \<Longrightarrow> raptor_new_term_from_uri_string R u = Some (TERM_URI u)"
    and blank_term: "b \<noteq> '''' \<Longrightarrow> raptor_new_term_from_blank R b = Some (TERM_BLANK b)"
    and plain_term: "raptor_new_term_from_counted_literal R s None (Some '''') = Some (TERM_LITERAL s None None)"
    and language_term: "l \<noteq> '''' \<Longrightarrow>
      raptor_new_term_from_counted_literal R s None (Some l) = Some (TERM_LITERAL s None (Some l))"
    and datatype_term: "raptor_new_term_from_counted_literal R s (Some d) (Some '''') = Some (TERM_LITERAL s (Some d) None)"

subsection \<open>A reference instance\<close>

text \<open>
  A serializer that records what it is asked to do. Witnesses are evaluated on it.
\<close>

datatype raptor_log =
    LOG_NEW string | LOG_NAMESPACE "string option" string | LOG_START "string option"
  | LOG_STATEMENT raptor_statement | LOG_END

definition list_raptor :: "raptor_log list raptor_serializing" where
  "list_raptor =
     \<lparr>raptor_new_uri = (\<lambda>u. if u = '''' then None else Some u),
      raptor_new_term_from_uri_string = (\<lambda>u. if u = '''' then None else Some (TERM_URI u)),
      raptor_new_term_from_blank = (\<lambda>b. if b = '''' then None else Some (TERM_BLANK b)),
      raptor_new_term_from_counted_literal =
        (\<lambda>s d l. Some (TERM_LITERAL s d (if l = Some '''' then None else l))),
      raptor_new_serializer = (\<lambda>name. [LOG_NEW name]),
      raptor_serializer_set_namespace = (\<lambda>log uri prefix. log @ [LOG_NAMESPACE uri prefix]),
      raptor_serializer_start_to_iostream = (\<lambda>log base. log @ [LOG_START base]),
      raptor_serializer_serialize_statement = (\<lambda>log triple. log @ [LOG_STATEMENT triple]),
      raptor_serializer_serialize_end = (\<lambda>log. log @ [LOG_END])\<rparr>"

text \<open>A parser that reports given events when it sees the end of its input.\<close>

definition scripted_parsing :: "raptor_event list \<Rightarrow> raptor_event list raptor_parsing" where
  "scripted_parsing events =
     \<lparr>raptor_new_parser = (\<lambda>name. events),
      raptor_parser_parse_start = (\<lambda>p base. p),
      raptor_parser_parse_chunk = (\<lambda>p chunk is_end. if is_end then (p, []) else ([], p))\<rparr>"

interpretation list_raptor: raptor_terms list_raptor
  by unfold_locales (simp_all add: list_raptor_def)

end
