(* ===== verification/Parser.thy ===== *)
theory Parser
  imports Raptor
begin

text \<open>
  \<open>parser/rdf_parser.cc\<close>: the parser that feeds a stream to Raptor and turns the statements and
  namespaces that Raptor reports into the model's.

  The state \<open>'s\<close> is what the two handlers capture. A handler that throws ends the parse; the abort
  it requests only matters for later calls of the library, which the exception prevents.
\<close>

datatype parser_Format = PF_RDFXML | PF_TURTLE | PF_NTRIPLES | PF_NQUADS | PF_RDFJSON | PF_RDFA | PF_TRIG | PF_GUESS

definition Parser_FormatFromString :: "string \<Rightarrow> parser_Format" where
  "Parser_FormatFromString name =
     (if name = ''rdfxml'' \<or> name = ''rdf/xml'' \<or> name = ''xml'' then PF_RDFXML
      else if name = ''n3'' \<or> name = ''ntriples'' \<or> name = ''text/n3'' then PF_NTRIPLES
      else if name = ''turtle'' \<or> name = ''text/turtle'' then PF_TURTLE
      else if name = ''json'' \<or> name = ''application/json'' \<or> name = ''application/rdf+json'' then PF_RDFJSON
      else if name = ''auto'' \<or> name = ''guess'' then PF_GUESS
      else PF_RDFXML)"

text \<open>The names passed to Raptor. Two formats have no case and leave the pointer uninitialised.\<close>

fun parser_name :: "parser_Format \<Rightarrow> string option" where
  "parser_name PF_RDFXML = Some ''rdfxml''"
| "parser_name PF_TURTLE = Some ''turtle''"
| "parser_name PF_NTRIPLES = Some ''ntriples''"
| "parser_name PF_RDFA = Some ''rdfa''"
| "parser_name PF_RDFJSON = Some ''json''"
| "parser_name PF_GUESS = Some ''guess''"
| "parser_name PF_NQUADS = None"
| "parser_name PF_TRIG = None"

record ('p, 's) Parser =
  prs_parser :: 'p
  prs_base :: "string option"
  prs_stmt_handler :: "'s \<Rightarrow> proto_Statement \<Rightarrow> 's"
  prs_ns_handler :: "'s \<Rightarrow> proto_Namespace \<Rightarrow> 's"

text \<open>Registering the handlers on an uninitialised pointer is undefined.\<close>

definition Parser_new ::
  "'p raptor_parsing \<Rightarrow> (string \<Rightarrow> string option) \<Rightarrow> proto_URI \<Rightarrow> parser_Format \<Rightarrow> error + ('p, 's) Parser" where
  "Parser_new R new_uri baseUri format =
     (case parser_name format of
        None \<Rightarrow> Inl Undefined
      | Some name \<Rightarrow>
          Inr \<lparr>prs_parser = raptor_new_parser R name, prs_base = new_uri (c_str (uri_uri baseUri)),
               prs_stmt_handler = (\<lambda>s stmt. s), prs_ns_handler = (\<lambda>s ns. s)\<rparr>)"

definition setStatementHandler ::
  "('p, 's) Parser \<Rightarrow> ('s \<Rightarrow> proto_Statement \<Rightarrow> 's) \<Rightarrow> ('p, 's) Parser" where
  "setStatementHandler p handler = p\<lparr>prs_stmt_handler := handler\<rparr>"

definition setNamespaceHandler ::
  "('p, 's) Parser \<Rightarrow> ('s \<Rightarrow> proto_Namespace \<Rightarrow> 's) \<Rightarrow> ('p, 's) Parser" where
  "setNamespaceHandler p handler = p\<lparr>prs_ns_handler := handler\<rparr>"

subsection \<open>Statements\<close>

text \<open>The four switches; a null pointer is dereferenced for everything but the graph.\<close>

definition parse_resource :: "string \<Rightarrow> raptor_term option \<Rightarrow> error + rdf_Resource" where
  "parse_resource message t =
     (case t of
        None \<Rightarrow> Inl Undefined
      | Some (TERM_URI u) \<Rightarrow> Inr (fst (Resource_assign_URI_move Resource_default (URI_new u)))
      | Some (TERM_BLANK b) \<Rightarrow> Inr (fst (Resource_assign_BNode_move Resource_default (BNode_new b)))
      | Some _ \<Rightarrow> Inl (ParseError message))"

definition parse_predicate :: "raptor_term option \<Rightarrow> error + proto_URI" where
  "parse_predicate t =
     (case t of
        None \<Rightarrow> Inl Undefined
      | Some (TERM_URI u) \<Rightarrow> Inr (fst (URI_assign_move URI_default (URI_new u)))
      | Some _ \<Rightarrow> Inl (ParseError ''invalid predicate term type''))"

definition parse_object :: "raptor_term option \<Rightarrow> error + rdf_Value" where
  "parse_object t =
     (case t of
        None \<Rightarrow> Inl Undefined
      | Some (TERM_URI u) \<Rightarrow> Inr (fst (Value_assign_URI_move Value_default (URI_new u)))
      | Some (TERM_BLANK b) \<Rightarrow> Inr (fst (Value_assign_BNode_move Value_default (BNode_new b)))
      | Some (TERM_LITERAL s d l) \<Rightarrow>
          (case l of
             Some language \<Rightarrow> Inr (fst (Value_assign_StringLiteral_move Value_default (StringLiteral_new_lang s language)))
           | None \<Rightarrow>
               (case d of
                  Some type \<Rightarrow> Inr (fst (Value_assign_DatatypeLiteral_move Value_default (DatatypeLiteral_new s (URI_new type))))
                | None \<Rightarrow> Inr (fst (Value_assign_StringLiteral_move Value_default (StringLiteral_new s)))))
      | Some TERM_UNKNOWN \<Rightarrow> Inl (ParseError ''invalid object term type''))"

definition parse_context :: "raptor_term option \<Rightarrow> error + rdf_Resource" where
  "parse_context t =
     (case t of
        None \<Rightarrow> Inr (fst (Resource_assign_URI_move Resource_default URI_default))
      | Some _ \<Rightarrow> parse_resource ''invalid graph term type'' t)"

definition raptor_stmt_handler ::
  "('p, 's) Parser \<Rightarrow> 's \<Rightarrow> raptor_statement \<Rightarrow> error + 's" where
  "raptor_stmt_handler p s statement =
     (case parse_resource ''invalid subject term type'' (rs_subject statement) of
        Inl e \<Rightarrow> Inl e
      | Inr subject \<Rightarrow>
     (case parse_predicate (rs_predicate statement) of
        Inl e \<Rightarrow> Inl e
      | Inr predicate \<Rightarrow>
     (case parse_object (rs_object statement) of
        Inl e \<Rightarrow> Inl e
      | Inr object \<Rightarrow>
     (case parse_context (rs_graph statement) of
        Inl e \<Rightarrow> Inl e
      | Inr context \<Rightarrow> Inr (prs_stmt_handler p s (Statement_new_context subject predicate object context))))))"

definition raptor_ns_handler :: "('p, 's) Parser \<Rightarrow> 's \<Rightarrow> string option \<Rightarrow> string \<Rightarrow> 's" where
  "raptor_ns_handler p s prefix uri = prs_ns_handler p s (Namespace_from_c prefix uri)"

subsection \<open>Parsing a stream\<close>

fun handle_events :: "('p, 's) Parser \<Rightarrow> 's \<Rightarrow> raptor_event list \<Rightarrow> error + 's" where
  "handle_events p s [] = Inr s"
| "handle_events p s (EV_STATEMENT statement # es) =
     (case raptor_stmt_handler p s statement of Inl e \<Rightarrow> Inl e | Inr s' \<Rightarrow> handle_events p s' es)"
| "handle_events p s (EV_NAMESPACE prefix uri # es) = handle_events p (raptor_ns_handler p s prefix uri) es"

definition feed_chunk ::
  "'p raptor_parsing \<Rightarrow> ('p, 's) Parser \<times> 's \<Rightarrow> bytes \<Rightarrow> bool \<Rightarrow> error + ('p, 's) Parser \<times> 's" where
  "feed_chunk R x chunk is_end =
     (case x of (p, s) \<Rightarrow>
        (case raptor_parser_parse_chunk R (prs_parser p) chunk is_end of
           (events, q) \<Rightarrow>
             (case handle_events p s events of Inl e \<Rightarrow> Inl e | Inr s' \<Rightarrow> Inr (p\<lparr>prs_parser := q\<rparr>, s'))))"

function parse_loop ::
  "'p raptor_parsing \<Rightarrow> istream \<Rightarrow> ('p, 's) Parser \<times> 's \<Rightarrow> error + ('p, 's) Parser \<times> 's" where
  "parse_loop R i x =
     (if \<not> in_fail (snd (istream_read i 8192)) then
        (case feed_chunk R x (fst (istream_read i 8192)) False of
           Inl e \<Rightarrow> Inl e
         | Inr x' \<Rightarrow> parse_loop R (snd (istream_read i 8192)) x')
      else feed_chunk R x (fst (istream_read i 8192)) True)"
  by pat_completeness auto
termination
  by (relation "measure (\<lambda>(R, i, x). length (in_data i))")
    (auto simp: istream_read_def split: if_splits)

declare parse_loop.simps [simp del]

definition Parser_parse ::
  "'p raptor_parsing \<Rightarrow> istream \<Rightarrow> ('p, 's) Parser \<times> 's \<Rightarrow> error + ('p, 's) Parser \<times> 's" where
  "Parser_parse R i x =
     (if \<not> in_fail i then
        (case x of (p, s) \<Rightarrow>
           parse_loop R i (p\<lparr>prs_parser := raptor_parser_parse_start R (prs_parser p) (prs_base p)\<rparr>, s))
      else Inr x)"

subsection \<open>What the handlers receive\<close>

text \<open>The message a term stands for, if the parser accepts it in that place.\<close>

fun resource_of_term :: "raptor_term \<Rightarrow> proto_Resource option" where
  "resource_of_term (TERM_URI u) = Some (R_URI \<lparr>uri_uri = u\<rparr>)"
| "resource_of_term (TERM_BLANK b) = Some (R_BNODE \<lparr>bnode_id = b\<rparr>)"
| "resource_of_term _ = None"

fun value_of_term :: "raptor_term \<Rightarrow> proto_Value option" where
  "value_of_term (TERM_LITERAL s d (Some l)) = Some (V_LITERAL (L_STRING \<lparr>sl_content = s, sl_language = l\<rparr>))"
| "value_of_term (TERM_LITERAL s (Some d) None) =
     Some (V_LITERAL (L_DATA \<lparr>dl_content = s, dl_datatype = Some \<lparr>uri_uri = d\<rparr>\<rparr>))"
| "value_of_term (TERM_LITERAL s None None) = Some (V_LITERAL (L_STRING \<lparr>sl_content = s, sl_language = ''''\<rparr>))"
| "value_of_term t = map_option V_RESOURCE (resource_of_term t)"

lemmas parse_defs = URI_new_def URI_default_def BNode_new_def BNode_default_def StringLiteral_new_def
  StringLiteral_new_lang_def StringLiteral_default_def DatatypeLiteral_new_def DatatypeLiteral_default_def
  Resource_default_def Value_default_def Resource_assign_URI_move_def Resource_assign_BNode_move_def
  URI_assign_move_def value_assign_defs mutable_defs

lemma parse_resource_result:
  "map_sum id res_internal (parse_resource message (Some t)) =
     (case resource_of_term t of None \<Rightarrow> Inl (ParseError message) | Some r \<Rightarrow> Inr r)"
  by (cases t) (simp_all add: parse_resource_def parse_defs)

lemma parse_object_result:
  "map_sum id val_internal (parse_object (Some t)) =
     (case value_of_term t of None \<Rightarrow> Inl (ParseError ''invalid object term type'') | Some v \<Rightarrow> Inr v)"
  by (cases t rule: value_of_term.cases)
    (simp_all add: parse_object_def parse_defs URI_MergeFrom_def datatype_of_def merge_string_def)

lemma map_sum_InrD: "map_sum f g x = Inr y \<Longrightarrow> \<exists>z. x = Inr z \<and> y = g z"
  by (cases x) simp_all

text \<open>
  A complete triple reaches the statement handler as the statement with the messages of its terms;
  without a graph the context is the empty URI.
\<close>

lemma raptor_stmt_handler_complete:
  assumes "resource_of_term a = Some s" and "value_of_term c = Some v"
    and "case g of None \<Rightarrow> k = R_URI URI_default | Some t \<Rightarrow> resource_of_term t = Some k"
  shows "raptor_stmt_handler p st \<lparr>rs_subject = Some a, rs_predicate = Some (TERM_URI u), rs_object = Some c, rs_graph = g\<rparr> =
    Inr (prs_stmt_handler p st
      \<lparr>st_subject = Some s, st_predicate = Some \<lparr>uri_uri = u\<rparr>, st_object = Some v, st_context = Some k\<rparr>)"
proof -
  obtain s' where s': "parse_resource ''invalid subject term type'' (Some a) = Inr s'" "s = res_internal s'"
    using map_sum_InrD parse_resource_result [of "''invalid subject term type''" a] assms(1) by fastforce
  obtain v' where v': "parse_object (Some c) = Inr v'" "v = val_internal v'"
    using map_sum_InrD parse_object_result [of c] assms(2) by fastforce
  obtain k' where k': "parse_context g = Inr k'" "k = res_internal k'"
  proof (cases g)
    case None
    then show ?thesis using that assms(3) by (simp add: parse_context_def parse_defs)
  next
    case (Some t)
    then show ?thesis
      using that map_sum_InrD parse_resource_result [of "''invalid graph term type''" t] assms(3)
      by (fastforce simp: parse_context_def)
  qed
  show ?thesis
    using s' v' k'
    by (simp add: raptor_stmt_handler_def parse_predicate_def parse_defs Statement_new_context_def
        Statement_new_def Statement_default_def URI_MergeFrom_def merge_string_def)
qed

subsection \<open>The chunks of a stream\<close>

fun feed_chunks ::
  "'p raptor_parsing \<Rightarrow> ('p, 's) Parser \<times> 's \<Rightarrow> bytes list \<Rightarrow> bytes \<Rightarrow> error + ('p, 's) Parser \<times> 's" where
  "feed_chunks R x [] final = feed_chunk R x final True"
| "feed_chunks R x (c # cs) final =
     (case feed_chunk R x c False of Inl e \<Rightarrow> Inl e | Inr x' \<Rightarrow> feed_chunks R x' cs final)"

lemma parse_loop_chunks:
  fixes R :: "'p raptor_parsing"
  assumes "\<not> in_fail i" and "\<not> in_eof i"
  shows "\<exists>chunks final. concat chunks @ final = in_data i \<and> (\<forall>c \<in> set chunks. length c = 8192) \<and>
    length final < 8192 \<and> (\<forall>x :: ('p, 's) Parser \<times> 's. parse_loop R i x = feed_chunks R x chunks final)"
  using assms
proof (induction "length (in_data i)" arbitrary: i rule: less_induct)
  case less
  show ?case
  proof (cases "length (in_data i) < 8192")
    case True
    then show ?thesis
      using less.prems by (intro exI [of _ "[]"] exI [of _ "in_data i"])
        (simp add: parse_loop.simps [of R i] istream_read_def)
  next
    case False
    let ?i = "i\<lparr>in_data := drop 8192 (in_data i)\<rparr>"
    have "length (in_data ?i) < length (in_data i)" "\<not> in_fail ?i" "\<not> in_eof ?i"
      using False less.prems by simp_all
    from less.hyps [OF this] obtain chunks final where c: "concat chunks @ final = in_data ?i"
      "\<forall>c \<in> set chunks. length c = 8192" "length final < 8192"
      "\<forall>x :: ('p, 's) Parser \<times> 's. parse_loop R ?i x = feed_chunks R x chunks final"
      by blast
    have read: "istream_read i 8192 = (take 8192 (in_data i), ?i)"
      using less.prems False by (simp add: istream_read_def)
    have "parse_loop R i x = feed_chunks R x (take 8192 (in_data i) # chunks) final" for x :: "('p, 's) Parser \<times> 's"
      using less.prems c(4) by (simp add: parse_loop.simps [of R i] read split: sum.split)
    moreover have "concat (take 8192 (in_data i) # chunks) @ final = in_data i" using c(1) by simp
    ultimately show ?thesis using c(2,3) False
      by (intro exI [of _ "take 8192 (in_data i) # chunks"] exI [of _ final]) simp
  qed
qed

text \<open>
  C33: parsing a stream. The parser returns after feeding all bytes of a good stream to Raptor in
  order, in chunks of 8192 bytes and a shorter last one, which alone is marked as the end and is
  empty when the length is a multiple of 8192; the first exception of a handler ends the parse. A
  stream that has already failed is not touched.
\<close>

theorem Parser_parse_chunks:
  assumes "in_fail i \<or> \<not> in_eof i"
  shows "if in_fail i then Parser_parse R i x = Inr x
    else (\<exists>chunks final. concat chunks @ final = in_data i \<and> (\<forall>c \<in> set chunks. length c = 8192) \<and>
      length final < 8192 \<and>
      Parser_parse R i x =
        feed_chunks R ((fst x)\<lparr>prs_parser := raptor_parser_parse_start R (prs_parser (fst x)) (prs_base (fst x))\<rparr>, snd x)
          chunks final)"
  using parse_loop_chunks [of i R] assms by (cases x) (fastforce simp: Parser_parse_def)

theorem Parser_parse_chunks_witness:
  "\<exists>chunks final. concat chunks @ final = [1, 2, 3 :: byte] \<and> (\<forall>c \<in> set chunks. length c = 8192) \<and>
     length final < 8192 \<and>
     Parser_parse (scripted_parsing [EV_NAMESPACE None ''http://a'']) (istream_open [1, 2, 3])
       (\<lparr>prs_parser = [EV_NAMESPACE None ''http://a''], prs_base = None,
         prs_stmt_handler = (\<lambda>n s. n), prs_ns_handler = (\<lambda>n s. n + 1)\<rparr>, 0 :: nat) =
     feed_chunks (scripted_parsing [EV_NAMESPACE None ''http://a''])
       (\<lparr>prs_parser = [EV_NAMESPACE None ''http://a''], prs_base = None,
         prs_stmt_handler = (\<lambda>n s. n), prs_ns_handler = (\<lambda>n s. n + 1)\<rparr>, 0) chunks final"
  using Parser_parse_chunks [of "istream_open [1, 2, 3]" "scripted_parsing [EV_NAMESPACE None ''http://a'']"
      "(\<lparr>prs_parser = [EV_NAMESPACE None ''http://a''], prs_base = None,
         prs_stmt_handler = (\<lambda>n s. n), prs_ns_handler = (\<lambda>n s. n + 1)\<rparr>, 0 :: nat)"]
  by (simp add: istream_open_def scripted_parsing_def)

text \<open>
  Choosing a format. Constructing a parser is undefined exactly for the two formats that the
  constructor forgets, and no name given by a user selects one of them.
\<close>

theorem Parser_new_defined:
  "(Parser_new R new_uri b f = Inl Undefined \<longleftrightarrow> f \<in> {PF_NQUADS, PF_TRIG}) \<and>
   (\<exists>p. Parser_new R new_uri b (Parser_FormatFromString name) = Inr p \<and>
     prs_base p = new_uri (c_str (uri_uri b)))"
proof
  show "Parser_new R new_uri b f = Inl Undefined \<longleftrightarrow> f \<in> {PF_NQUADS, PF_TRIG}"
    by (cases f) (simp_all add: Parser_new_def)
  have "Parser_FormatFromString name \<in> {PF_RDFXML, PF_NTRIPLES, PF_TURTLE, PF_RDFJSON, PF_GUESS}"
    by (simp add: Parser_FormatFromString_def)
  then show "\<exists>p. Parser_new R new_uri b (Parser_FormatFromString name) = Inr p \<and>
      prs_base p = new_uri (c_str (uri_uri b))"
    by (auto simp: Parser_new_def)
qed

end
