(* ===== verification/Serializer.thy ===== *)
theory Serializer
  imports Parser Grpc
begin

text \<open>
  \<open>serializer/\<close>: the base class with its two public methods, the serializer on top of Raptor, the
  serializer of Protocol Buffers, and the class that chooses between them.

  The state of a serializer includes the output stream it was prepared with. Raptor and the
  encodings of a \<open>Statements\<close> message are parameters.
\<close>

datatype serializer_Format =
  SF_RDFXML | SF_RDFXML_ABBREV | SF_TURTLE | SF_NTRIPLES | SF_NQUADS | SF_RDFJSON | SF_SPARQL_JSON
  | SF_GRAPHVIZ | SF_PROTO | SF_PROTO_TEXT

definition Serializer_FormatFromString :: "string \<Rightarrow> serializer_Format" where
  "Serializer_FormatFromString name =
     (if name = ''rdfxml'' \<or> name = ''rdf/xml'' \<or> name = ''xml'' then SF_RDFXML
      else if name = ''n3'' \<or> name = ''ntriples'' \<or> name = ''text/n3'' then SF_NTRIPLES
      else if name = ''turtle'' \<or> name = ''text/turtle'' then SF_TURTLE
      else if name = ''textproto'' \<or> name = ''text/proto'' then SF_PROTO_TEXT
      else if name = ''proto'' \<or> name = ''application/proto'' then SF_PROTO
      else if name = ''json'' \<or> name = ''application/json'' \<or> name = ''application/rdf+json'' then SF_RDFJSON
      else SF_RDFXML)"

subsection \<open>The base class\<close>

definition namespacesMap :: "proto_Namespace list \<Rightarrow> proto_URI std_map" where
  "namespacesMap list = foldl (\<lambda>result ns. std_map_put (ns_prefix ns) (URI_new (ns_uri ns)) result) [] list"

record SerializerBase =
  sb_baseUri :: proto_URI
  sb_format :: serializer_Format
  sb_namespaces :: "proto_URI std_map"

text \<open>The constructors: from a map, without namespaces, and from a vector of namespaces.\<close>

definition SerializerBase_new_map :: "proto_URI \<Rightarrow> serializer_Format \<Rightarrow> proto_URI std_map \<Rightarrow> SerializerBase" where
  "SerializerBase_new_map baseUri format namespaces =
     \<lparr>sb_baseUri = baseUri, sb_format = format, sb_namespaces = namespaces\<rparr>"

definition SerializerBase_new_plain :: "proto_URI \<Rightarrow> serializer_Format \<Rightarrow> SerializerBase" where
  "SerializerBase_new_plain baseUri format = SerializerBase_new_map baseUri format []"

definition SerializerBase_new :: "proto_URI \<Rightarrow> serializer_Format \<Rightarrow> proto_Namespace list \<Rightarrow> SerializerBase" where
  "SerializerBase_new baseUri format namespaces =
     \<lparr>sb_baseUri = baseUri, sb_format = format, sb_namespaces = namespacesMap namespaces\<rparr>"

record 's SerializerBase_class =
  sb_prepare :: "'s \<Rightarrow> 's"
  sb_serialize :: "'s \<Rightarrow> proto_Statement \<Rightarrow> error + 's"
  sb_close :: "'s \<Rightarrow> 's"

definition serialize_statement :: "'s SerializerBase_class \<Rightarrow> 's \<Rightarrow> proto_Statement \<Rightarrow> error + 's" where
  "serialize_statement V s stmt = map_sum id (sb_close V) (sb_serialize V (sb_prepare V s) stmt)"

definition serialize_iterator ::
  "'s SerializerBase_class \<Rightarrow> ('i, proto_Statement) CloseableIterator \<Rightarrow> 'i \<Rightarrow> 's \<Rightarrow> 's exec" where
  "serialize_iterator V It it s =
     exec_bind (for_each It (\<lambda>s stmt. Some (sb_serialize V s stmt)) it (sb_prepare V s))
       (\<lambda>s. exec_return (sb_close V s))"

subsection \<open>Raptor\<close>

text \<open>The callbacks through which Raptor reaches a C++ stream; zero is success.\<close>

definition std_iostream_write_byte :: "('o \<Rightarrow> bytes \<Rightarrow> 'o) \<Rightarrow> ('o \<Rightarrow> bool) \<Rightarrow> 'o \<Rightarrow> 32 word \<Rightarrow> int \<times> 'o" where
  "std_iostream_write_byte out_write good out byte =
     (let out = out_write out [ucast byte] in (if good out then 0 else 1, out))"

definition std_iostream_write_bytes ::
  "('o \<Rightarrow> bytes \<Rightarrow> 'o) \<Rightarrow> ('o \<Rightarrow> bool) \<Rightarrow> 'o \<Rightarrow> bytes \<Rightarrow> 64 word \<Rightarrow> 64 word \<Rightarrow> int \<times> 'o" where
  "std_iostream_write_bytes out_write good out ptr sz nmemb =
     (let out = out_write out (take (unat (sz * nmemb)) ptr) in (if good out then 0 else 1, out))"

definition std_iostream_read_bytes :: "istream \<Rightarrow> 64 word \<Rightarrow> 64 word \<Rightarrow> int \<times> bytes \<times> istream" where
  "std_iostream_read_bytes i sz nmemb =
     (if in_fail i then (- 1, [], i)
      else (let (got, i') = istream_read i (unat (sz * nmemb)) in (int_of_size (length got), got, i')))"

definition std_iostream_read_eof :: "istream \<Rightarrow> int" where
  "std_iostream_read_eof i = (if in_eof i then 1 else 0)"

fun raptorFormat :: "serializer_Format \<Rightarrow> string" where
  "raptorFormat SF_RDFXML = ''rdfxml''"
| "raptorFormat SF_RDFXML_ABBREV = ''rdfxml-abbrev''"
| "raptorFormat SF_GRAPHVIZ = ''dot''"
| "raptorFormat SF_NQUADS = ''nquads''"
| "raptorFormat SF_NTRIPLES = ''ntriples''"
| "raptorFormat SF_TURTLE = ''turtle''"
| "raptorFormat SF_RDFJSON = ''json''"
| "raptorFormat SF_SPARQL_JSON = ''json-triples''"
| "raptorFormat _ = ''rdfxml''"

record 's RaptorSerializer = SerializerBase +
  rap_base :: "string option"
  rap_serializer :: 's

definition initRaptor :: "'s raptor_serializing \<Rightarrow> SerializerBase \<Rightarrow> 's" where
  "initRaptor R b =
     foldl (\<lambda>s (prefix, uri). raptor_serializer_set_namespace R s (raptor_new_uri R (c_str (uri_uri uri))) (c_str prefix))
       (raptor_new_serializer R (raptorFormat (sb_format b))) (sb_namespaces b)"

text \<open>The body that the three constructors share, after the constructor of the base class.\<close>

definition RaptorSerializer_open :: "'s raptor_serializing \<Rightarrow> proto_URI \<Rightarrow> SerializerBase \<Rightarrow> 's RaptorSerializer" where
  "RaptorSerializer_open R baseUri b =
     SerializerBase.extend b
       \<lparr>rap_base = raptor_new_uri R (c_str (uri_uri baseUri)), rap_serializer = initRaptor R b\<rparr>"

definition RaptorSerializer_new_plain ::
  "'s raptor_serializing \<Rightarrow> proto_URI \<Rightarrow> serializer_Format \<Rightarrow> 's RaptorSerializer" where
  "RaptorSerializer_new_plain R baseUri format =
     RaptorSerializer_open R baseUri (SerializerBase_new_plain baseUri format)"

definition RaptorSerializer_new ::
  "'s raptor_serializing \<Rightarrow> proto_URI \<Rightarrow> serializer_Format \<Rightarrow> proto_Namespace list \<Rightarrow> 's RaptorSerializer" where
  "RaptorSerializer_new R baseUri format namespaces =
     RaptorSerializer_open R baseUri (SerializerBase_new baseUri format namespaces)"

definition RaptorSerializer_new_map ::
  "'s raptor_serializing \<Rightarrow> proto_URI \<Rightarrow> serializer_Format \<Rightarrow> proto_URI std_map \<Rightarrow> 's RaptorSerializer" where
  "RaptorSerializer_new_map R baseUri format namespaces =
     RaptorSerializer_open R baseUri (SerializerBase_new_map baseUri format namespaces)"

definition RaptorSerializer_prepare :: "'s raptor_serializing \<Rightarrow> 's RaptorSerializer \<Rightarrow> 's RaptorSerializer" where
  "RaptorSerializer_prepare R this =
     this\<lparr>rap_serializer := raptor_serializer_start_to_iostream R (rap_serializer this) (rap_base this)\<rparr>"

definition raptor_resource :: "'s raptor_serializing \<Rightarrow> string \<Rightarrow> proto_Resource \<Rightarrow> error + raptor_term option" where
  "raptor_resource R message r =
     (if has_uri r then Inr (raptor_new_term_from_uri_string R (c_str (uri_uri (resource_uri r))))
      else if has_bnode r then Inr (raptor_new_term_from_blank R (c_str (bnode_id (resource_bnode r))))
      else Inl (SerializationError message))"

definition raptor_object :: "'s raptor_serializing \<Rightarrow> proto_Value \<Rightarrow> error + raptor_term option" where
  "raptor_object R v =
     (if has_resource v then raptor_resource R ''invalid object resource type'' (value_resource v)
      else if has_literal v then
        (let l = value_literal v
         in if has_stringliteral l then
              Inr (raptor_new_term_from_counted_literal R (sl_content (literal_stringliteral l)) None
                (Some (sl_language (literal_stringliteral l))))
            else if has_dataliteral l then
              Inr (raptor_new_term_from_counted_literal R (dl_content (literal_dataliteral l))
                (raptor_new_uri R (c_str (uri_uri (datatype_of (literal_dataliteral l))))) (Some ''''))
            else Inl (SerializationError ''invalid object literal type''))
      else Inl (SerializationError ''invalid object type''))"

definition raptor_triple :: "'s raptor_serializing \<Rightarrow> proto_Statement \<Rightarrow> error + raptor_statement" where
  "raptor_triple R stmt =
     (case raptor_resource R ''invalid subject type'' (subject_of stmt) of
        Inl e \<Rightarrow> Inl e
      | Inr subject \<Rightarrow>
     (case raptor_object R (object_of stmt) of
        Inl e \<Rightarrow> Inl e
      | Inr object \<Rightarrow>
     (case raptor_resource R ''invalid context type'' (context_of stmt) of
        Inl e \<Rightarrow> Inl e
      | Inr graph \<Rightarrow>
          Inr \<lparr>rs_subject = subject,
               rs_predicate = raptor_new_term_from_uri_string R (c_str (uri_uri (predicate_of stmt))),
               rs_object = object, rs_graph = graph\<rparr>)))"

definition RaptorSerializer_serialize ::
  "'s raptor_serializing \<Rightarrow> 's RaptorSerializer \<Rightarrow> proto_Statement \<Rightarrow> error + 's RaptorSerializer" where
  "RaptorSerializer_serialize R this stmt =
     (case raptor_triple R stmt of
        Inl e \<Rightarrow> Inl e
      | Inr triple \<Rightarrow>
          Inr (this\<lparr>rap_serializer := raptor_serializer_serialize_statement R (rap_serializer this) triple\<rparr>))"

definition RaptorSerializer_close :: "'s raptor_serializing \<Rightarrow> 's RaptorSerializer \<Rightarrow> 's RaptorSerializer" where
  "RaptorSerializer_close R this =
     this\<lparr>rap_serializer := raptor_serializer_serialize_end R (rap_serializer this)\<rparr>"

definition RaptorSerializer_class :: "'s raptor_serializing \<Rightarrow> 's RaptorSerializer SerializerBase_class" where
  "RaptorSerializer_class R =
     \<lparr>sb_prepare = RaptorSerializer_prepare R, sb_serialize = RaptorSerializer_serialize R,
      sb_close = RaptorSerializer_close R\<rparr>"

subsection \<open>Protocol Buffers\<close>

text \<open>
  The encodings: the wire format of the collected statements, and what ends up on the stream when
  they are printed as text while a coded stream is open on it.
\<close>

record statements_codec =
  SerializeToCodedStream :: "proto_Statement list \<Rightarrow> bytes"
  TextFormat_Print :: "proto_Statement list \<Rightarrow> bytes"

record ProtoSerializer = SerializerBase +
  ps_out :: bytes
  ps_stmts :: "proto_Statement list"

definition ProtoSerializer_new_map :: "proto_URI \<Rightarrow> serializer_Format \<Rightarrow> proto_URI std_map \<Rightarrow> ProtoSerializer" where
  "ProtoSerializer_new_map baseUri format namespaces =
     SerializerBase.extend (SerializerBase_new_map baseUri format namespaces) \<lparr>ps_out = [], ps_stmts = []\<rparr>"

definition ProtoSerializer_new_plain :: "proto_URI \<Rightarrow> serializer_Format \<Rightarrow> ProtoSerializer" where
  "ProtoSerializer_new_plain baseUri format = ProtoSerializer_new_map baseUri format []"

definition ProtoSerializer_new :: "proto_URI \<Rightarrow> serializer_Format \<Rightarrow> proto_Namespace list \<Rightarrow> ProtoSerializer" where
  "ProtoSerializer_new baseUri format namespaces =
     SerializerBase.extend (SerializerBase_new baseUri format namespaces) \<lparr>ps_out = [], ps_stmts = []\<rparr>"

definition ProtoSerializer_prepare :: "ProtoSerializer \<Rightarrow> ProtoSerializer" where
  "ProtoSerializer_prepare this = this"

definition ProtoSerializer_serialize :: "ProtoSerializer \<Rightarrow> proto_Statement \<Rightarrow> error + ProtoSerializer" where
  "ProtoSerializer_serialize this stmt =
     Inr (this\<lparr>ps_stmts := ps_stmts this @ [Statement_MergeFrom Statement_default stmt]\<rparr>)"

definition ProtoSerializer_close :: "statements_codec \<Rightarrow> ProtoSerializer \<Rightarrow> ProtoSerializer" where
  "ProtoSerializer_close K this =
     (let this = this\<lparr>ps_out := ps_out this @
        (case sb_format this of
           SF_PROTO \<Rightarrow> SerializeToCodedStream K (ps_stmts this)
         | SF_PROTO_TEXT \<Rightarrow> TextFormat_Print K (ps_stmts this)
         | _ \<Rightarrow> [])\<rparr>
      in this\<lparr>ps_stmts := []\<rparr>)"

definition ProtoSerializer_class :: "statements_codec \<Rightarrow> ProtoSerializer SerializerBase_class" where
  "ProtoSerializer_class K =
     \<lparr>sb_prepare = ProtoSerializer_prepare, sb_serialize = ProtoSerializer_serialize,
      sb_close = ProtoSerializer_close K\<rparr>"

subsection \<open>The front end\<close>

datatype 's Serializer = Impl_Proto ProtoSerializer | Impl_Raptor "'s RaptorSerializer"

definition Serializer_new ::
  "'s raptor_serializing \<Rightarrow> proto_URI \<Rightarrow> serializer_Format \<Rightarrow> proto_Namespace list \<Rightarrow> 's Serializer" where
  "Serializer_new R baseUri format namespaces =
     (case format of
        SF_PROTO \<Rightarrow> Impl_Proto (ProtoSerializer_new baseUri format namespaces)
      | SF_PROTO_TEXT \<Rightarrow> Impl_Proto (ProtoSerializer_new baseUri format namespaces)
      | _ \<Rightarrow> Impl_Raptor (RaptorSerializer_new R baseUri format namespaces))"

definition Serializer_new_map ::
  "'s raptor_serializing \<Rightarrow> proto_URI \<Rightarrow> serializer_Format \<Rightarrow> proto_URI std_map \<Rightarrow> 's Serializer" where
  "Serializer_new_map R baseUri format namespaces =
     (case format of
        SF_PROTO \<Rightarrow> Impl_Proto (ProtoSerializer_new_map baseUri format namespaces)
      | SF_PROTO_TEXT \<Rightarrow> Impl_Proto (ProtoSerializer_new_map baseUri format namespaces)
      | _ \<Rightarrow> Impl_Raptor (RaptorSerializer_new_map R baseUri format namespaces))"

definition Serializer_new_plain :: "'s raptor_serializing \<Rightarrow> proto_URI \<Rightarrow> serializer_Format \<Rightarrow> 's Serializer" where
  "Serializer_new_plain R baseUri format = Serializer_new_map R baseUri format []"

fun Serializer_serialize ::
  "'s raptor_serializing \<Rightarrow> statements_codec \<Rightarrow> 's Serializer \<Rightarrow> proto_Statement \<Rightarrow> error + 's Serializer" where
  "Serializer_serialize R K (Impl_Proto p) stmt =
     map_sum id Impl_Proto (serialize_statement (ProtoSerializer_class K) p stmt)"
| "Serializer_serialize R K (Impl_Raptor r) stmt =
     map_sum id Impl_Raptor (serialize_statement (RaptorSerializer_class R) r stmt)"

text \<open>
  \<open>Serializer::serialize\<close> for iterators is declared to take the abstract class \<open>StatementIterator\<close> by
  value (\<open>serializer.h:42\<close>), which is not valid C++ as it stands. What follows is the delegation to
  \<open>SerializerBase::serialize\<close> with the parameter taken by reference, as that method takes it; no property rests on it.
\<close>

fun Serializer_serialize_iterator ::
  "'s raptor_serializing \<Rightarrow> statements_codec \<Rightarrow> ('i, proto_Statement) CloseableIterator \<Rightarrow> 'i \<Rightarrow>
   's Serializer \<Rightarrow> 's Serializer exec" where
  "Serializer_serialize_iterator R K It it (Impl_Proto p) =
     exec_bind (serialize_iterator (ProtoSerializer_class K) It it p) (\<lambda>p. exec_return (Impl_Proto p))"
| "Serializer_serialize_iterator R K It it (Impl_Raptor r) =
     exec_bind (serialize_iterator (RaptorSerializer_class R) It it r) (\<lambda>r. exec_return (Impl_Raptor r))"

subsection \<open>The constructors agree\<close>

lemma SerializerBase_overloads:
  "SerializerBase_new b f nss = SerializerBase_new_map b f (namespacesMap nss)"
  "SerializerBase_new_plain b f = SerializerBase_new b f []"
  by (simp_all add: SerializerBase_new_def SerializerBase_new_map_def SerializerBase_new_plain_def namespacesMap_def)

lemma Serializer_overloads:
  "Serializer_new R b f nss = Serializer_new_map R b f (namespacesMap nss)"
  "Serializer_new_plain R b f = Serializer_new R b f []"
  by (cases f; simp add: Serializer_new_def Serializer_new_map_def Serializer_new_plain_def
      RaptorSerializer_new_def RaptorSerializer_new_map_def ProtoSerializer_new_def ProtoSerializer_new_map_def
      SerializerBase_overloads(1) namespacesMap_def)+

text \<open>A prefix stands for the URI of the last namespace with that prefix.\<close>

lemma namespacesMap_lookup:
  "map_of (namespacesMap nss) = foldl (\<lambda>m ns. m(ns_prefix ns \<mapsto> URI_new (ns_uri ns))) Map.empty nss"
proof -
  have "map_of (foldl (\<lambda>result ns. std_map_put (ns_prefix ns) (URI_new (ns_uri ns)) result) m nss) =
      foldl (\<lambda>m ns. m(ns_prefix ns \<mapsto> URI_new (ns_uri ns))) (map_of m) nss" for m
    by (induction nss arbitrary: m) (simp_all)
  then show ?thesis by (simp add: namespacesMap_def)
qed

subsection \<open>Which statements Raptor accepts\<close>

text \<open>A subject, an object and a context are set, down to the alternative of each \<open>oneof\<close>.\<close>

fun object_set :: "proto_Value \<Rightarrow> bool" where
  "object_set (V_RESOURCE r) = (r \<noteq> R_NONE)"
| "object_set (V_LITERAL l) = (l \<noteq> L_NONE)"
| "object_set V_NONE = False"

definition complete_statement :: "proto_Statement \<Rightarrow> bool" where
  "complete_statement s \<longleftrightarrow> subject_of s \<noteq> R_NONE \<and> object_set (object_of s) \<and> context_of s \<noteq> R_NONE"

lemma raptor_resource_fails:
  "(\<exists>e. raptor_resource R m r = Inl e) \<longleftrightarrow> r = R_NONE"
  by (cases r) (simp_all add: raptor_resource_def)

lemma raptor_object_fails:
  "(\<exists>e. raptor_object R v = Inl e) \<longleftrightarrow> \<not> object_set v"
proof (cases v)
  case (V_LITERAL l)
  then show ?thesis by (cases l) (simp_all add: raptor_object_def)
qed (simp_all add: raptor_object_def raptor_resource_fails)

lemma raptor_triple_accepts: "(\<exists>t. raptor_triple R s = Inr t) \<longleftrightarrow> complete_statement s"
  using raptor_resource_fails [of R "''invalid subject type''" "subject_of s"]
    raptor_object_fails [of R "object_of s"]
    raptor_resource_fails [of R "''invalid context type''" "context_of s"]
  by (auto simp: raptor_triple_def complete_statement_def split: sum.splits)

text \<open>
  What the Raptor serializer accepts. A statement is handed to Raptor exactly when its subject,
  its object and its context are set; in particular every complete statement without a context is
  refused, with the message of the context.
\<close>

theorem RaptorSerializer_accepts:
  "((\<exists>this'. RaptorSerializer_serialize R this s = Inr this') \<longleftrightarrow> complete_statement s) \<and>
   (subject_of s \<noteq> R_NONE \<and> object_set (object_of s) \<and> \<not> has_context s \<longrightarrow>
      RaptorSerializer_serialize R this s = Inl (SerializationError ''invalid context type''))"
proof
  show "(\<exists>this'. RaptorSerializer_serialize R this s = Inr this') \<longleftrightarrow> complete_statement s"
    using raptor_triple_accepts [of R s] by (auto simp: RaptorSerializer_serialize_def split: sum.split)
  show "subject_of s \<noteq> R_NONE \<and> object_set (object_of s) \<and> \<not> has_context s \<longrightarrow>
      RaptorSerializer_serialize R this s = Inl (SerializationError ''invalid context type'')"
    using raptor_resource_fails [of R "''invalid subject type''" "subject_of s"]
      raptor_object_fails [of R "object_of s"]
    by (auto simp: RaptorSerializer_serialize_def raptor_triple_def has_context_def context_of_def
        raptor_resource_def [of R "''invalid context type''"] split: sum.split)
qed

theorem RaptorSerializer_accepts_witness:
  "RaptorSerializer_serialize list_raptor (RaptorSerializer_new list_raptor (URI_new ''http://b'') SF_TURTLE [])
     (Statement_new (Resource_from_string ''http://s'') (URI_new ''http://p'') (Value_from_string ''o'')) =
   Inl (SerializationError ''invalid context type'')"
  using RaptorSerializer_accepts [of list_raptor "RaptorSerializer_new list_raptor (URI_new ''http://b'') SF_TURTLE []"
      "Statement_new (Resource_from_string ''http://s'') (URI_new ''http://p'') (Value_from_string ''o'')"]
  by (simp add: Statement_new_def Statement_default_def subject_of_def object_of_def has_context_def
      Resource_from_string_def Value_from_string_def mutable_defs)

subsection \<open>What Raptor is given is what the parser reports\<close>

text \<open>The statements whose URIs, blank nodes and datatypes are non-empty C strings.\<close>

fun clean_resource :: "proto_Resource \<Rightarrow> bool" where
  "clean_resource (R_URI u) = clean_text (uri_uri u)"
| "clean_resource (R_BNODE b) = clean_text (bnode_id b)"
| "clean_resource R_NONE = False"

fun clean_object :: "proto_Value \<Rightarrow> bool" where
  "clean_object (V_RESOURCE r) = clean_resource r"
| "clean_object (V_LITERAL (L_STRING l)) = True"
| "clean_object (V_LITERAL (L_DATA d)) = (\<exists>u. dl_datatype d = Some u \<and> clean_text (uri_uri u))"
| "clean_object _ = False"

definition clean_statement :: "proto_Statement \<Rightarrow> bool" where
  "clean_statement s \<longleftrightarrow>
     (\<exists>a u v k. s = \<lparr>st_subject = Some a, st_predicate = Some u, st_object = Some v, st_context = Some k\<rparr> \<and>
        clean_resource a \<and> clean_text (uri_uri u) \<and> clean_object v \<and> clean_resource k)"

context raptor_terms
begin

lemma resource_term:
  assumes "clean_resource r"
  shows "\<exists>t. raptor_resource R m r = Inr (Some t) \<and> resource_of_term t = Some r"
  using assms by (cases r) (simp_all add: raptor_resource_def clean_text_def uri_term blank_term)

lemma object_term:
  assumes "clean_object v"
  shows "\<exists>t. raptor_object R v = Inr (Some t) \<and> value_of_term t = Some v"
proof (cases v rule: clean_object.cases)
  case (1 r)
  then obtain t where "raptor_resource R ''invalid object resource type'' r = Inr (Some t)" "resource_of_term t = Some r"
    using resource_term assms by fastforce
  then show ?thesis using 1 by (cases t) (auto simp: raptor_object_def)
next
  case (2 l)
  then show ?thesis
    by (cases "sl_language l = ''''") (auto simp: raptor_object_def plain_term language_term)
next
  case (3 d)
  then obtain u where "dl_datatype d = Some u" "clean_text (uri_uri u)" using assms by auto
  then show ?thesis using 3
    by (auto simp: raptor_object_def datatype_of_def clean_text_def new_uri datatype_term)
qed (use assms in auto)

lemma triple_parses_back:
  assumes "clean_statement s"
  shows "\<exists>t. raptor_triple R s = Inr t \<and> raptor_stmt_handler p st t = Inr (prs_stmt_handler p st s)"
proof -
  obtain a u v k where s: "s = \<lparr>st_subject = Some a, st_predicate = Some u, st_object = Some v, st_context = Some k\<rparr>"
    and clean: "clean_resource a" "clean_text (uri_uri u)" "clean_object v" "clean_resource k"
    using assms by (auto simp: clean_statement_def)
  obtain ta tv tk where t: "raptor_resource R ''invalid subject type'' a = Inr (Some ta)" "resource_of_term ta = Some a"
    "raptor_object R v = Inr (Some tv)" "value_of_term tv = Some v"
    "raptor_resource R ''invalid context type'' k = Inr (Some tk)" "resource_of_term tk = Some k"
    using resource_term [OF clean(1)] object_term [OF clean(3)] resource_term [OF clean(4)] by metis
  have "raptor_triple R s = Inr \<lparr>rs_subject = Some ta, rs_predicate = Some (TERM_URI (uri_uri u)),
      rs_object = Some tv, rs_graph = Some tk\<rparr>"
    using t clean(2) by (simp add: raptor_triple_def s subject_of_def predicate_of_def object_of_def context_of_def
        clean_text_def uri_term)
  moreover have "raptor_stmt_handler p st \<lparr>rs_subject = Some ta, rs_predicate = Some (TERM_URI (uri_uri u)),
      rs_object = Some tv, rs_graph = Some tk\<rparr> = Inr (prs_stmt_handler p st s)"
    using raptor_stmt_handler_complete [OF t(2,4), where g = "Some tk" and k = k and p = p and st = st and u = "uri_uri u"]
      t(6) by (cases u) (simp add: s)
  ultimately show ?thesis by blast
qed

end

text \<open>
  C24: serializing and parsing. Whenever Raptor's term constructors keep their texts, the triple the
  serializer builds for a statement whose names are non-empty C strings is accepted, and the parser,
  given that triple, calls its handler with exactly the same statement.
\<close>

theorem serialize_then_parse:
  assumes "raptor_terms R" and "clean_statement s"
  shows "\<exists>t. raptor_triple R s = Inr t \<and> raptor_stmt_handler p st t = Inr (prs_stmt_handler p st s)"
  using raptor_terms.triple_parses_back [OF assms] .

theorem serialize_then_parse_witness:
  "\<exists>t. raptor_triple list_raptor
      \<lparr>st_subject = Some (R_URI \<lparr>uri_uri = ''http://s''\<rparr>), st_predicate = Some \<lparr>uri_uri = ''http://p''\<rparr>,
       st_object = Some (V_LITERAL (L_STRING \<lparr>sl_content = ''o'', sl_language = ''en''\<rparr>)),
       st_context = Some (R_BNODE \<lparr>bnode_id = ''g''\<rparr>)\<rparr> = Inr t \<and>
    raptor_stmt_handler
      \<lparr>prs_parser = (), prs_base = None, prs_stmt_handler = (\<lambda>w s. w @ [s]), prs_ns_handler = (\<lambda>w s. w)\<rparr> [] t =
    Inr [\<lparr>st_subject = Some (R_URI \<lparr>uri_uri = ''http://s''\<rparr>), st_predicate = Some \<lparr>uri_uri = ''http://p''\<rparr>,
       st_object = Some (V_LITERAL (L_STRING \<lparr>sl_content = ''o'', sl_language = ''en''\<rparr>)),
       st_context = Some (R_BNODE \<lparr>bnode_id = ''g''\<rparr>)\<rparr>]"
  using serialize_then_parse [OF list_raptor.raptor_terms_axioms,
      of "\<lparr>st_subject = Some (R_URI \<lparr>uri_uri = ''http://s''\<rparr>), st_predicate = Some \<lparr>uri_uri = ''http://p''\<rparr>,
       st_object = Some (V_LITERAL (L_STRING \<lparr>sl_content = ''o'', sl_language = ''en''\<rparr>)),
       st_context = Some (R_BNODE \<lparr>bnode_id = ''g''\<rparr>)\<rparr>"
      "\<lparr>prs_parser = (), prs_base = None, prs_stmt_handler = (\<lambda>w s. w @ [s]), prs_ns_handler = (\<lambda>w s. w)\<rparr>" "[]"]
  by (simp add: clean_statement_def clean_text_def)

subsection \<open>Serializing a result\<close>

lemma raptor_triple_cases:
  "raptor_triple R s = (if complete_statement s then Inr (projr (raptor_triple R s)) else Inl (projl (raptor_triple R s)))"
  using raptor_triple_accepts [of R s] by (cases "raptor_triple R s") auto

lemma raptor_foldl:
  "exec_foldl (\<lambda>this s. Some (RaptorSerializer_serialize R this s)) this ss =
    (case find (\<lambda>s. \<not> complete_statement s) ss of
       None \<Rightarrow> exec_return (this\<lparr>rap_serializer :=
         foldl (raptor_serializer_serialize_statement R) (rap_serializer this) (map (projr \<circ> raptor_triple R) ss)\<rparr>)
     | Some s \<Rightarrow> exec_throw (projl (raptor_triple R s)))"
proof (induction ss arbitrary: this)
  case (Cons s ss)
  then show ?case
    by (subst exec_foldl.simps, unfold RaptorSerializer_serialize_def [of R this s], subst raptor_triple_cases)
      (simp add: exec_throw_def split: option.split)
qed simp

lemma raptor_stream_run:
  assumes "closeable_iterator It ok remaining" and "ok it"
  shows "serialize_iterator (RaptorSerializer_class R) It it this =
    (case find (\<lambda>s. \<not> complete_statement s) (remaining it) of
       None \<Rightarrow> exec_return (this\<lparr>rap_serializer :=
         raptor_serializer_serialize_end R
           (foldl (raptor_serializer_serialize_statement R)
             (raptor_serializer_start_to_iostream R (rap_serializer this) (rap_base this))
             (map (projr \<circ> raptor_triple R) (remaining it)))\<rparr>)
     | Some s \<Rightarrow> exec_throw (projl (raptor_triple R s)))"
  unfolding serialize_iterator_def closeable_iterator.for_each_remaining [OF assms]
  by (simp add: RaptorSerializer_class_def raptor_foldl RaptorSerializer_prepare_def RaptorSerializer_close_def
      split: option.split)

text \<open>
  C34: serializing the statements of an iterator with Raptor. For an iterator that keeps its
  contract, the serializer starts Raptor's output, hands over the triples of all statements in
  order and ends the output when every statement is complete; otherwise it throws the exception of
  the first incomplete statement, and the output is never ended.
\<close>

theorem RaptorSerializer_stream:
  assumes "closeable_iterator It ok remaining" and "ok it"
  shows "serialize_iterator (RaptorSerializer_class R) It it this =
    (case find (\<lambda>s. \<not> complete_statement s) (remaining it) of
       None \<Rightarrow> exec_return (this\<lparr>rap_serializer :=
         raptor_serializer_serialize_end R
           (foldl (raptor_serializer_serialize_statement R)
             (raptor_serializer_start_to_iostream R (rap_serializer this) (rap_base this))
             (map (projr \<circ> raptor_triple R) (remaining it)))\<rparr>)
     | Some s \<Rightarrow> exec_throw (projl (raptor_triple R s)))"
  using assms by (rule raptor_stream_run)

theorem RaptorSerializer_stream_witness:
  "\<exists>this. serialize_iterator (RaptorSerializer_class list_raptor) SingletonIterator
      (SingletonIterator_new (Statement_new_context (Resource_from_string ''http://s'') (URI_new ''http://p'')
        (Value_from_string ''o'') (Resource_from_string ''http://g'')))
      (RaptorSerializer_new list_raptor (URI_new ''http://b'') SF_TURTLE []) = exec_return this"
proof -
  have "complete_statement (Statement_new_context (Resource_from_string ''http://s'') (URI_new ''http://p'')
        (Value_from_string ''o'') (Resource_from_string ''http://g''))"
    by (simp add: complete_statement_def Statement_new_context_def Statement_new_def Statement_default_def
        subject_of_def object_of_def context_of_def Resource_from_string_def Value_from_string_def mutable_defs)
  then show ?thesis
    using RaptorSerializer_stream [OF singleton_iterator.closeable_iterator_axioms TrueI,
      of list_raptor "SingletonIterator_new (Statement_new_context (Resource_from_string ''http://s'') (URI_new ''http://p'')
        (Value_from_string ''o'') (Resource_from_string ''http://g''))"
      "RaptorSerializer_new list_raptor (URI_new ''http://b'') SF_TURTLE []"]
    by (simp add: SingletonIterator_new_def singleton_remaining_def)
qed

lemma proto_foldl:
  "exec_foldl (\<lambda>this s. Some (ProtoSerializer_serialize this s)) this ss =
     exec_return (this\<lparr>ps_stmts := ps_stmts this @ ss\<rparr>)"
  by (induction ss arbitrary: this) (simp_all add: ProtoSerializer_serialize_def)

text \<open>
  Serializing the statements of an iterator as Protocol Buffers. The serializer collects all
  statements unchanged and in order, writes one message with them when it is closed, and is empty
  again afterwards, so that it can be used anew.
\<close>

theorem ProtoSerializer_stream:
  assumes "closeable_iterator It ok remaining" and "ok it" and "ps_stmts this = []"
  shows "serialize_iterator (ProtoSerializer_class K) It it this =
    exec_return (this\<lparr>ps_stmts := [],
      ps_out := ps_out this @
        (case sb_format this of
           SF_PROTO \<Rightarrow> SerializeToCodedStream K (remaining it)
         | SF_PROTO_TEXT \<Rightarrow> TextFormat_Print K (remaining it)
         | _ \<Rightarrow> [])\<rparr>)"
  unfolding serialize_iterator_def closeable_iterator.for_each_remaining [OF assms(1,2)]
  using assms(3)
  by (cases "sb_format this")
    (simp_all add: ProtoSerializer_class_def proto_foldl ProtoSerializer_prepare_def ProtoSerializer_close_def Let_def)

theorem ProtoSerializer_stream_witness:
  "\<exists>this. serialize_iterator
      (ProtoSerializer_class \<lparr>SerializeToCodedStream = (\<lambda>ss. replicate (length ss) 7), TextFormat_Print = (\<lambda>ss. [])\<rparr>)
      SingletonIterator (SingletonIterator_new Statement_default)
      (ProtoSerializer_new (URI_new ''http://b'') SF_PROTO []) = exec_return this \<and> ps_out this = [7] \<and> ps_stmts this = []"
  using ProtoSerializer_stream [OF singleton_iterator.closeable_iterator_axioms TrueI,
      of "ProtoSerializer_new (URI_new ''http://b'') SF_PROTO []"
        "\<lparr>SerializeToCodedStream = (\<lambda>ss. replicate (length ss) 7), TextFormat_Print = (\<lambda>ss. [])\<rparr>"
        "SingletonIterator_new Statement_default"]
  by (simp add: ProtoSerializer_new_def SerializerBase_new_def SerializerBase.extend_def SingletonIterator_new_def
      singleton_remaining_def)

end
