(* ===== verification/Rdf_Numbers.thy ===== *)
theory Rdf_Numbers
  imports Rdf_Model Std
begin

text \<open>
  The integer conversions of \<open>DatatypeLiteral\<close> (\<open>model/rdf_model.h\<close>): \<open>std::stoi\<close> and \<open>std::stoll\<close>
  of the content, which read a prefix of it and may throw. The conversion operators to \<open>int\<close> and
  \<open>long long\<close> have the same bodies.
\<close>

definition DatatypeLiteral_intValue :: "proto_DatatypeLiteral \<Rightarrow> error + int" where
  "DatatypeLiteral_intValue this = sto_integer 32 (dl_content this)"

definition DatatypeLiteral_operator_int :: "proto_DatatypeLiteral \<Rightarrow> error + int" where
  "DatatypeLiteral_operator_int this = sto_integer 32 (dl_content this)"

definition DatatypeLiteral_longValue :: "proto_DatatypeLiteral \<Rightarrow> error + int" where
  "DatatypeLiteral_longValue this = sto_integer 64 (dl_content this)"

definition DatatypeLiteral_operator_long_long :: "proto_DatatypeLiteral \<Rightarrow> error + int" where
  "DatatypeLiteral_operator_long_long this = sto_integer 64 (dl_content this)"

lemma sto_integer_to_string:
  "sto_integer w (to_string i) = (if - (2 ^ (w - 1)) \<le> i \<and> i < 2 ^ (w - 1) then Inr i else Inl OutOfRange)"
  by (simp add: sto_integer_def)

lemma dl_content_new [simp]: "dl_content (DatatypeLiteral_new s u) = s"
  by (simp add: DatatypeLiteral_new_def Let_def)

text \<open>
  Integers as literals. A literal built from the decimal text of an integer gives that integer
  back when it fits the type of the conversion and throws \<open>out_of_range\<close> otherwise; whatever the
  content, a conversion that returns stays within its type.
\<close>

theorem DatatypeLiteral_integers:
  "DatatypeLiteral_intValue (DatatypeLiteral_new (to_string i) u) =
     (if - 2147483648 \<le> i \<and> i \<le> 2147483647 then Inr i else Inl OutOfRange) \<and>
   DatatypeLiteral_longValue (DatatypeLiteral_new (to_string i) u) =
     (if - 9223372036854775808 \<le> i \<and> i \<le> 9223372036854775807 then Inr i else Inl OutOfRange) \<and>
   (DatatypeLiteral_intValue l = Inr k \<longrightarrow> - 2147483648 \<le> k \<and> k \<le> 2147483647)"
  by (auto simp: DatatypeLiteral_intValue_def DatatypeLiteral_longValue_def sto_integer_to_string
      sto_integer_def split: option.splits if_splits)

theorem DatatypeLiteral_integers_witness:
  "DatatypeLiteral_intValue (DatatypeLiteral_new (to_string (- 42)) (URI_new ''http://i'')) = Inr (- 42) \<and>
   DatatypeLiteral_intValue (DatatypeLiteral_new (to_string 3000000000) (URI_new ''http://i'')) = Inl OutOfRange"
  using DatatypeLiteral_integers [of "- 42" "URI_new ''http://i''"]
    DatatypeLiteral_integers [of 3000000000 "URI_new ''http://i''"] by simp

end
