(* ===== verification/Rasqal_Model.thy ===== *)
theory Rasqal_Model
  imports Rdf_Numbers
begin

text \<open>
  \<open>sparql/rasqal_model.cc\<close>: the conversions between the values of the Rasqal query engine and the
  RDF model.

  Rasqal is not part of the sources. Its public structure \<open>rasqal_literal\<close> is a record whose union
  is flattened (a null pointer is \<open>None\<close>, a Raptor URI its text, \<open>'x\<close> the library's floating point,
  decimal, date and time values); its constructors and printers, and \<open>std::to_string\<close> of a double,
  are the fields of the record \<open>rasqal\<close>, with the contract \<open>rasqal_literals\<close>.
\<close>

datatype rasqal_literal_type =
  RL_UNKNOWN | RL_BLANK | RL_URI | RL_STRING | RL_XSD_STRING | RL_BOOLEAN | RL_INTEGER | RL_FLOAT | RL_DOUBLE
  | RL_DECIMAL | RL_DATETIME | RL_UDT | RL_PATTERN | RL_QNAME | RL_VARIABLE | RL_DATE

record 'x rasqal_literal =
  rl_type :: rasqal_literal_type
  rl_string :: string
  rl_language :: "string option"
  rl_datatype :: "string option"
  rl_uri :: string
  rl_integer :: int
  rl_xsd :: 'x
  rl_variable :: "string option"

record 'x rasqal =
  rasqal_new_uri_literal :: "string option \<Rightarrow> 'x rasqal_literal option"
  rasqal_new_simple_literal :: "rasqal_literal_type \<Rightarrow> string \<Rightarrow> 'x rasqal_literal option"
  rasqal_new_string_literal :: "string \<Rightarrow> string option \<Rightarrow> string option \<Rightarrow> 'x rasqal_literal option"
  rasqal_raptor_new_uri :: "string \<Rightarrow> string option"
  to_string_double :: "'x \<Rightarrow> string"
  rasqal_xsd_decimal_as_string :: "'x \<Rightarrow> string"
  rasqal_xsd_datetime_to_string :: "'x \<Rightarrow> string"
  rasqal_xsd_date_to_string :: "'x \<Rightarrow> string"

subsection \<open>From Rasqal\<close>

text \<open>The conversions dereference their argument; a null pointer is undefined.\<close>

definition ConvertResource :: "'x rasqal_literal \<Rightarrow> rdf_Resource" where
  "ConvertResource node =
     (case rl_type node of
        RL_URI \<Rightarrow> fst (Resource_from_URI_move (URI_new (rl_uri node)))
      | RL_BLANK \<Rightarrow> fst (Resource_from_BNode_move (BNode_new (rl_string node)))
      | _ \<Rightarrow> Resource_default)"

definition typed_value :: "string \<Rightarrow> string option \<Rightarrow> error + rdf_Value" where
  "typed_value label datatype =
     (case datatype of
        None \<Rightarrow> Inl Undefined
      | Some d \<Rightarrow> Inr (fst (Value_from_DatatypeLiteral_move (DatatypeLiteral_new label (URI_new d)))))"

text \<open>The branches that print with the library assign to a local value first.\<close>

definition typed_assign :: "string \<Rightarrow> string option \<Rightarrow> error + rdf_Value" where
  "typed_assign label datatype =
     (case datatype of
        None \<Rightarrow> Inl Undefined
      | Some d \<Rightarrow> Inr (fst (Value_assign_DatatypeLiteral_move Value_default (DatatypeLiteral_new label (URI_new d)))))"

definition ConvertValue :: "'x rasqal \<Rightarrow> 'x rasqal_literal option \<Rightarrow> error + rdf_Value" where
  "ConvertValue Q node =
     (case node of
        None \<Rightarrow> Inl Undefined
      | Some n \<Rightarrow>
          (case rl_type n of
             RL_URI \<Rightarrow> Inr (fst (Value_from_URI_move (URI_new (rl_uri n))))
           | RL_BLANK \<Rightarrow> Inr (fst (Value_from_BNode_move (BNode_new (rl_string n))))
           | RL_STRING \<Rightarrow>
               (case rl_language n of
                  Some l \<Rightarrow> Inr (fst (Value_from_StringLiteral_move (StringLiteral_new_lang (rl_string n) l)))
                | None \<Rightarrow> Inr (fst (Value_from_StringLiteral_move (StringLiteral_new (rl_string n)))))
           | RL_XSD_STRING \<Rightarrow> typed_value (rl_string n) (rl_datatype n)
           | RL_BOOLEAN \<Rightarrow> typed_value (if rl_integer n = 0 then ''false'' else ''true'') (rl_datatype n)
           | RL_INTEGER \<Rightarrow> typed_value (to_string (rl_integer n)) (rl_datatype n)
           | RL_FLOAT \<Rightarrow> typed_value (to_string_double Q (rl_xsd n)) (rl_datatype n)
           | RL_DOUBLE \<Rightarrow> typed_value (to_string_double Q (rl_xsd n)) (rl_datatype n)
           | RL_DECIMAL \<Rightarrow> typed_assign (rasqal_xsd_decimal_as_string Q (rl_xsd n)) (rl_datatype n)
           | RL_DATETIME \<Rightarrow> typed_assign (rasqal_xsd_datetime_to_string Q (rl_xsd n)) (rl_datatype n)
           | RL_DATE \<Rightarrow> typed_assign (rasqal_xsd_date_to_string Q (rl_xsd n)) (rl_datatype n)
           | _ \<Rightarrow> Inr Value_default))"

definition ConvertURI :: "'x rasqal_literal \<Rightarrow> proto_URI" where
  "ConvertURI node = (case rl_type node of RL_URI \<Rightarrow> URI_new (rl_uri node) | _ \<Rightarrow> URI_default)"

definition RASQAL_TRIPLE_SUBJECT :: "32 word" where "RASQAL_TRIPLE_SUBJECT = 1"
definition RASQAL_TRIPLE_PREDICATE :: "32 word" where "RASQAL_TRIPLE_PREDICATE = 2"
definition RASQAL_TRIPLE_OBJECT :: "32 word" where "RASQAL_TRIPLE_OBJECT = 4"
definition RASQAL_TRIPLE_ORIGIN :: "32 word" where "RASQAL_TRIPLE_ORIGIN = 8"
definition RASQAL_TRIPLE_SPOG :: "32 word" where "RASQAL_TRIPLE_SPOG = 15"

record 'x rasqal_triple =
  rt_subject :: "'x rasqal_literal"
  rt_predicate :: "'x rasqal_literal"
  rt_object :: "'x rasqal_literal"
  rt_origin :: "'x rasqal_literal option"
  rt_flags :: "32 word"

definition ConvertStatement :: "'x rasqal \<Rightarrow> 'x rasqal_triple \<Rightarrow> error + proto_Statement" where
  "ConvertStatement Q triple =
     (case ConvertValue Q (Some (rt_object triple)) of
        Inl e \<Rightarrow> Inl e
      | Inr object \<Rightarrow>
          (if rt_flags triple = RASQAL_TRIPLE_SPOG then
             (case rt_origin triple of
                None \<Rightarrow> Inl Undefined
              | Some origin \<Rightarrow>
                  Inr (fst (Statement_new_context_move (ConvertResource (rt_subject triple))
                    (ConvertURI (rt_predicate triple)) object (ConvertResource origin))))
           else
             Inr (fst (Statement_new_move (ConvertResource (rt_subject triple))
               (ConvertURI (rt_predicate triple)) object))))"

subsection \<open>To Rasqal\<close>

definition AsStringLiteral :: "'x rasqal \<Rightarrow> proto_Value \<Rightarrow> 'x rasqal_literal option" where
  "AsStringLiteral Q v =
     (let l = literal_stringliteral (value_literal v)
      in rasqal_new_string_literal Q (c_str (sl_content l)) (Some (c_str (sl_language l))) None)"

definition AsDatatypeLiteral :: "'x rasqal \<Rightarrow> proto_Value \<Rightarrow> 'x rasqal_literal option" where
  "AsDatatypeLiteral Q v =
     (let l = literal_dataliteral (value_literal v)
      in rasqal_new_string_literal Q (c_str (dl_content l)) None
           (rasqal_raptor_new_uri Q (c_str (uri_uri (datatype_of l)))))"

definition AsLiteral_Resource :: "'x rasqal \<Rightarrow> rdf_Resource \<Rightarrow> 'x rasqal_literal option" where
  "AsLiteral_Resource Q r =
     (case res_type r of
        RT_URI \<Rightarrow> rasqal_new_uri_literal Q (rasqal_raptor_new_uri Q (c_str (Resource_stringValue r)))
      | RT_BNODE \<Rightarrow> rasqal_new_simple_literal Q RL_BLANK (c_str (Resource_stringValue r))
      | RT_NONE \<Rightarrow> None)"

definition AsLiteral_Value :: "'x rasqal \<Rightarrow> rdf_Value \<Rightarrow> 'x rasqal_literal option" where
  "AsLiteral_Value Q v =
     (case val_type v of
        VT_URI \<Rightarrow> rasqal_new_uri_literal Q (rasqal_raptor_new_uri Q (c_str (Value_stringValue v)))
      | VT_BNODE \<Rightarrow> rasqal_new_simple_literal Q RL_BLANK (c_str (Value_stringValue v))
      | VT_STRING_LITERAL \<Rightarrow> AsStringLiteral Q (val_internal v)
      | VT_DATATYPE_LITERAL \<Rightarrow> AsDatatypeLiteral Q (val_internal v)
      | VT_NONE \<Rightarrow> None)"

definition AsLiteral_URI :: "'x rasqal \<Rightarrow> proto_URI \<Rightarrow> 'x rasqal_literal option" where
  "AsLiteral_URI Q u = rasqal_new_uri_literal Q (rasqal_raptor_new_uri Q (c_str (uri_uri u)))"

subsection \<open>Round trips\<close>

definition xsd_string :: string where
  "xsd_string = ''http://www.w3.org/2001/XMLSchema#string''"

text \<open>
  What the constructors of the library are documented to do. Only plain strings and \<open>xsd:string\<close>
  literals keep their text; the library converts the other datatypes it knows to native values.
\<close>

locale rasqal_literals =
  fixes Q :: "'x rasqal"
  assumes raptor_uri: "u \<noteq> '''' \<Longrightarrow> rasqal_raptor_new_uri Q u = Some u"
    and uri_literal: "u \<noteq> '''' \<Longrightarrow>
      \<exists>n. rasqal_new_uri_literal Q (Some u) = Some n \<and> rl_type n = RL_URI \<and> rl_uri n = u"
    and blank_literal: "\<exists>n. rasqal_new_simple_literal Q RL_BLANK s = Some n \<and> rl_type n = RL_BLANK \<and> rl_string n = s"
    and plain_literal: "\<exists>n. rasqal_new_string_literal Q s (Some l) None = Some n \<and> rl_type n = RL_STRING \<and>
      rl_string n = s \<and> field_or '''' (rl_language n) = l"
    and string_literal: "\<exists>n. rasqal_new_string_literal Q s None (Some xsd_string) = Some n \<and>
      rl_type n = RL_XSD_STRING \<and> rl_string n = s \<and> rl_datatype n = Some xsd_string"

definition list_rasqal :: "unit rasqal" where
  "list_rasqal =
     (let lit = (\<lambda>t s l d u. \<lparr>rl_type = t, rl_string = s, rl_language = l, rl_datatype = d, rl_uri = u, rl_integer = 0,
            rl_xsd = (), rl_variable = None\<rparr>)
      in \<lparr>rasqal_new_uri_literal = map_option (lit RL_URI '''' None None),
          rasqal_new_simple_literal = (\<lambda>t s. Some (lit t s None None '''')),
          rasqal_new_string_literal =
            (\<lambda>s l d. Some (lit (if d = None then RL_STRING else if d = Some xsd_string then RL_XSD_STRING else RL_UDT) s l d '''')),
          rasqal_raptor_new_uri = (\<lambda>u. if u = '''' then None else Some u),
          to_string_double = (\<lambda>_. ''0.000000''),
          rasqal_xsd_decimal_as_string = (\<lambda>_. ''0''),
          rasqal_xsd_datetime_to_string = (\<lambda>_. ''''),
          rasqal_xsd_date_to_string = (\<lambda>_. '''')\<rparr>)"

interpretation list_rasqal: rasqal_literals list_rasqal
  by unfold_locales (simp_all add: list_rasqal_def Let_def)

text \<open>The values whose texts are C strings and whose datatype the engine keeps.\<close>

fun engine_value :: "proto_Value \<Rightarrow> bool" where
  "engine_value (V_RESOURCE (R_URI u)) = clean_text (uri_uri u)"
| "engine_value (V_RESOURCE (R_BNODE b)) = (CHR 0x00 \<notin> set (bnode_id b))"
| "engine_value (V_LITERAL (L_STRING l)) = (CHR 0x00 \<notin> set (sl_content l) \<and> CHR 0x00 \<notin> set (sl_language l))"
| "engine_value (V_LITERAL (L_DATA d)) =
     (CHR 0x00 \<notin> set (dl_content d) \<and> dl_datatype d = Some \<lparr>uri_uri = xsd_string\<rparr>)"
| "engine_value _ = False"

lemma xsd_string_text: "xsd_string \<noteq> ''''" "c_str xsd_string = xsd_string"
  by (simp_all add: xsd_string_def)

lemmas convert_defs = ConvertValue_def typed_value_def AsLiteral_Value_def Value_from_message_def Value_type_of_def
  Value_stringValue_def value_constructor_defs mutable_defs URI_new_def URI_default_def BNode_new_def BNode_default_def
  StringLiteral_new_def StringLiteral_new_lang_def StringLiteral_default_def DatatypeLiteral_new_def
  DatatypeLiteral_default_def URI_MergeFrom_def merge_string_def datatype_of_def

context rasqal_literals
begin

lemma value_round_trip:
  assumes "engine_value m"
  shows "ConvertValue Q (AsLiteral_Value Q (Value_from_message m)) = Inr (Value_from_message m)"
proof (cases m rule: engine_value.cases)
  case (1 u)
  then have "uri_uri u \<noteq> ''''" "c_str (uri_uri u) = uri_uri u" using assms by (auto simp: clean_text_def)
  then show ?thesis using 1 uri_literal [of "uri_uri u"] raptor_uri [of "uri_uri u"]
    by (auto simp: convert_defs)
next
  case (2 b)
  then have "c_str (bnode_id b) = bnode_id b" using assms by auto
  then show ?thesis using 2 blank_literal [of "bnode_id b"] by (auto simp: convert_defs)
next
  case (3 l)
  then have texts: "c_str (sl_content l) = sl_content l" "c_str (sl_language l) = sl_language l" using assms by auto
  obtain n where "rasqal_new_string_literal Q (sl_content l) (Some (sl_language l)) None = Some n" "rl_type n = RL_STRING"
    "rl_string n = sl_content l" "field_or '''' (rl_language n) = sl_language l"
    using plain_literal by blast
  then show ?thesis using 3 texts
    by (cases "rl_language n") (auto simp: convert_defs AsStringLiteral_def Let_def)
next
  case (4 d)
  then have texts: "c_str (dl_content d) = dl_content d" "dl_datatype d = Some \<lparr>uri_uri = xsd_string\<rparr>" using assms by auto
  then show ?thesis using 4 string_literal [of "dl_content d"] raptor_uri [of xsd_string] xsd_string_text
    by (auto simp: convert_defs AsDatatypeLiteral_def Let_def)
qed (use assms in auto)

end

text \<open>
  C36: values through the query engine. URIs, blank nodes, plain literals with or without a language
  and \<open>xsd:string\<close> literals come back from the engine as the values that were given to it.
\<close>

theorem rasqal_value_roundtrip:
  assumes "rasqal_literals Q" and "engine_value m"
  shows "ConvertValue Q (AsLiteral_Value Q (Value_from_message m)) = Inr (Value_from_message m)"
  using rasqal_literals.value_round_trip [OF assms] .

theorem rasqal_value_roundtrip_witness:
  "ConvertValue list_rasqal (AsLiteral_Value list_rasqal
     (Value_from_message (V_LITERAL (L_STRING \<lparr>sl_content = ''chat'', sl_language = ''fr''\<rparr>)))) =
   Inr (Value_from_message (V_LITERAL (L_STRING \<lparr>sl_content = ''chat'', sl_language = ''fr''\<rparr>)))"
  using rasqal_value_roundtrip [OF list_rasqal.rasqal_literals_axioms,
      of "V_LITERAL (L_STRING \<lparr>sl_content = ''chat'', sl_language = ''fr''\<rparr>)"] by simp

text \<open>
  Values the engine computes. An integer becomes a typed literal that the integer conversion
  reads back; a literal type that the conversion does not list, among them the literals with a
  datatype the engine does not know, becomes the empty value; an unbound variable, a null pointer,
  is dereferenced.
\<close>

theorem ConvertValue_computed:
  "(rl_type n = RL_INTEGER \<and> rl_datatype n = Some d \<and> - 2147483648 \<le> rl_integer n \<and> rl_integer n \<le> 2147483647 \<longrightarrow>
      (\<exists>l. ConvertValue Q (Some n) = Inr (Value_from_message (V_LITERAL (L_DATA l))) \<and>
        uri_uri (datatype_of l) = d \<and> DatatypeLiteral_intValue l = Inr (rl_integer n))) \<and>
   (rl_type n \<in> {RL_UNKNOWN, RL_UDT, RL_PATTERN, RL_QNAME, RL_VARIABLE} \<longrightarrow>
      ConvertValue Q (Some n) = Inr Value_default) \<and>
   ConvertValue Q None = Inl Undefined"
  by (auto simp: convert_defs DatatypeLiteral_intValue_def sto_integer_to_string)

theorem ConvertValue_computed_witness:
  "\<exists>l. ConvertValue list_rasqal (Some \<lparr>rl_type = RL_INTEGER, rl_string = '''', rl_language = None, rl_datatype = Some ''i'',
      rl_uri = '''', rl_integer = 7, rl_xsd = (), rl_variable = None\<rparr>) = Inr (Value_from_message (V_LITERAL (L_DATA l))) \<and>
    uri_uri (datatype_of l) = ''i'' \<and> DatatypeLiteral_intValue l = Inr 7"
  using ConvertValue_computed [of "\<lparr>rl_type = RL_INTEGER, rl_string = '''', rl_language = None, rl_datatype = Some ''i'',
      rl_uri = '''', rl_integer = 7, rl_xsd = (), rl_variable = None\<rparr>" "''i''" list_rasqal] by simp

end
