(* ===== verification/Triple_Source.thy ===== *)
theory Triple_Source
  imports Statement_Store
begin

text \<open>
  \<open>persistence/leveldb_sparql.cc\<close>: the triple source that the SPARQL engine queries, and the
  iterator that turns the messages of the persistence into \<open>rdf::Statement\<close>s.

  The constructor of \<open>WrapProtoStatementIterator\<close> leaves the member \<open>parsed\<close> uninitialised; the
  value it happens to have is an argument of the model's constructor.
\<close>

record 'it WrapProtoStatementIterator =
  wrap_it :: "'it StatementRangeIterator"
  wrap_current :: proto_Statement
  wrap_parsed :: bool

definition WrapProtoStatementIterator_new ::
  "bool \<Rightarrow> 'it StatementRangeIterator \<Rightarrow> 'it WrapProtoStatementIterator" where
  "WrapProtoStatementIterator_new uninitialised it =
     \<lparr>wrap_it = it, wrap_current = Statement_default, wrap_parsed = uninitialised\<rparr>"

definition WrapProtoStatementIterator_inc ::
  "('db, 'it) environment \<Rightarrow> 'it WrapProtoStatementIterator \<Rightarrow> 'it WrapProtoStatementIterator" where
  "WrapProtoStatementIterator_inc E i =
     i\<lparr>wrap_it := it_inc (StatementRangeIterator_class E) (wrap_it i), wrap_parsed := False\<rparr>"

text \<open>The move assignment swaps the message of the inner iterator with the current one.\<close>

definition WrapProtoStatementIterator_deref ::
  "('db, 'it) environment \<Rightarrow> 'it WrapProtoStatementIterator \<Rightarrow>
   error + proto_Statement \<times> 'it WrapProtoStatementIterator" where
  "WrapProtoStatementIterator_deref E i =
     (if \<not> wrap_parsed i then
        (case it_deref (StatementRangeIterator_class E) (wrap_it i) of
           Inl e \<Rightarrow> Inl e
         | Inr (proto, it) \<Rightarrow>
             (let (current, rest) = Statement_assign_move (wrap_current i) proto
              in Inr (current, i\<lparr>wrap_it := it\<lparr>ldb_proto := rest\<rparr>, wrap_current := current, wrap_parsed := True\<rparr>)))
      else Inr (wrap_current i, i))"

definition WrapProtoStatementIterator_class ::
  "('db, 'it) environment \<Rightarrow> ('it WrapProtoStatementIterator, proto_Statement) CloseableIterator" where
  "WrapProtoStatementIterator_class E =
     \<lparr>it_inc = WrapProtoStatementIterator_inc E,
      it_deref = WrapProtoStatementIterator_deref E,
      it_hasNext = (\<lambda>i. it_hasNext (StatementRangeIterator_class E) (wrap_it i))\<rparr>"

text \<open>The pattern of a query: a null pointer leaves its field unset.\<close>

definition source_pattern ::
  "rdf_Resource option \<Rightarrow> proto_URI option \<Rightarrow> rdf_Value option \<Rightarrow> rdf_Resource option \<Rightarrow> proto_Statement" where
  "source_pattern s p v c =
     (let pattern = Statement_default;
          pattern = (case s of None \<Rightarrow> pattern | Some x \<Rightarrow> pattern\<lparr>st_subject := Some (res_internal x)\<rparr>);
          pattern = (case p of None \<Rightarrow> pattern | Some x \<Rightarrow> pattern\<lparr>st_predicate := Some x\<rparr>);
          pattern = (case v of None \<Rightarrow> pattern | Some x \<Rightarrow> pattern\<lparr>st_object := Some (val_internal x)\<rparr>)
      in (case c of None \<Rightarrow> pattern | Some x \<Rightarrow> pattern\<lparr>st_context := Some (res_internal x)\<rparr>))"

definition HasStatement ::
  "('db, 'it) environment \<Rightarrow> 'db LevelDBPersistence \<Rightarrow>
   rdf_Resource option \<Rightarrow> proto_URI option \<Rightarrow> rdf_Value option \<Rightarrow> rdf_Resource option \<Rightarrow> bool exec" where
  "HasStatement E persistence s p v c =
     GetStatements E persistence (source_pattern s p v c) (\<lambda>found stmt. (False, True)) False"

definition Source_GetStatements ::
  "bool \<Rightarrow> ('db, 'it) environment \<Rightarrow> 'db LevelDBPersistence \<Rightarrow>
   rdf_Resource option \<Rightarrow> proto_URI option \<Rightarrow> rdf_Value option \<Rightarrow> rdf_Resource option \<Rightarrow>
   'it WrapProtoStatementIterator" where
  "Source_GetStatements uninitialised E persistence s p v c =
     WrapProtoStatementIterator_new uninitialised (GetStatements_it E persistence (source_pattern s p v c))"

subsection \<open>The wrapping iterator keeps the iterator contract\<close>

text \<open>
  What the loop over the iterator is going to see: when the flag is set, the statement in \<open>current\<close>
  stands for the first one, whatever that is.
\<close>

definition wrap_remaining ::
  "('db, 'it) environment \<Rightarrow> ('db, 'it) view \<Rightarrow> 'it WrapProtoStatementIterator \<Rightarrow> proto_Statement list" where
  "wrap_remaining E A i =
     (case range_remaining E A (wrap_it i) of
        [] \<Rightarrow> []
      | u # us \<Rightarrow> (if wrap_parsed i then wrap_current i else u) # us)"

definition wrap_usable ::
  "('db, 'it) environment \<Rightarrow> ('db, 'it) view \<Rightarrow> 'it WrapProtoStatementIterator \<Rightarrow> bool" where
  "wrap_usable E A i \<longleftrightarrow> \<not> ldb_parsed (wrap_it i)"

lemma range_remaining_proto [simp]: "range_remaining E A (i\<lparr>ldb_proto := m\<rparr>) = range_remaining E A i"
  by (simp add: range_remaining_def)

sublocale leveldb_contract \<subseteq> wrap_iterator:
  closeable_iterator "WrapProtoStatementIterator_class E" "wrap_usable E A" "wrap_remaining E A"
proof unfold_locales
  fix i :: "'it WrapProtoStatementIterator" and x xs
  assume ok: "wrap_usable E A i"
  show "it_hasNext (WrapProtoStatementIterator_class E) i \<longleftrightarrow> wrap_remaining E A i \<noteq> []"
    using ok range_iterator.hasNext
    by (simp add: WrapProtoStatementIterator_class_def wrap_remaining_def wrap_usable_def split: list.split)
  assume rest: "wrap_remaining E A i = x # xs"
  then obtain u where u: "range_remaining E A (wrap_it i) = u # xs" "x = (if wrap_parsed i then wrap_current i else u)"
    by (auto simp: wrap_remaining_def split: list.splits)
  show "\<exists>i'. it_deref (WrapProtoStatementIterator_class E) i = Inr (x, i') \<and> wrap_usable E A i' \<and>
      wrap_remaining E A i' = x # xs"
  proof (cases "wrap_parsed i")
    case True
    with ok rest u show ?thesis
      by (simp add: WrapProtoStatementIterator_class_def WrapProtoStatementIterator_deref_def wrap_usable_def)
  next
    case False
    from ok u obtain it where it: "it_deref (StatementRangeIterator_class E) (wrap_it i) = Inr (u, it)"
      "\<not> ldb_parsed it" "range_remaining E A it = u # xs"
      using range_iterator.deref [of "wrap_it i" u xs] by (auto simp: wrap_usable_def)
    with False u show ?thesis
      by (simp add: WrapProtoStatementIterator_class_def WrapProtoStatementIterator_deref_def
          Statement_assign_move_def wrap_usable_def wrap_remaining_def)
  qed
  show "wrap_usable E A (it_inc (WrapProtoStatementIterator_class E) i) \<and>
      wrap_remaining E A (it_inc (WrapProtoStatementIterator_class E) i) = xs"
    using ok range_iterator.inc [OF _ u(1)]
    by (simp add: WrapProtoStatementIterator_class_def WrapProtoStatementIterator_inc_def
        wrap_usable_def wrap_remaining_def split: list.split)
qed

lemma GetStatements_it_fresh: "\<not> ldb_parsed (GetStatements_it E p pattern)"
  by (simp add: GetStatements_it_def StatementRangeIterator_new_def LevelDBIterator_new_def Let_def)

lemma HasStatement_run:
  assumes "store E A" and "wf_statements E A db"
  shows "HasStatement E db s p v c = exec_return
    (\<exists>u \<in> stored E A db. hash_matches E (effective (source_pattern s p v c)) u)"
proof -
  have "callback_foldl (\<lambda>found stmt. (False, True)) False xs = (xs \<noteq> [])" for xs :: "proto_Statement list"
    by (cases xs) simp_all
  moreover have "query_result E A db (source_pattern s p v c) \<noteq> [] \<longleftrightarrow>
      set (query_result E A db (source_pattern s p v c)) \<noteq> {}" by simp
  ultimately show ?thesis
    using store.query_result_set(1) [OF assms, of "source_pattern s p v c"]
    by (auto simp: HasStatement_def store.GetStatements_result [OF assms(1)])
qed

text \<open>
  Asking for a statement. \<open>HasStatement\<close> returns, with true exactly when the query for its
  pattern has a hit.
\<close>

theorem HasStatement_result:
  assumes "store E A" and "wf_statements E A db"
  shows "HasStatement E db s p v c = exec_return
    (\<exists>u \<in> stored E A db. hash_matches E (effective (source_pattern s p v c)) u)"
  using assms by (rule HasStatement_run)

theorem HasStatement_result_witness:
  "HasStatement (list_environment True) (one_statement_store True example_statement) None None None None = exec_return True"
proof -
  have "hash_matches (list_environment True) (effective (source_pattern None None None None)) example_statement"
    by (simp add: source_pattern_def effective_def Statement_default_def hash_matches_def field_match_def)
  then show ?thesis
    using HasStatement_result [OF list_store.store_axioms [of True]
        one_statement_store_wf(1) [of True example_statement]] by simp
qed

text \<open>What a set flag makes of a result.\<close>

fun seen_first :: "bool \<Rightarrow> proto_Statement list \<Rightarrow> proto_Statement list" where
  "seen_first flag [] = []"
| "seen_first flag (u # us) = (if flag then Statement_default else u) # us"

lemma seen_first_if: "seen_first flag us = (if flag \<and> us \<noteq> [] then Statement_default # tl us else us)"
  by (cases us) simp_all

context leveldb_contract
begin

lemma source_remaining:
  "wrap_usable E A (Source_GetStatements flag E db s p v c)"
  "wrap_remaining E A (Source_GetStatements flag E db s p v c) = seen_first flag (query_result E A db (source_pattern s p v c))"
  by (simp_all add: Source_GetStatements_def WrapProtoStatementIterator_new_def wrap_usable_def
      wrap_remaining_def query_result_def GetStatements_it_fresh split: list.split)

lemma wrap_loop:
  "for_each (WrapProtoStatementIterator_class E) (\<lambda>xs x. exec_return (body xs x))
     (Source_GetStatements flag E db s p v c) z =
   exec_return (foldl body z (seen_first flag (query_result E A db (source_pattern s p v c))))"
  by (simp add: wrap_iterator.for_each_remaining source_remaining exec_foldl_return)

end

text \<open>
  Iterating over a query. If the uninitialised flag happens to be false, the loop of the SPARQL
  engine over the returned iterator sees exactly the statements of the query; if it happens to be true, the loop
  sees the empty statement in place of the first statement of every non-empty result.
\<close>

theorem Source_GetStatements_loop:
  assumes "store E A" and "wf_statements E A db"
  shows "\<exists>ss. set ss = {u \<in> stored E A db. hash_matches E (effective (source_pattern s p v c)) u} \<and> distinct ss \<and>
    for_each (WrapProtoStatementIterator_class E) (\<lambda>xs x. exec_return (body xs x))
      (Source_GetStatements flag E db s p v c) z =
    exec_return (foldl body z (if flag \<and> ss \<noteq> [] then Statement_default # tl ss else ss))"
  using store.query_result_set(1,2) [OF assms, of "source_pattern s p v c"]
    leveldb_contract.wrap_loop [OF store.axioms(1) [OF assms(1)], of body flag db s p v c z]
  by (intro exI [of _ "query_result E A db (source_pattern s p v c)"]) (simp add: seen_first_if)

theorem Source_GetStatements_loop_witness:
  "for_each (WrapProtoStatementIterator_class (list_environment True)) (\<lambda>xs x. exec_return (xs @ [x]))
     (Source_GetStatements True (list_environment True) (one_statement_store True example_statement) None None None None) [] =
   exec_return [Statement_default]"
proof -
  have "hash_matches (list_environment True) (effective (source_pattern None None None None)) example_statement"
    by (simp add: source_pattern_def effective_def Statement_default_def hash_matches_def field_match_def)
  then have one: "{u \<in> stored (list_environment True) list_view (one_statement_store True example_statement).
      hash_matches (list_environment True) (effective (source_pattern None None None None)) u} = {example_statement}"
    by auto
  obtain ss where "set ss = {example_statement}" "distinct ss" and
    run: "for_each (WrapProtoStatementIterator_class (list_environment True)) (\<lambda>xs x. exec_return (xs @ [x]))
     (Source_GetStatements True (list_environment True) (one_statement_store True example_statement) None None None None) [] =
     exec_return (foldl (\<lambda>xs x. xs @ [x]) [] (if True \<and> ss \<noteq> [] then Statement_default # tl ss else ss))"
    using Source_GetStatements_loop [OF list_store.store_axioms [of True] one_statement_store_wf(1) [of True example_statement],
        of None None None None "\<lambda>xs x. xs @ [x]" True "[]"] unfolding one by blast
  from this(1,2) have "ss = [example_statement]" by (intro distinct_set_singleton)
  with run show ?thesis by simp
qed

end
