(* ===== verification/Sparql.thy ===== *)
theory Sparql
  imports Rasqal_Model Triple_Source Grpc
begin

text \<open>
  \<open>sparql/rasqal_adapter.cc\<close>: the callbacks through which the query engine reads a triple source,
  and the execution of a tuple query; and the handler \<open>TupleQuery\<close> of
  \<open>persistence/leveldb_service.cc\<close>.

  A \<open>TripleSource\<close> is a record of its virtual methods; its contract is the locale
  \<open>triple_source\<close>. The variables of a query are named, and their values are a table that the engine
  keeps (\<open>None\<close> is a null pointer). The engine's query objects and results are parameters
  (\<open>rasqal_engine\<close>), with the contract \<open>rasqal_results\<close>. How the callbacks are registered with the
  engine is in the theory \<open>Sparql_Service\<close>. Logging and memory management are left out.
\<close>

record 'i TripleSource =
  ts_HasStatement ::
    "rdf_Resource option \<Rightarrow> proto_URI option \<Rightarrow> rdf_Value option \<Rightarrow> rdf_Resource option \<Rightarrow> bool exec"
  ts_GetStatements ::
    "rdf_Resource option \<Rightarrow> proto_URI option \<Rightarrow> rdf_Value option \<Rightarrow> rdf_Resource option \<Rightarrow> 'i"
  ts_iterator :: "('i, proto_Statement) CloseableIterator"

definition LevelDBTripleSource ::
  "bool \<Rightarrow> ('db, 'it) environment \<Rightarrow> 'db LevelDBPersistence \<Rightarrow> 'it WrapProtoStatementIterator TripleSource" where
  "LevelDBTripleSource uninitialised E persistence =
     \<lparr>ts_HasStatement = HasStatement E persistence,
      ts_GetStatements = Source_GetStatements uninitialised E persistence,
      ts_iterator = WrapProtoStatementIterator_class E\<rparr>"

subsection \<open>Matching a triple pattern\<close>

type_synonym 'x variables = "string \<Rightarrow> 'x rasqal_literal option"

definition err_bind :: "error + 'a \<Rightarrow> ('a \<Rightarrow> error + 'b) \<Rightarrow> error + 'b" where
  "err_bind m f = (case m of Inl e \<Rightarrow> Inl e | Inr v \<Rightarrow> f v)"

lemma err_bind_simps [simp]: "err_bind (Inl e) f = Inl e" "err_bind (Inr v) f = f v"
  by (simp_all add: err_bind_def)

text \<open>
  One position of the pattern: the variable it binds, if it is one, and the term to look up. A
  variable without a value is a wildcard.
\<close>

definition match_position ::
  "('x rasqal_literal \<Rightarrow> error + 'a) \<Rightarrow> 'x variables \<Rightarrow> 'x rasqal_literal \<Rightarrow> string option \<Rightarrow>
   error + string option \<times> 'a option" where
  "match_position convert vals l binding =
     (case rl_variable l of
        Some var \<Rightarrow>
          (case vals var of
             None \<Rightarrow> Inr (Some var, None)
           | Some v \<Rightarrow> err_bind (convert v) (\<lambda>x. Inr (Some var, Some x)))
      | None \<Rightarrow> err_bind (convert l) (\<lambda>x. Inr (binding, Some x)))"

definition init_triples_match ::
  "'x rasqal \<Rightarrow> 'i TripleSource \<Rightarrow> 'x variables \<Rightarrow> string option list \<Rightarrow> 'x rasqal_triple \<Rightarrow>
   error + 'i \<times> string option list" where
  "init_triples_match Q source vals bindings t =
     err_bind (match_position (\<lambda>l. Inr (ConvertResource l)) vals (rt_subject t) (bindings ! 0)) (\<lambda>(b0, s).
     err_bind (match_position (\<lambda>l. Inr (ConvertURI l)) vals (rt_predicate t) (bindings ! 1)) (\<lambda>(b1, p).
     err_bind (match_position (\<lambda>l. ConvertValue Q (Some l)) vals (rt_object t) (bindings ! 2)) (\<lambda>(b2, v).
     err_bind
       (case rt_origin t of
          None \<Rightarrow> Inr (bindings ! 3, None)
        | Some origin \<Rightarrow> match_position (\<lambda>l. Inr (ConvertResource l)) vals origin (bindings ! 3)) (\<lambda>(b3, c).
     Inr (ts_GetStatements source s p v c, [b0, b1, b2, b3])))))"

text \<open>One branch of \<open>bind_match\<close>; the iterator is dereferenced for every part that is asked for.\<close>

definition bind_part ::
  "('i, proto_Statement) CloseableIterator \<Rightarrow> 32 word \<Rightarrow> 32 word \<Rightarrow> string option \<Rightarrow>
   (proto_Statement \<Rightarrow> 'x rasqal_literal option) \<Rightarrow> 'i \<times> 'x variables \<times> 32 word \<Rightarrow>
   error + 'i \<times> 'x variables \<times> 32 word" where
  "bind_part V parts part var field state =
     (case state of (it, vals, r) \<Rightarrow>
        (if parts AND part \<noteq> 0 then
           err_bind (it_deref V it) (\<lambda>(stmt, it).
             (case var of
                None \<Rightarrow> Inl Undefined
              | Some x \<Rightarrow> Inr (it, vals(x := field stmt), r OR part)))
         else Inr state))"

definition bind_match ::
  "'x rasqal \<Rightarrow> ('i, proto_Statement) CloseableIterator \<Rightarrow> string option list \<Rightarrow> 32 word \<Rightarrow> 'i \<Rightarrow> 'x variables \<Rightarrow>
   error + 'i \<times> 'x variables \<times> 32 word" where
  "bind_match Q V bindings parts it vals =
     err_bind (bind_part V parts RASQAL_TRIPLE_SUBJECT (bindings ! 0) (\<lambda>stmt. AsLiteral_Resource Q (getSubject stmt)) (it, vals, 0)) (\<lambda>state.
     err_bind (bind_part V parts RASQAL_TRIPLE_PREDICATE (bindings ! 1) (\<lambda>stmt. AsLiteral_URI Q (getPredicate stmt)) state) (\<lambda>state.
     err_bind (bind_part V parts RASQAL_TRIPLE_OBJECT (bindings ! 2) (\<lambda>stmt. AsLiteral_Value Q (getObject stmt)) state) (\<lambda>state.
     bind_part V parts RASQAL_TRIPLE_ORIGIN (bindings ! 3) (\<lambda>stmt. AsLiteral_Resource Q (getContext stmt)) state)))"

definition next_match :: "('i, proto_Statement) CloseableIterator \<Rightarrow> 'i \<Rightarrow> 'i" where
  "next_match V it = it_inc V it"

definition is_end :: "('i, proto_Statement) CloseableIterator \<Rightarrow> 'i \<Rightarrow> bool" where
  "is_end V it \<longleftrightarrow> \<not> it_hasNext V it"

definition triple_present ::
  "'x rasqal \<Rightarrow> 'i TripleSource \<Rightarrow> 'x rasqal_triple \<Rightarrow> bool exec" where
  "triple_present Q source t =
     (let s = ConvertResource (rt_subject t);
          p = ConvertURI (rt_predicate t)
      in case ConvertValue Q (Some (rt_object t)) of
           Inl e \<Rightarrow> exec_throw e
         | Inr v \<Rightarrow>
             (if rt_flags t AND RASQAL_TRIPLE_ORIGIN \<noteq> 0 then
                (case rt_origin t of
                   None \<Rightarrow> exec_throw Undefined
                 | Some origin \<Rightarrow> ts_HasStatement source (Some s) (Some p) (Some v) (Some (ConvertResource origin)))
              else ts_HasStatement source (Some s) (Some p) (Some v) None))"

subsection \<open>Tuple queries\<close>

record ('q, 'r, 'x) rasqal_engine =
  rasqal_query_prepare :: "string \<Rightarrow> 'q option"
  rasqal_query_execute :: "'q \<Rightarrow> 'r option"
  rasqal_query_results_finished :: "'r \<Rightarrow> bool"
  rasqal_query_results_next :: "'r \<Rightarrow> 'r"
  rasqal_query_results_bindings :: "'r \<Rightarrow> (string \<times> 'x rasqal_literal option) list"

type_synonym RowType = "rdf_Value std_map"

fun result_row ::
  "'x rasqal \<Rightarrow> (string \<times> 'x rasqal_literal option) list \<Rightarrow> RowType \<Rightarrow> error + RowType" where
  "result_row Q [] row = Inr row"
| "result_row Q ((name, v) # bs) row = err_bind (ConvertValue Q v) (\<lambda>x. result_row Q bs (std_map_put name x row))"

partial_function (option) TupleQuery_loop ::
  "'x rasqal \<Rightarrow> ('q, 'r, 'x) rasqal_engine \<Rightarrow> ('s \<Rightarrow> RowType \<Rightarrow> bool \<times> 's) \<Rightarrow> bool \<Rightarrow> 'r \<Rightarrow> 's \<Rightarrow> 's exec" where
  "TupleQuery_loop Q G row_handler nxt r s =
     (if nxt \<and> \<not> rasqal_query_results_finished G r then
        (case result_row Q (rasqal_query_results_bindings G r) [] of
           Inl e \<Rightarrow> Some (Inl e)
         | Inr row \<Rightarrow>
             TupleQuery_loop Q G row_handler (fst (row_handler s row)) (rasqal_query_results_next G r)
               (snd (row_handler s row)))
      else Some (Inr s))"

definition TupleQuery ::
  "'x rasqal \<Rightarrow> ('q, 'r, 'x) rasqal_engine \<Rightarrow> string \<Rightarrow> ('s \<Rightarrow> RowType \<Rightarrow> bool \<times> 's) \<Rightarrow> 's \<Rightarrow> 's exec" where
  "TupleQuery Q G query row_handler s =
     (case rasqal_query_prepare G (c_str query) of
        None \<Rightarrow> exec_throw (SparqlException ''Query preparation failed'' query)
      | Some q \<Rightarrow>
          (case rasqal_query_execute G q of
             None \<Rightarrow> exec_throw (SparqlException ''Query execution failed'' query)
           | Some r \<Rightarrow> TupleQuery_loop Q G row_handler True r s))"

text \<open>The handler of the service: a response message per row, a binding per entry of the row.\<close>

type_synonym SparqlResponse = "(string \<times> proto_Value) list"

definition Service_TupleQuery ::
  "'x rasqal \<Rightarrow> ('q, 'r, 'x) rasqal_engine \<Rightarrow> string \<Rightarrow> ('w, SparqlResponse) ServerWriter \<Rightarrow> 'w \<Rightarrow> (Status \<times> 'w) exec" where
  "Service_TupleQuery Q G query Write w =
     exec_bind
       (TupleQuery Q G query
          (\<lambda>w row. (True, snd (Write w (map (\<lambda>(variable, v). (variable, val_internal v)) row)))) w)
       (\<lambda>w. exec_return (Status_OK, w))"

subsection \<open>The contract of a triple source\<close>

text \<open>What the callbacks need of a triple source: its iterator keeps the iterator contract.\<close>

locale source_iterator =
  closeable_iterator "ts_iterator T" ok remaining
  for T :: "'i TripleSource" and ok and remaining :: "'i \<Rightarrow> proto_Statement list"

text \<open>
  A triple source stands for a set of statements: it lists the hits of a pattern, each once, through
  an iterator that keeps the iterator contract, and tells whether there is one.
\<close>

locale triple_source = source_iterator T ok remaining
  for T :: "'i TripleSource" and ok and remaining :: "'i \<Rightarrow> proto_Statement list" +
  fixes C :: "proto_Statement set" and hit :: "proto_Statement \<Rightarrow> proto_Statement \<Rightarrow> bool"
  assumes get: "ok (ts_GetStatements T s p v c) \<and>
      set (remaining (ts_GetStatements T s p v c)) = {u \<in> C. hit (source_pattern s p v c) u} \<and>
      distinct (remaining (ts_GetStatements T s p v c))"
    and has: "ts_HasStatement T s p v c = exec_return (\<exists>u \<in> C. hit (source_pattern s p v c) u)"

text \<open>The variables after binding a statement, and the parts the engine is told are bound.\<close>

definition bound_part ::
  "32 word \<Rightarrow> 32 word \<Rightarrow> string option \<Rightarrow> 'x rasqal_literal option \<Rightarrow> 'x variables \<times> 32 word \<Rightarrow> 'x variables \<times> 32 word" where
  "bound_part parts part var x m = (if parts AND part \<noteq> 0 then ((fst m)(the var := x), snd m OR part) else m)"

definition bound_match ::
  "'x rasqal \<Rightarrow> string option list \<Rightarrow> 32 word \<Rightarrow> 'x variables \<Rightarrow> proto_Statement \<Rightarrow> 'x variables \<times> 32 word" where
  "bound_match Q bindings parts vals u =
     bound_part parts RASQAL_TRIPLE_ORIGIN (bindings ! 3) (AsLiteral_Resource Q (getContext u))
      (bound_part parts RASQAL_TRIPLE_OBJECT (bindings ! 2) (AsLiteral_Value Q (getObject u))
        (bound_part parts RASQAL_TRIPLE_PREDICATE (bindings ! 1) (AsLiteral_URI Q (getPredicate u))
          (bound_part parts RASQAL_TRIPLE_SUBJECT (bindings ! 0) (AsLiteral_Resource Q (getSubject u)) (vals, 0))))"

text \<open>The parts that are asked for belong to variables of the pattern.\<close>

definition parts_bound :: "32 word \<Rightarrow> string option list \<Rightarrow> bool" where
  "parts_bound parts bindings \<longleftrightarrow>
     (parts AND RASQAL_TRIPLE_SUBJECT \<noteq> 0 \<longrightarrow> bindings ! 0 \<noteq> None) \<and>
     (parts AND RASQAL_TRIPLE_PREDICATE \<noteq> 0 \<longrightarrow> bindings ! 1 \<noteq> None) \<and>
     (parts AND RASQAL_TRIPLE_OBJECT \<noteq> 0 \<longrightarrow> bindings ! 2 \<noteq> None) \<and>
     (parts AND RASQAL_TRIPLE_ORIGIN \<noteq> 0 \<longrightarrow> bindings ! 3 \<noteq> None)"

context source_iterator
begin

lemma bind_part_current:
  assumes "ok it" and "remaining it = u # us" and "parts AND part \<noteq> 0 \<longrightarrow> var \<noteq> None"
  shows "\<exists>it'. bind_part (ts_iterator T) parts part var field (it, m) = Inr (it', bound_part parts part var (field u) m) \<and>
    ok it' \<and> remaining it' = u # us"
  using deref [OF assms(1,2)] assms by (cases m) (auto simp: bind_part_def bound_part_def)

lemma err_bind_current:
  assumes "\<exists>it'. m = Inr (it', x) \<and> ok it' \<and> remaining it' = us"
    and "\<And>it. ok it \<Longrightarrow> remaining it = us \<Longrightarrow> \<exists>it'. f (it, x) = Inr (it', y) \<and> ok it' \<and> remaining it' = us"
  shows "\<exists>it'. err_bind m f = Inr (it', y) \<and> ok it' \<and> remaining it' = us"
  using assms by force

lemma bind_match_current:
  assumes "ok it" and "remaining it = u # us" and "parts_bound parts bindings"
  shows "\<exists>it'. bind_match Q (ts_iterator T) bindings parts it vals = Inr (it', bound_match Q bindings parts vals u) \<and>
    ok it' \<and> remaining it' = u # us"
proof -
  have subject: "parts AND RASQAL_TRIPLE_SUBJECT \<noteq> 0 \<longrightarrow> bindings ! 0 \<noteq> None"
    and predicate: "parts AND RASQAL_TRIPLE_PREDICATE \<noteq> 0 \<longrightarrow> bindings ! 1 \<noteq> None"
    and object: "parts AND RASQAL_TRIPLE_OBJECT \<noteq> 0 \<longrightarrow> bindings ! 2 \<noteq> None"
    and origin: "parts AND RASQAL_TRIPLE_ORIGIN \<noteq> 0 \<longrightarrow> bindings ! 3 \<noteq> None"
    using assms(3) by (simp_all add: parts_bound_def)
  show ?thesis
    unfolding bind_match_def bound_match_def
    by (rule err_bind_current [OF bind_part_current [OF assms(1,2) subject]],
        rule err_bind_current [OF bind_part_current [OF _ _ predicate]], assumption, assumption,
        rule err_bind_current [OF bind_part_current [OF _ _ object]], assumption, assumption,
        rule bind_part_current [OF _ _ origin])
qed

end

subsection \<open>The store as a triple source\<close>

text \<open>A LevelDB store in a consistent state, whatever the uninitialised flag of its iterator is.\<close>

locale consistent_store = store E A
  for E :: "('db, 'it) environment" and A :: "('db, 'it) view" +
  fixes db :: "'db LevelDBPersistence"
  assumes consistent: "wf_statements E A db"

sublocale consistent_store \<subseteq> wrapped: source_iterator "LevelDBTripleSource flag E db" "wrap_usable E A" "wrap_remaining E A"
  for flag
  using wrap_iterator.closeable_iterator_axioms by (simp add: LevelDBTripleSource_def source_iterator_def)

text \<open>With the flag of its iterator unset it meets the whole contract of a triple source.\<close>

sublocale consistent_store \<subseteq> source: triple_source "LevelDBTripleSource False E db" "wrap_usable E A" "wrap_remaining E A"
  "stored E A db" "\<lambda>pattern u. hash_matches E (effective pattern) u"
  using HasStatement_run [OF store_axioms consistent] query_result_set(1,2) [OF consistent]
  by unfold_locales (simp_all add: LevelDBTripleSource_def source_remaining seen_first_if)

interpretation empty_source: consistent_store "list_environment x86_64" list_view empty_store for x86_64
  by unfold_locales simp

text \<open>The term a position of a triple pattern looks up.\<close>

definition position_term :: "('x rasqal_literal \<Rightarrow> 'a) \<Rightarrow> 'x variables \<Rightarrow> 'x rasqal_literal \<Rightarrow> 'a option" where
  "position_term convert vals l =
     (case rl_variable l of Some var \<Rightarrow> map_option convert (vals var) | None \<Rightarrow> Some (convert l))"

definition triple_pattern :: "'x rasqal \<Rightarrow> 'x variables \<Rightarrow> 'x rasqal_triple \<Rightarrow> proto_Statement" where
  "triple_pattern Q vals t =
     source_pattern (position_term ConvertResource vals (rt_subject t)) (position_term ConvertURI vals (rt_predicate t))
       (position_term (\<lambda>l. projr (ConvertValue Q (Some l))) vals (rt_object t))
       (Option.bind (rt_origin t) (position_term ConvertResource vals))"

text \<open>The variables a match binds, and the condition that the terms it looks up convert.\<close>

definition position_binding :: "'x rasqal_literal \<Rightarrow> string option \<Rightarrow> string option" where
  "position_binding l binding = (case rl_variable l of Some var \<Rightarrow> Some var | None \<Rightarrow> binding)"

definition triple_bindings :: "'x rasqal_triple \<Rightarrow> string option list \<Rightarrow> string option list" where
  "triple_bindings t bindings =
     [position_binding (rt_subject t) (bindings ! 0), position_binding (rt_predicate t) (bindings ! 1),
      position_binding (rt_object t) (bindings ! 2),
      (case rt_origin t of None \<Rightarrow> bindings ! 3 | Some origin \<Rightarrow> position_binding origin (bindings ! 3))]"

definition position_converts :: "('x rasqal_literal \<Rightarrow> error + 'a) \<Rightarrow> 'x variables \<Rightarrow> 'x rasqal_literal \<Rightarrow> bool" where
  "position_converts convert vals l \<longleftrightarrow>
     (case rl_variable l of
        Some var \<Rightarrow> (case vals var of None \<Rightarrow> True | Some v \<Rightarrow> \<not> isl (convert v))
      | None \<Rightarrow> \<not> isl (convert l))"

lemma match_position_result:
  "position_converts convert vals l \<Longrightarrow>
     match_position convert vals l b = Inr (position_binding l b, position_term (\<lambda>l. projr (convert l)) vals l)"
  by (auto simp: position_converts_def match_position_def position_term_def position_binding_def err_bind_def isl_def
      split: option.splits sum.splits)

lemma position_converts_total: "position_converts (\<lambda>l. Inr (f l)) vals l"
  by (simp add: position_converts_def split: option.split)

lemma init_triples_match_result:
  assumes "position_converts (\<lambda>l. ConvertValue Q (Some l)) vals (rt_object t)"
  shows "init_triples_match Q T vals bindings t =
    Inr (ts_GetStatements T (position_term ConvertResource vals (rt_subject t))
      (position_term ConvertURI vals (rt_predicate t)) (position_term (\<lambda>l. projr (ConvertValue Q (Some l))) vals (rt_object t))
      (Option.bind (rt_origin t) (position_term ConvertResource vals)), triple_bindings t bindings)"
  by (simp add: init_triples_match_def match_position_result assms position_converts_total triple_bindings_def
      split: option.split)

context consistent_store
begin

lemmas source_contract = source.triple_source_axioms
lemmas wrapped_contract = wrapped.source_iterator_axioms

end

text \<open>A pattern of three variables, for examples.\<close>

definition example_variable :: "string \<Rightarrow> unit rasqal_literal" where
  "example_variable name =
     \<lparr>rl_type = RL_VARIABLE, rl_string = '''', rl_language = None, rl_datatype = None, rl_uri = '''', rl_integer = 0,
      rl_xsd = (), rl_variable = Some name\<rparr>"

definition example_triple :: "unit rasqal_triple" where
  "example_triple =
     \<lparr>rt_subject = example_variable ''s'', rt_predicate = example_variable ''p'', rt_object = example_variable ''o'',
      rt_origin = None, rt_flags = 7\<rparr>"

lemma example_parts_bound: "parts_bound 7 [Some ''s'', Some ''p'', Some ''o'', None]"
  by (simp add: parts_bound_def RASQAL_TRIPLE_SUBJECT_def RASQAL_TRIPLE_PREDICATE_def RASQAL_TRIPLE_OBJECT_def
      RASQAL_TRIPLE_ORIGIN_def)

lemma example_triple_matches:
  "hash_matches E (effective (triple_pattern list_rasqal (\<lambda>_. None) example_triple)) example_statement"
  by (simp add: triple_pattern_def position_term_def example_triple_def example_variable_def source_pattern_def
      effective_def Statement_default_def hash_matches_def field_match_def)

text \<open>
  Asking for a triple. The engine's test for a triple answers whether the store holds a statement
  whose hashes agree with it; the graph counts only when the triple says it has one.
\<close>

theorem triple_present_result:
  assumes "store E A" and "wf_statements E A db" and "ConvertValue Q (Some (rt_object t)) = Inr v"
    and "rt_flags t AND RASQAL_TRIPLE_ORIGIN \<noteq> 0 \<longrightarrow> rt_origin t \<noteq> None"
  shows "triple_present Q (LevelDBTripleSource flag E db) t = exec_return
    (\<exists>u \<in> stored E A db. hash_matches E (effective (source_pattern (Some (ConvertResource (rt_subject t)))
      (Some (ConvertURI (rt_predicate t))) (Some v)
      (if rt_flags t AND RASQAL_TRIPLE_ORIGIN \<noteq> 0 then map_option ConvertResource (rt_origin t) else None))) u)"
  using HasStatement_run [OF assms(1,2)] assms(3,4)
  by (auto simp: triple_present_def LevelDBTripleSource_def split: option.split)

definition example_constant :: "string \<Rightarrow> unit rasqal_literal" where
  "example_constant u = (example_variable '''')\<lparr>rl_type := RL_URI, rl_uri := u, rl_variable := None\<rparr>"

theorem triple_present_result_witness:
  "triple_present list_rasqal (LevelDBTripleSource False (list_environment True) empty_store)
     \<lparr>rt_subject = example_constant ''http://s'', rt_predicate = example_constant ''http://p'',
      rt_object = example_constant ''http://o'', rt_origin = None, rt_flags = 7\<rparr> = exec_return False"
  using triple_present_result [OF list_store.store_axioms [of True] empty_store_wf(1), where Q = list_rasqal and flag = False and
      t = "\<lparr>rt_subject = example_constant ''http://s'', rt_predicate = example_constant ''http://p'',
      rt_object = example_constant ''http://o'', rt_origin = None, rt_flags = 7\<rparr>"]
  by (simp add: ConvertValue_def example_constant_def example_variable_def RASQAL_TRIPLE_ORIGIN_def)

text \<open>
  C37: a variable that occurs twice in a pattern. The callback does not compare the fields of the
  statement: for every current statement it reports both positions as bound, and the variable has
  the value of the later one.
\<close>

theorem bind_match_repeated_variable:
  assumes "triple_source T ok remaining C hit" and "ok it" and "remaining it = u # us"
    and "bindings = [Some x, b, Some x, c]"
  shows "\<exists>it' vals'. bind_match Q (ts_iterator T) bindings 5 it vals = Inr (it', vals', 5) \<and>
    vals' x = AsLiteral_Value Q (getObject u)"
proof -
  have "parts_bound 5 bindings"
    by (simp add: parts_bound_def assms(4) RASQAL_TRIPLE_SUBJECT_def RASQAL_TRIPLE_PREDICATE_def
        RASQAL_TRIPLE_OBJECT_def RASQAL_TRIPLE_ORIGIN_def)
  from source_iterator.bind_match_current [OF triple_source.axioms(1) [OF assms(1)] assms(2,3) this, of Q vals]
  show ?thesis
    by (auto simp: bound_match_def bound_part_def assms(4) RASQAL_TRIPLE_SUBJECT_def RASQAL_TRIPLE_PREDICATE_def
        RASQAL_TRIPLE_OBJECT_def RASQAL_TRIPLE_ORIGIN_def)
qed

theorem bind_match_repeated_variable_witness:
  "\<exists>it' vals'. bind_match list_rasqal (WrapProtoStatementIterator_class (list_environment True))
      [Some ''x'', None, Some ''x'', None] 5
      (Source_GetStatements False (list_environment True) (one_statement_store True example_statement) None None None None)
      (\<lambda>_. None) = Inr (it', vals', 5) \<and>
    vals' ''x'' = AsLiteral_Value list_rasqal (getObject example_statement)"
proof -
  let ?E = "list_environment True" and ?db = "one_statement_store True example_statement"
  let ?it = "Source_GetStatements False ?E ?db None None None None"
  have c: "consistent_store ?E list_view ?db"
    using list_store.store_axioms by (simp add: consistent_store_def consistent_store_axioms_def)
  have "hash_matches ?E (effective (source_pattern None None None None)) example_statement"
    by (simp add: source_pattern_def effective_def Statement_default_def hash_matches_def field_match_def)
  then have "set (query_result ?E list_view ?db (source_pattern None None None None)) = {example_statement}"
    using list_store.query_result_set(1) [of True ?db "source_pattern None None None None"] by auto
  then have "query_result ?E list_view ?db (source_pattern None None None None) = [example_statement]"
    using list_store.query_result_set(2) [of True ?db "source_pattern None None None None"]
    by (intro distinct_set_singleton) simp_all
  then have it: "wrap_usable ?E list_view ?it" "wrap_remaining ?E list_view ?it = [example_statement]"
    by (simp_all add: list_store.source_remaining seen_first_if)
  show ?thesis
    using bind_match_repeated_variable [OF consistent_store.source_contract [OF c] it, of _ "''x''" None None list_rasqal "\<lambda>_. None"]
    by (simp add: LevelDBTripleSource_def)
qed

subsection \<open>The results of a tuple query\<close>

text \<open>The engine's result object stands for the rows still to come.\<close>

locale rasqal_results =
  fixes G :: "('q, 'r, 'x) rasqal_engine" and rows :: "'r \<Rightarrow> (string \<times> 'x rasqal_literal option) list list"
  assumes finished: "rasqal_query_results_finished G r \<longleftrightarrow> rows r = []"
    and current: "rows r = b # bs \<Longrightarrow> rasqal_query_results_bindings G r = b"
    and next_row: "rows r = b # bs \<Longrightarrow> rows (rasqal_query_results_next G r) = bs"

definition row_converts :: "'x rasqal \<Rightarrow> (string \<times> 'x rasqal_literal option) list \<Rightarrow> bool" where
  "row_converts Q b \<longleftrightarrow> (\<forall>(name, v) \<in> set b. \<exists>x. ConvertValue Q v = Inr x)"

definition converted_row :: "'x rasqal \<Rightarrow> (string \<times> 'x rasqal_literal option) list \<Rightarrow> RowType" where
  "converted_row Q b = foldl (\<lambda>m (k, v). std_map_put k v m) [] (map (\<lambda>(name, v). (name, projr (ConvertValue Q v))) b)"

lemma result_row_foldl:
  "row_converts Q b \<Longrightarrow>
     result_row Q b m = Inr (foldl (\<lambda>m (k, v). std_map_put k v m) m (map (\<lambda>(name, v). (name, projr (ConvertValue Q v))) b))"
proof (induction b arbitrary: m)
  case (Cons e b)
  obtain name v where e: "e = (name, v)" by (cases e)
  then obtain x where "ConvertValue Q v = Inr x" using Cons.prems by (auto simp: row_converts_def)
  then show ?case using Cons by (simp add: e row_converts_def)
qed simp

lemma result_row_converted: "row_converts Q b \<Longrightarrow> result_row Q b [] = Inr (converted_row Q b)"
  by (simp add: result_row_foldl converted_row_def)

lemma result_row_unbound:
  "(name, None) \<in> set b \<Longrightarrow> (\<forall>(n, v) \<in> set b. v \<noteq> None \<longrightarrow> (\<exists>x. ConvertValue Q v = Inr x)) \<Longrightarrow>
     result_row Q b m = Inl Undefined"
proof (induction b arbitrary: m)
  case (Cons e b)
  obtain n v where e: "e = (n, v)" by (cases e)
  show ?case
  proof (cases v)
    case None
    then show ?thesis by (simp add: e ConvertValue_def)
  next
    case (Some l)
    then obtain x where "ConvertValue Q v = Inr x" using Cons.prems(2) by (auto simp: e)
    then show ?thesis using Cons Some by (simp add: e)
  qed
qed simp

context rasqal_results
begin

lemma TupleQuery_loop_rows:
  assumes "\<forall>b \<in> set (rows r). row_converts Q b"
  shows "TupleQuery_loop Q G handler nxt r s =
    exec_return (if nxt then callback_foldl handler s (map (converted_row Q) (rows r)) else s)"
  using assms
proof (induction "rows r" arbitrary: r s nxt)
  case Nil
  then show ?case by (subst TupleQuery_loop.simps) (simp add: finished exec_return_def)
next
  case (Cons b bs)
  have row: "result_row Q (rasqal_query_results_bindings G r) [] = Inr (converted_row Q b)"
    using Cons.prems Cons.hyps(2) [symmetric] current [of r b bs] by (simp add: result_row_converted)
  have nxt_rows: "rows (rasqal_query_results_next G r) = bs" using next_row Cons.hyps(2) [symmetric] by simp
  then have IH: "TupleQuery_loop Q G handler c (rasqal_query_results_next G r) s' =
      exec_return (if c then callback_foldl handler s' (map (converted_row Q) bs) else s')" for c s'
    using Cons.hyps(1) [OF nxt_rows [symmetric]] Cons.prems Cons.hyps(2) [symmetric] by simp
  show ?case
    by (subst TupleQuery_loop.simps) (simp add: finished row IH exec_return_def [of s] flip: Cons.hyps(2))
qed

end

lemma Service_TupleQuery_run:
  assumes "rasqal_results G rows" and "rasqal_query_prepare G (c_str query) = Some q"
    and "rasqal_query_execute G q = Some r" and "\<forall>b \<in> set (rows r). row_converts Q b \<and> distinct (map fst b)"
  shows "\<exists>responses. Service_TupleQuery Q G query Write w =
      exec_return (Status_OK, foldl (\<lambda>w m. snd (Write w m)) w responses) \<and>
    list_all2 (\<lambda>b m. sorted_wrt (<) (map fst m) \<and>
      map_of m = map_of (map (\<lambda>(name, v). (name, val_internal (projr (ConvertValue Q v)))) b)) (rows r) responses"
proof -
  let ?message = "map (\<lambda>(variable, v). (variable, val_internal v)) :: RowType \<Rightarrow> SparqlResponse"
  have handler: "callback_foldl (\<lambda>w row. (True, snd (Write w (?message row)))) w xs =
      foldl (\<lambda>w m. snd (Write w m)) w (map ?message xs)" for w xs
    by (induction xs arbitrary: w) simp_all
  have "sorted_wrt (<) (map fst (?message (converted_row Q b))) \<and>
      map_of (?message (converted_row Q b)) = map_of (map (\<lambda>(name, v). (name, val_internal (projr (ConvertValue Q v)))) b)"
    if "distinct (map fst b)" for b
  proof -
    let ?kvs = "map (\<lambda>(name, v). (name, projr (ConvertValue Q v))) b"
    have keys: "map fst ?kvs = map fst b" "map fst (?message m) = map fst m" for m by auto
    have rev: "map_of (rev ?kvs) = map_of ?kvs"
      by (rule map_of_rev_distinct) (simp only: keys(1) that)
    have row: "std_map_wf (converted_row Q b)" "map_of (converted_row Q b) = map_of ?kvs"
      unfolding converted_row_def using std_map_foldl [of "[]" ?kvs] rev by simp_all
    have "map_of (?message (converted_row Q b)) = map_of (map (\<lambda>(name, v). (name, val_internal (projr (ConvertValue Q v)))) b)"
      by (simp add: map_of_map row(2) fun_eq_iff option.map_comp comp_def)
    then show ?thesis using row(1) by (simp only: keys(2) simp_thms)
  qed
  then have "list_all2 (\<lambda>b m. sorted_wrt (<) (map fst m) \<and>
      map_of m = map_of (map (\<lambda>(name, v). (name, val_internal (projr (ConvertValue Q v)))) b))
      (rows r) (map ?message (map (converted_row Q) (rows r)))"
    using assms(4) by (auto simp: list_all2_conv_all_nth)
  then show ?thesis
    using assms(2-4) rasqal_results.TupleQuery_loop_rows [OF assms(1), of r Q _ True w]
    by (intro exI [of _ "map ?message (map (converted_row Q) (rows r))"])
      (simp add: Service_TupleQuery_def TupleQuery_def handler)
qed

text \<open>
  C22: answering a tuple query. When the engine accepts the query and every binding of its rows
  converts, the handler answers \<open>OK\<close> after writing one message per row, in order; the message of a
  row with distinct variables has one binding for each, sorted by name, with the converted value.
\<close>

theorem Service_TupleQuery_result:
  assumes "rasqal_results G rows" and "rasqal_query_prepare G (c_str query) = Some q"
    and "rasqal_query_execute G q = Some r" and "\<forall>b \<in> set (rows r). row_converts Q b \<and> distinct (map fst b)"
  shows "\<exists>responses. Service_TupleQuery Q G query Write w =
      exec_return (Status_OK, foldl (\<lambda>w m. snd (Write w m)) w responses) \<and>
    list_all2 (\<lambda>b m. sorted_wrt (<) (map fst m) \<and>
      map_of m = map_of (map (\<lambda>(name, v). (name, val_internal (projr (ConvertValue Q v)))) b)) (rows r) responses"
  by (rule Service_TupleQuery_run [OF assms])

text \<open>An engine with given results, which refuses the empty query.\<close>

definition scripted_engine ::
  "(string \<times> 'x rasqal_literal option) list list \<Rightarrow>
   (string, (string \<times> 'x rasqal_literal option) list list, 'x) rasqal_engine" where
  "scripted_engine rows =
     \<lparr>rasqal_query_prepare = (\<lambda>query. if query = '''' then None else Some query),
      rasqal_query_execute = (\<lambda>q. Some rows),
      rasqal_query_results_finished = (\<lambda>r. r = []),
      rasqal_query_results_next = tl,
      rasqal_query_results_bindings = (\<lambda>r. case r of [] \<Rightarrow> [] | b # bs \<Rightarrow> b)\<rparr>"

interpretation scripted_results: rasqal_results "scripted_engine rows" "\<lambda>r. r" for rows
  by unfold_locales (simp_all add: scripted_engine_def)

theorem Service_TupleQuery_result_witness:
  "\<exists>w. Service_TupleQuery list_rasqal (scripted_engine [[(''x'', Some (example_constant ''http://a''))]]) ''SELECT''
      (\<lambda>w m. (True, w @ [m])) [] = exec_return (Status_OK, w)"
  using Service_TupleQuery_result [OF scripted_results.rasqal_results_axioms
        [of "[[(''x'', Some (example_constant ''http://a''))]]"],
      where query = "''SELECT''" and q = "''SELECT''" and
        r = "[[(''x'', Some (example_constant ''http://a''))]]" and Q = list_rasqal and
        Write = "\<lambda>w m. (True, w @ [m])" and w = "[]"]
  by (auto simp: scripted_engine_def row_converts_def ConvertValue_def example_constant_def example_variable_def)

text \<open>
  The failures of a tuple query. A query that the engine refuses to prepare or to execute ends
  the handler with an exception that carries the query; a row with an unbound variable dereferences
  a null pointer.
\<close>

theorem Service_TupleQuery_failures:
  "(rasqal_query_prepare G (c_str query) = None \<longrightarrow>
      Service_TupleQuery Q G query Write w = exec_throw (SparqlException ''Query preparation failed'' query)) \<and>
   (rasqal_query_prepare G (c_str query) = Some q \<and> rasqal_query_execute G q = None \<longrightarrow>
      Service_TupleQuery Q G query Write w = exec_throw (SparqlException ''Query execution failed'' query)) \<and>
   (rasqal_query_prepare G (c_str query) = Some q \<and> rasqal_query_execute G q = Some r \<and>
      \<not> rasqal_query_results_finished G r \<and> (name, None) \<in> set (rasqal_query_results_bindings G r) \<and>
      (\<forall>(n, v) \<in> set (rasqal_query_results_bindings G r). v \<noteq> None \<longrightarrow> (\<exists>x. ConvertValue Q v = Inr x)) \<longrightarrow>
      Service_TupleQuery Q G query Write w = exec_throw Undefined)"
  using result_row_unbound [of name "rasqal_query_results_bindings G r" Q "[]"]
  by (auto simp: Service_TupleQuery_def TupleQuery_def TupleQuery_loop.simps [of Q G _ True r] exec_throw_def)

theorem Service_TupleQuery_failures_witness:
  "Service_TupleQuery list_rasqal (scripted_engine [[(''x'', None)]]) ''SELECT'' (\<lambda>w m. (True, w @ [m])) [] =
     exec_throw Undefined"
  using Service_TupleQuery_failures [of "scripted_engine [[(''x'', None)]]" "''SELECT''" list_rasqal
      "\<lambda>w m. (True, w @ [m])" "[]" "''SELECT''" "[[(''x'', None)]]" "''x''"]
  by (simp add: scripted_engine_def)

end
