(* ===== verification/Client.thy ===== *)
theory Client
  imports Sharded_Store Serializer Sparql
begin

text \<open>
  \<open>client/client.cc\<close>: the iterator over a response stream and the operations of the command line
  client, over the stub of a server.

  The state is that of the server together with what has been written to the console. The two
  request streams of an import are delivered when they are finished, the namespaces first. The
  messages of failed calls and the text format of a row are parameters.
\<close>

subsection \<open>Response streams\<close>

record 'm ClientReaderIterator =
  cr_reader :: "'m list"
  cr_buffer :: 'm
  cr_current :: 'm
  cr_finished :: bool

definition ClientReaderIterator_inc :: "'m ClientReaderIterator \<Rightarrow> 'm ClientReaderIterator" where
  "ClientReaderIterator_inc it =
     (if \<not> cr_finished it then
        (let it = (case Read (cr_reader it) of
                     None \<Rightarrow> it\<lparr>cr_finished := True\<rparr>
                   | Some (m, r) \<Rightarrow> it\<lparr>cr_reader := r, cr_buffer := m, cr_finished := False\<rparr>)
         in it\<lparr>cr_current := cr_buffer it\<rparr>)
      else it)"

definition ClientReaderIterator_default :: "'m \<Rightarrow> 'm ClientReaderIterator" where
  "ClientReaderIterator_default unset =
     \<lparr>cr_reader = [], cr_buffer = unset, cr_current = unset, cr_finished = True\<rparr>"

definition ClientReaderIterator_new :: "'m \<Rightarrow> 'm list \<Rightarrow> 'm ClientReaderIterator" where
  "ClientReaderIterator_new unset r =
     ClientReaderIterator_inc \<lparr>cr_reader = r, cr_buffer = unset, cr_current = unset, cr_finished = False\<rparr>"

definition ClientReaderIterator_class :: "('m ClientReaderIterator, 'm) CloseableIterator" where
  "ClientReaderIterator_class =
     \<lparr>it_inc = ClientReaderIterator_inc,
      it_deref = (\<lambda>it. Inr (cr_current it, it)),
      it_hasNext = (\<lambda>it. \<not> cr_finished it)\<rparr>"

definition client_remaining :: "'m ClientReaderIterator \<Rightarrow> 'm list" where
  "client_remaining it = (if cr_finished it then [] else cr_current it # cr_reader it)"

interpretation client_reader: closeable_iterator ClientReaderIterator_class "\<lambda>_. True" client_remaining
  by unfold_locales
    (auto simp: ClientReaderIterator_class_def client_remaining_def ClientReaderIterator_inc_def Let_def
      split: if_splits option.split elim: Read.elims)

lemma client_remaining_new [simp]: "client_remaining (ClientReaderIterator_new d r) = r"
  by (cases r) (simp_all add: ClientReaderIterator_new_def ClientReaderIterator_inc_def client_remaining_def)

subsection \<open>The operations\<close>

record console =
  cout :: string
  cerr :: string

definition endl :: string where
  "endl = [CHR 0x0A]"

definition base_uri :: proto_URI where
  "base_uri = URI_new ''http://www.example.com''"

definition importDataset ::
  "'p raptor_parsing \<Rightarrow> (string \<Rightarrow> string option) \<Rightarrow> 'b SailStub \<Rightarrow> (Status \<Rightarrow> string) \<Rightarrow> istream \<Rightarrow> parser_Format \<Rightarrow>
   'b \<times> console \<Rightarrow> ('b \<times> console) exec" where
  "importDataset R new_uri stub error_message i format state =
     (case Parser_new R new_uri base_uri format of
        Inl e \<Rightarrow> exec_throw e
      | Inr p \<Rightarrow>
          (let p = setStatementHandler p (\<lambda>(nss, stmts) stmt. (nss, stmts @ [stmt]));
               p = setNamespaceHandler p (\<lambda>(nss, stmts) ns. (nss @ [ns], stmts))
           in case Parser_parse R i (p, ([], [])) of
                Inl e \<Rightarrow> exec_throw e
              | Inr (p, (nss, stmts)) \<Rightarrow>
                  (let (b, con) = state;
                       ((nsst, nsstats), b) = stub_AddNamespaces stub nss b;
                       ((stmtst, stmtstats), b) = stub_AddStatements stub stmts b
                   in exec_return (b, con\<lparr>cout := cout con @
                        (if Status_ok nsst \<and> Status_ok stmtst then
                           ''Added '' @ to_string nsstats @ '' namespaces and '' @ to_string stmtstats @ '' statements'' @ endl
                         else ''Failed writing data to server: '' @ error_message stmtst @ endl)\<rparr>))))"

text \<open>
  \<open>patternQuery\<close> calls the overload of \<open>Serializer::serialize\<close> that takes an iterator; see the remark at \<open>Serializer_serialize_iterator\<close>.
\<close>

definition patternQuery ::
  "'s raptor_serializing \<Rightarrow> statements_codec \<Rightarrow> 'b SailStub \<Rightarrow> proto_Statement \<Rightarrow> serializer_Format \<Rightarrow> 'b \<Rightarrow>
   's Serializer exec" where
  "patternQuery R K stub pattern format b =
     Serializer_serialize_iterator R K ClientReaderIterator_class
       (ClientReaderIterator_new Statement_default (stub_GetStatements stub pattern b))
       (Serializer_new_plain R base_uri format)"

definition patternDelete ::
  "'b SailStub \<Rightarrow> (Status \<Rightarrow> string) \<Rightarrow> proto_Statement \<Rightarrow> 'b \<times> console \<Rightarrow> 'b \<times> console" where
  "patternDelete stub error_message pattern state =
     (let (b, con) = state;
          ((status, result), b) = stub_RemoveStatements stub pattern b
      in if Status_ok status
         then (b, con\<lparr>cout := cout con @ ''Deleted '' @ to_string result @ '' statements.'' @ endl\<rparr>)
         else (b, con\<lparr>cerr := cerr con @ ''Failed deleting statements: '' @ error_message status @ endl\<rparr>))"

fun tupleQuery_loop :: "(SparqlResponse \<Rightarrow> string) \<Rightarrow> SparqlResponse list \<Rightarrow> string \<Rightarrow> string" where
  "tupleQuery_loop Print [] out = out"
| "tupleQuery_loop Print (result # reader) out = tupleQuery_loop Print reader (out @ Print result)"

definition tupleQuery ::
  "(string \<Rightarrow> 'b \<Rightarrow> SparqlResponse list) \<Rightarrow> (SparqlResponse \<Rightarrow> string) \<Rightarrow> string \<Rightarrow> 'b \<Rightarrow> string \<Rightarrow> string" where
  "tupleQuery stub_TupleQuery Print query b out = tupleQuery_loop Print (stub_TupleQuery query b) out"

definition listNamespaces :: "'b SailStub \<Rightarrow> 'b \<Rightarrow> string \<Rightarrow> string exec" where
  "listNamespaces stub b out =
     for_each ClientReaderIterator_class
       (\<lambda>out ns. exec_return (out @ ns_prefix ns @ '' = '' @ ns_uri ns @ endl))
       (ClientReaderIterator_new Namespace_default (snd (stub_GetNamespaces stub b))) out"

definition client_size :: "'b SailStub \<Rightarrow> proto_Resource list \<Rightarrow> 'b \<Rightarrow> int \<times> 'b" where
  "client_size stub r b =
     (let ((status, result), b) = stub_Size stub r b in (if Status_ok status then result else - 1, b))"

subsection \<open>The client in front of a store\<close>

context reliable_store
begin

lemma stub_add_namespaces:
  assumes "wf_namespaces E A p" and "wf_statements E A p" and "\<forall>n \<in> set nss. ns_ok A n"
  shows "\<exists>p'. stub_AddNamespaces (leveldb_stub E std_hash iteration_order) nss p = ((Status_OK, int (length nss)), p') \<and>
    wf_namespaces E A p' \<and> wf_statements E A p' \<and> stored E A p' = stored E A p \<and>
    ns_lookup E A (db_ns_prefix p') = foldl (\<lambda>m n. m(ns_prefix n \<mapsto> n)) (ns_lookup E A (db_ns_prefix p)) nss"
proof -
  have "writes_ok E ws p" for ws using writes_succeed by (auto simp: writes_ok_def)
  then obtain p' where "AddNamespaces E ReaderIterator_class (ReaderIterator_new Namespace_default nss) p = exec_return (int (length nss), p')"
    "wf_namespaces E A p'" "wf_statements E A p'" "stored E A p' = stored E A p"
    "ns_lookup E A (db_ns_prefix p') = foldl (\<lambda>m n. m(ns_prefix n \<mapsto> n)) (ns_lookup E A (db_ns_prefix p)) nss"
    using AddNamespaces_result [OF store_axioms reader_iterator.closeable_iterator_axioms TrueI assms(1),
        of "ReaderIterator_new Namespace_default nss"] assms(2,3) by auto
  then show ?thesis by (simp add: leveldb_stub_def Service_AddNamespaces_def)
qed

text \<open>Adding statements leaves the namespaces alone.\<close>

lemma stub_add_keeps_namespaces:
  assumes "wf_statements E A p" and "\<forall>s \<in> set ss. stmt_ok A s"
  shows "\<exists>p'. stub_AddStatements (leveldb_stub E std_hash iteration_order) ss p = ((Status_OK, int (length ss)), p') \<and>
    wf_statements E A p' \<and> stored E A p' = foldl (apply_stmt_op E) (stored E A p) (map Op_Add ss) \<and>
    db_ns_prefix p' = db_ns_prefix p"
proof -
  have ops: "\<forall>op \<in> set (map Op_Add ss). stmt_ok A (op_stmt op)" using assms(2) by auto
  have "writes_ok E (statement_writers (batches_of E (map Op_Add ss))) p"
    using writes_succeed by (auto simp: writes_ok_def)
  then obtain p' where "run_writers E (statement_writers (batches_of E (map Op_Add ss))) p = exec_return p'"
    "wf_statements E A p'" "stored E A p' = foldl (apply_stmt_op E) (stored E A p) (map Op_Add ss)"
    "db_ns_prefix p' = db_ns_prefix p"
    using run_statement_writers [OF assms(1) ops] by auto
  then show ?thesis by (simp add: leveldb_stub_def Service_AddStatements_run)
qed

lemma import_result:
  assumes "wf_namespaces E A p" and "wf_statements E A p"
    and "\<forall>n \<in> set nss. ns_ok A n" and "\<forall>s \<in> set ss. stmt_ok A s"
  shows "\<exists>p1 p2. stub_AddNamespaces (leveldb_stub E std_hash iteration_order) nss p = ((Status_OK, int (length nss)), p1) \<and>
    stub_AddStatements (leveldb_stub E std_hash iteration_order) ss p1 = ((Status_OK, int (length ss)), p2) \<and>
    wf_statements E A p2 \<and> stored E A p2 = foldl (apply_stmt_op E) (stored E A p) (map Op_Add ss) \<and>
    ns_lookup E A (db_ns_prefix p2) = foldl (\<lambda>m n. m(ns_prefix n \<mapsto> n)) (ns_lookup E A (db_ns_prefix p)) nss"
proof -
  obtain p1 where p1: "stub_AddNamespaces (leveldb_stub E std_hash iteration_order) nss p = ((Status_OK, int (length nss)), p1)"
    "wf_statements E A p1" "stored E A p1 = stored E A p"
    "ns_lookup E A (db_ns_prefix p1) = foldl (\<lambda>m n. m(ns_prefix n \<mapsto> n)) (ns_lookup E A (db_ns_prefix p)) nss"
    using stub_add_namespaces [OF assms(1-3)] by blast
  then show ?thesis using stub_add_keeps_namespaces [OF p1(2) assms(4)] by auto
qed

end

lemma importDataset_run:
  assumes "store E A" and "\<forall>db b. db_Write E db b \<noteq> None" and "wf_namespaces E A p" and "wf_statements E A p"
    and "Parser_new R new_uri base_uri format = Inr q"
    and "Parser_parse R i
      (setNamespaceHandler (setStatementHandler q (\<lambda>(nss, ss) s. (nss, ss @ [s]))) (\<lambda>(nss, ss) n. (nss @ [n], ss)), ([], [])) =
      Inr (q', (nss, ss))"
    and "\<forall>n \<in> set nss. ns_ok A n" and "\<forall>s \<in> set ss. stmt_ok A s"
  shows "\<exists>p'. importDataset R new_uri (leveldb_stub E std_hash order) error_message i format (p, con) =
      exec_return (p', con\<lparr>cout := cout con @ ''Added '' @ to_string (int (length nss)) @ '' namespaces and '' @
        to_string (int (length ss)) @ '' statements'' @ endl\<rparr>) \<and>
    wf_statements E A p' \<and> stored E A p' = foldl (apply_stmt_op E) (stored E A p) (map Op_Add ss) \<and>
    ns_lookup E A (db_ns_prefix p') = foldl (\<lambda>m n. m(ns_prefix n \<mapsto> n)) (ns_lookup E A (db_ns_prefix p)) nss"
proof -
  obtain p1 p2 where "stub_AddNamespaces (leveldb_stub E std_hash order) nss p = ((Status_OK, int (length nss)), p1)"
    "stub_AddStatements (leveldb_stub E std_hash order) ss p1 = ((Status_OK, int (length ss)), p2)"
    and p2: "wf_statements E A p2" "stored E A p2 = foldl (apply_stmt_op E) (stored E A p) (map Op_Add ss)"
    "ns_lookup E A (db_ns_prefix p2) = foldl (\<lambda>m n. m(ns_prefix n \<mapsto> n)) (ns_lookup E A (db_ns_prefix p)) nss"
    using reliable_store.import_result [OF reliableI [OF assms(1,2)] assms(3,4,7,8),
        where std_hash = std_hash and iteration_order = order] by blast
  then have "importDataset R new_uri (leveldb_stub E std_hash order) error_message i format (p, con) =
      exec_return (p2, con\<lparr>cout := cout con @ ''Added '' @ to_string (int (length nss)) @ '' namespaces and '' @
        to_string (int (length ss)) @ '' statements'' @ endl\<rparr>)"
    using assms(5,6) by (simp add: importDataset_def)
  with p2 show ?thesis by blast
qed

text \<open>
  Importing a file. When the parser, collecting what it is told, ends with the namespaces and
  the statements of the file, and the disk does not fail, the import stores all of them, in order,
  keeps the store consistent and reports their numbers.
\<close>

theorem importDataset_stores:
  assumes "store E A" and "\<forall>db b. db_Write E db b \<noteq> None" and "wf_namespaces E A p" and "wf_statements E A p"
    and "Parser_new R new_uri base_uri format = Inr q"
    and "Parser_parse R i
      (setNamespaceHandler (setStatementHandler q (\<lambda>(nss, ss) s. (nss, ss @ [s]))) (\<lambda>(nss, ss) n. (nss @ [n], ss)), ([], [])) =
      Inr (q', (nss, ss))"
    and "\<forall>n \<in> set nss. ns_ok A n" and "\<forall>s \<in> set ss. stmt_ok A s"
  shows "\<exists>p'. importDataset R new_uri (leveldb_stub E std_hash order) error_message i format (p, con) =
      exec_return (p', con\<lparr>cout := cout con @ ''Added '' @ to_string (int (length nss)) @ '' namespaces and '' @
        to_string (int (length ss)) @ '' statements'' @ endl\<rparr>) \<and>
    wf_statements E A p' \<and> stored E A p' = foldl (apply_stmt_op E) (stored E A p) (map Op_Add ss) \<and>
    ns_lookup E A (db_ns_prefix p') = foldl (\<lambda>m n. m(ns_prefix n \<mapsto> n)) (ns_lookup E A (db_ns_prefix p)) nss"
  using assms by (rule importDataset_run)

text \<open>Examples: what a parser reports for a small file, and the statement it contains.\<close>

definition example_events :: "raptor_event list" where
  "example_events =
     [EV_NAMESPACE (Some ''a'') ''http://a'',
      EV_STATEMENT \<lparr>rs_subject = Some (TERM_URI ''http://a/s''), rs_predicate = Some (TERM_URI ''http://a/p''),
        rs_object = Some (TERM_LITERAL ''o'' None None), rs_graph = None\<rparr>]"

definition example_imported :: proto_Statement where
  "example_imported =
     \<lparr>st_subject = Some (R_URI \<lparr>uri_uri = ''http://a/s''\<rparr>), st_predicate = Some \<lparr>uri_uri = ''http://a/p''\<rparr>,
      st_object = Some (V_LITERAL (L_STRING \<lparr>sl_content = ''o'', sl_language = ''''\<rparr>)),
      st_context = Some (R_URI URI_default)\<rparr>"

lemma example_parse:
  "Parser_parse (scripted_parsing example_events) (istream_open [])
     (\<lparr>prs_parser = example_events, prs_base = b, prs_stmt_handler = (\<lambda>(nss, ss) s. (nss, ss @ [s])),
       prs_ns_handler = (\<lambda>(nss, ss) n. (nss @ [n], ss))\<rparr>, ([], [])) =
   Inr (\<lparr>prs_parser = [], prs_base = b, prs_stmt_handler = (\<lambda>(nss, ss) s. (nss, ss @ [s])),
       prs_ns_handler = (\<lambda>(nss, ss) n. (nss @ [n], ss))\<rparr>,
     ([\<lparr>ns_prefix = ''a'', ns_uri = ''http://a''\<rparr>], [example_imported]))"
proof -
  have handled: "raptor_stmt_handler p st \<lparr>rs_subject = Some (TERM_URI ''http://a/s''), rs_predicate = Some (TERM_URI ''http://a/p''),
      rs_object = Some (TERM_LITERAL ''o'' None None), rs_graph = None\<rparr> = Inr (prs_stmt_handler p st example_imported)" for p st
    unfolding example_imported_def by (rule raptor_stmt_handler_complete) simp_all
  show ?thesis
    by (simp add: handled Parser_parse_def parse_loop.simps istream_read_def istream_open_def feed_chunk_def scripted_parsing_def
        example_events_def raptor_ns_handler_def Namespace_from_c_def Namespace_default_def)
qed

theorem importDataset_stores_witness:
  "\<exists>p'. importDataset (scripted_parsing example_events) Some (leveldb_stub (list_environment True) (\<lambda>_. 0) rev) (\<lambda>_. '''')
      (istream_open []) PF_TURTLE (empty_store, \<lparr>cout = '''', cerr = ''''\<rparr>) =
      exec_return (p', \<lparr>cout = ''Added 1 namespaces and 1 statements'' @ endl, cerr = ''''\<rparr>) \<and>
    stored (list_environment True) list_view p' = {example_imported}"
proof -
  have writes: "\<forall>db b. db_Write (list_environment True) db b \<noteq> None" by (simp add: list_environment_def)
  have new: "Parser_new (scripted_parsing example_events) Some base_uri PF_TURTLE =
      Inr \<lparr>prs_parser = example_events, prs_base = Some (c_str (uri_uri base_uri)),
        prs_stmt_handler = (\<lambda>s stmt. s), prs_ns_handler = (\<lambda>s ns. s)\<rparr>"
    by (simp add: Parser_new_def scripted_parsing_def)
  have one: "to_string 1 = ''1''" by (simp add: to_string_def nat_digits.simps digit_char_def) code_simp
  show ?thesis
    using importDataset_stores [OF list_store.store_axioms [of True] writes empty_store_namespaces(1) empty_store_wf(1) new,
        where i = "istream_open []" and std_hash = "\<lambda>_. 0" and order = rev and error_message = "\<lambda>_. ''''" and
          con = "\<lparr>cout = '''', cerr = ''''\<rparr>"]
      example_parse [of "Some (c_str (uri_uri base_uri))"]
    by (auto simp: setNamespaceHandler_def setStatementHandler_def one)
qed

end
