(* ===== verification/Executables.thy ===== *)
theory Executables
  imports Client
begin

text \<open>
  The three programs: the persistence server (\<open>persistence/leveldb_server.cc\<close>), the sharding server
  (\<open>sharding/server.cc\<close>, with the constructor of \<open>ShardingService\<close>) and the command line client
  (\<open>main\<close> of \<open>client/client.cc\<close>).

  Flags are records with the defaults of the sources, parsed before; \<open>argv\<close> is what the flag parser
  leaves, starting with the name of the program. A server is what it listens on and the service
  behind it, and \<open>BuildAndStart\<close>, which answers a null pointer when the address cannot be used, is a
  parameter. Files are a map from names to contents. Signals
  are the subject of the theory \<open>Server_Process\<close>; logging is left out.
\<close>

subsection \<open>The persistence server\<close>

record leveldb_flags =
  ldf_host :: string
  ldf_port :: string
  ldf_db :: string

definition leveldb_flags_default :: leveldb_flags where
  "leveldb_flags_default = \<lparr>ldf_host = ''0.0.0.0'', ldf_port = ''10000'', ldf_db = ''/tmp/testdb''\<rparr>"

record 'svc server =
  srv_address :: string
  srv_service :: 'svc

text \<open>The state of the server while it waits; a null pointer is dereferenced by \<open>Wait\<close>.\<close>

definition leveldb_server_main ::
  "('db, 'it) environment \<Rightarrow> (string \<Rightarrow> bool) \<Rightarrow> leveldb_flags \<Rightarrow> 'db LevelDBPersistence server exec" where
  "leveldb_server_main E BuildAndStart flags =
     exec_bind (LevelDBPersistence_new E (ldf_db flags)) (\<lambda>persistence.
       let address = ldf_host flags @ '':'' @ ldf_port flags
       in if BuildAndStart address then exec_return \<lparr>srv_address = address, srv_service = persistence\<rparr>
          else exec_throw Undefined)"

subsection \<open>The sharding server\<close>

text \<open>
  A channel is identified with the server it leads to; the stub of a channel is then the record of
  the calls together with the state of that server.
\<close>

record 'b ShardingService =
  sh_backends :: "string list"
  sh_channels :: "'b list"

fun create_channels :: "(string \<Rightarrow> 'b) \<Rightarrow> string list \<Rightarrow> 'b list \<Rightarrow> 'b list" where
  "create_channels CreateChannel [] channels = channels"
| "create_channels CreateChannel (server # servers) channels =
     create_channels CreateChannel servers (channels @ [CreateChannel server])"

definition ShardingService_new :: "(string \<Rightarrow> 'b) \<Rightarrow> string list \<Rightarrow> 'b ShardingService" where
  "ShardingService_new CreateChannel backends =
     \<lparr>sh_backends = backends, sh_channels = create_channels CreateChannel backends []\<rparr>"

record sharding_flags =
  shf_host :: string
  shf_port :: string
  shf_backends :: string

definition sharding_flags_default :: sharding_flags where
  "sharding_flags_default = \<lparr>shf_host = ''0.0.0.0'', shf_port = ''10000'', shf_backends = ''''\<rparr>"

definition sharding_server_main ::
  "(string \<Rightarrow> 'b) \<Rightarrow> (string \<Rightarrow> bool) \<Rightarrow> sharding_flags \<Rightarrow> 'b ShardingService server exec" where
  "sharding_server_main CreateChannel BuildAndStart flags =
     (let service = ShardingService_new CreateChannel (split (shf_backends flags) (CHR '',''));
          address = shf_host flags @ '':'' @ shf_port flags
      in if BuildAndStart address then exec_return \<lparr>srv_address = address, srv_service = service\<rparr>
         else exec_throw Undefined)"

subsection \<open>The command line client\<close>

record client_flags =
  clf_format :: string
  clf_host :: string
  clf_port :: string
  clf_output :: string

definition client_flags_default :: client_flags where
  "client_flags_default = \<lparr>clf_format = ''rdfxml'', clf_host = ''localhost'', clf_port = ''10000'', clf_output = ''''\<rparr>"

text \<open>
  What the client calls: the libraries, the two stubs of the server, and the text format of Protocol
  Buffers. \<open>ce_ParseStatement\<close> and \<open>ce_ParseContexts\<close> give the message that \<open>ParseFromString\<close> leaves,
  whose result the code does not look at; \<open>ce_written\<close> is what Raptor has written to its stream.
\<close>

record ('p, 's, 'b) client_env =
  ce_parsing :: "'p raptor_parsing"
  ce_new_uri :: "string \<Rightarrow> string option"
  ce_serializing :: "'s raptor_serializing"
  ce_written :: "'s \<Rightarrow> bytes"
  ce_codec :: statements_codec
  ce_stub :: "string \<Rightarrow> 'b SailStub"
  ce_TupleQuery :: "string \<Rightarrow> string \<Rightarrow> 'b \<Rightarrow> SparqlResponse list"
  ce_Print :: "SparqlResponse \<Rightarrow> string"
  ce_error_message :: "Status \<Rightarrow> string"
  ce_ParseStatement :: "string \<Rightarrow> proto_Statement"
  ce_ParseContexts :: "string \<Rightarrow> proto_Resource list"

record 'b client_state =
  cl_server :: 'b
  cl_console :: console
  cl_files :: "string \<Rightarrow> bytes option"

definition print_line :: "string \<Rightarrow> 'b client_state \<Rightarrow> 'b client_state" where
  "print_line t st = st\<lparr>cl_console := (cl_console st)\<lparr>cout := cout (cl_console st) @ t @ endl\<rparr>\<rparr>"

text \<open>The element of \<open>argv\<close> as a string; at the end of \<open>argv\<close> is a null pointer.\<close>

definition argument :: "string list \<Rightarrow> nat \<Rightarrow> string exec" where
  "argument argv i = (if i < length argv then exec_return (argv ! i) else exec_throw Undefined)"

definition open_ifstream :: "(string \<Rightarrow> bytes option) \<Rightarrow> string \<Rightarrow> istream" where
  "open_ifstream files name =
     (case files name of
        None \<Rightarrow> \<lparr>in_data = [], in_fail = True, in_eof = False\<rparr>
      | Some content \<Rightarrow> istream_open content)"

text \<open>Output to the file named by the flag, or to the console.\<close>

definition with_output :: "client_flags \<Rightarrow> (string \<Rightarrow> string exec) \<Rightarrow> 'b client_state \<Rightarrow> 'b client_state exec" where
  "with_output flags print_to st =
     (if clf_output flags \<noteq> '''' then
        exec_bind (print_to '''') (\<lambda>out.
          exec_return (st\<lparr>cl_files := (cl_files st)(clf_output flags \<mapsto> bytes_of out)\<rparr>))
      else
        exec_bind (print_to (cout (cl_console st))) (\<lambda>out.
          exec_return (st\<lparr>cl_console := (cl_console st)\<lparr>cout := out\<rparr>\<rparr>)))"

definition chars_of :: "bytes \<Rightarrow> string" where
  "chars_of b = map (\<lambda>x. char_of (unat x)) b"

fun serializer_output :: "('s \<Rightarrow> bytes) \<Rightarrow> 's Serializer \<Rightarrow> string" where
  "serializer_output raptor_out (Impl_Proto p) = chars_of (ps_out p)"
| "serializer_output raptor_out (Impl_Raptor r) = chars_of (raptor_out (rap_serializer r))"

text \<open>One definition per command, and the sequence of comparisons with \<open>argv[1]\<close>.\<close>

definition run_import ::
  "('p, 's, 'b) client_env \<Rightarrow> client_flags \<Rightarrow> 'b SailStub \<Rightarrow> string list \<Rightarrow> 'b client_state \<Rightarrow> 'b client_state exec" where
  "run_import C flags stub argv st =
     exec_bind (argument argv 2) (\<lambda>file.
       let i = open_ifstream (cl_files st) file;
           st = print_line (''Importing '' @ file @ '' ... '') st
       in exec_bind
            (importDataset (ce_parsing C) (ce_new_uri C) stub (ce_error_message C) i
              (Parser_FormatFromString (clf_format flags)) (cl_server st, cl_console st))
            (\<lambda>(b, con). exec_return (print_line ''Finished!'' (st\<lparr>cl_server := b, cl_console := con\<rparr>))))"

definition run_select ::
  "('p, 's, 'b) client_env \<Rightarrow> client_flags \<Rightarrow> 'b SailStub \<Rightarrow> string list \<Rightarrow> 'b client_state \<Rightarrow> 'b client_state exec" where
  "run_select C flags stub argv st =
     exec_bind (argument argv 2) (\<lambda>pattern.
       let query = ce_ParseStatement C pattern
       in with_output flags
            (\<lambda>out. exec_bind
              (patternQuery (ce_serializing C) (ce_codec C) stub query
                (Serializer_FormatFromString (clf_format flags)) (cl_server st))
              (\<lambda>s. exec_return (out @ serializer_output (ce_written C) s))) st)"

definition run_sparql ::
  "('p, 's, 'b) client_env \<Rightarrow> client_flags \<Rightarrow> string list \<Rightarrow> 'b client_state \<Rightarrow> 'b client_state exec" where
  "run_sparql C flags argv st =
     exec_bind (argument argv 2) (\<lambda>query.
       with_output flags
         (\<lambda>out. exec_return (tupleQuery (ce_TupleQuery C (clf_host flags @ '':'' @ clf_port flags)) (ce_Print C) query
            (cl_server st) out)) st)"

definition run_delete ::
  "('p, 's, 'b) client_env \<Rightarrow> 'b SailStub \<Rightarrow> string list \<Rightarrow> 'b client_state \<Rightarrow> 'b client_state exec" where
  "run_delete C stub argv st =
     exec_bind (argument argv 2) (\<lambda>pattern.
       let query = ce_ParseStatement C pattern;
           (b, con) = patternDelete stub (ce_error_message C) query (cl_server st, cl_console st)
       in exec_return (st\<lparr>cl_server := b, cl_console := con\<rparr>))"

definition run_size ::
  "('p, 's, 'b) client_env \<Rightarrow> 'b SailStub \<Rightarrow> string list \<Rightarrow> 'b client_state \<Rightarrow> 'b client_state exec" where
  "run_size C stub argv st =
     exec_bind (argument argv 2) (\<lambda>contexts.
       let (n, b) = client_size stub (ce_ParseContexts C contexts) (cl_server st)
       in exec_return (print_line (''Size: '' @ to_string n) (st\<lparr>cl_server := b\<rparr>)))"

definition run_namespaces :: "client_flags \<Rightarrow> 'b SailStub \<Rightarrow> 'b client_state \<Rightarrow> 'b client_state exec" where
  "run_namespaces flags stub st = with_output flags (listNamespaces stub (cl_server st)) st"

definition client_main ::
  "('p, 's, 'b) client_env \<Rightarrow> client_flags \<Rightarrow> string list \<Rightarrow> 'b client_state \<Rightarrow> 'b client_state exec" where
  "client_main C flags argv st =
     (let stub = ce_stub C (clf_host flags @ '':'' @ clf_port flags)
      in exec_bind (argument argv 1) (\<lambda>command.
         exec_bind (if command = ''import'' then run_import C flags stub argv st else exec_return st) (\<lambda>st.
         exec_bind (if command = ''select'' then run_select C flags stub argv st else exec_return st) (\<lambda>st.
         exec_bind (if command = ''sparql'' then run_sparql C flags argv st else exec_return st) (\<lambda>st.
         exec_bind (if command = ''delete'' then run_delete C stub argv st else exec_return st) (\<lambda>st.
         exec_bind (if command = ''size'' then run_size C stub argv st else exec_return st) (\<lambda>st.
         if command = ''namespaces'' then run_namespaces flags stub st else exec_return st)))))))"

subsection \<open>Commands against a store\<close>

lemma argument_simps [simp]:
  "i < length argv \<Longrightarrow> argument argv i = exec_return (argv ! i)"
  "\<not> i < length argv \<Longrightarrow> argument argv i = exec_throw Undefined"
  by (simp_all add: argument_def)

lemma client_main_commands:
  assumes "1 < length argv" and "stub = ce_stub C (clf_host flags @ '':'' @ clf_port flags)"
  shows "argv ! 1 = ''import'' \<Longrightarrow> client_main C flags argv st = run_import C flags stub argv st"
    and "argv ! 1 = ''delete'' \<Longrightarrow> client_main C flags argv st = run_delete C stub argv st"
    and "argv ! 1 = ''size'' \<Longrightarrow> client_main C flags argv st = run_size C stub argv st"
  using assms by (simp_all add: client_main_def)


text \<open>The store of a server that has opened empty databases.\<close>

lemma leveldb_server_starts:
  assumes "leveldb_contract E A" and "\<forall>c f. \<exists>db. db_Open E c f = Some db \<and> entries_of A db = []"
    and "listen (ldf_host flags @ '':'' @ ldf_port flags)"
  shows "\<exists>p. leveldb_server_main E listen flags =
      exec_return \<lparr>srv_address = ldf_host flags @ '':'' @ ldf_port flags, srv_service = p\<rparr> \<and>
    wf_statements E A p \<and> stored E A p = {} \<and> wf_namespaces E A p \<and>
    entries_of A (db_ns_prefix p) = [] \<and> entries_of A (db_ns_url p) = []"
proof -
  obtain p where p: "LevelDBPersistence_new E (ldf_db flags) = exec_return p"
    "\<forall>t. entries_of A (index_db t p) = [] \<and> cmp_of A (index_db t p) = KeyComparator_Compare"
    "\<forall>db \<in> {db_ns_prefix p, db_ns_url p}. entries_of A db = [] \<and> cmp_of A db = slice_compare E"
    using leveldb_contract.LevelDBPersistence_new_databases [OF assms(1,2), of "ldf_db flags"] by blast
  have "wf_namespaces E A p" using p(3) by (simp add: wf_namespaces_def ns_db_ok_def ns_entries_ok_def)
  then show ?thesis
    using p(1,3) leveldb_contract.empty_indexes_wf [OF assms(1) p(2)] assms(3)
    by (simp add: leveldb_server_main_def)
qed

lemma run_import_result:
  assumes "store E A" and "\<forall>db b. db_Write E db b \<noteq> None"
    and "wf_namespaces E A (cl_server st)" and "wf_statements E A (cl_server st)"
    and "2 < length argv" and "argv ! 1 = ''import''"
    and "ce_stub C (clf_host flags @ '':'' @ clf_port flags) = leveldb_stub E std_hash order"
    and "Parser_new (ce_parsing C) (ce_new_uri C) base_uri (Parser_FormatFromString (clf_format flags)) = Inr q"
    and "Parser_parse (ce_parsing C) (open_ifstream (cl_files st) (argv ! 2))
      (setNamespaceHandler (setStatementHandler q (\<lambda>(nss, ss) s. (nss, ss @ [s]))) (\<lambda>(nss, ss) n. (nss @ [n], ss)), ([], [])) =
      Inr (q', (nss, ss))"
    and "\<forall>n \<in> set nss. ns_ok A n" and "\<forall>s \<in> set ss. stmt_ok A s"
  shows "\<exists>p'. client_main C flags argv st = exec_return (st\<lparr>cl_server := p',
      cl_console := (cl_console st)\<lparr>cout := cout (cl_console st) @ ''Importing '' @ argv ! 2 @ '' ... '' @ endl @
        ''Added '' @ to_string (int (length nss)) @ '' namespaces and '' @ to_string (int (length ss)) @ '' statements'' @ endl @
        ''Finished!'' @ endl\<rparr>\<rparr>) \<and>
    wf_statements E A p' \<and> stored E A p' = foldl (apply_stmt_op E) (stored E A (cl_server st)) (map Op_Add ss)"
proof -
  let ?con = "(cl_console st)\<lparr>cout := cout (cl_console st) @ ''Importing '' @ argv ! 2 @ '' ... '' @ endl\<rparr>"
  obtain p' where p': "importDataset (ce_parsing C) (ce_new_uri C) (leveldb_stub E std_hash order) (ce_error_message C)
      (open_ifstream (cl_files st) (argv ! 2)) (Parser_FormatFromString (clf_format flags)) (cl_server st, ?con) =
      exec_return (p', ?con\<lparr>cout := cout ?con @ ''Added '' @ to_string (int (length nss)) @ '' namespaces and '' @
        to_string (int (length ss)) @ '' statements'' @ endl\<rparr>)"
    "wf_statements E A p'" "stored E A p' = foldl (apply_stmt_op E) (stored E A (cl_server st)) (map Op_Add ss)"
    using importDataset_run [OF assms(1-4,8,9,10,11), of std_hash order "ce_error_message C" ?con] by blast
  have "client_main C flags argv st = run_import C flags (leveldb_stub E std_hash order) argv st"
    using assms(5,6) client_main_commands(1) [OF _ assms(7) [symmetric], of argv st] by simp
  also have "\<dots> = exec_return (st\<lparr>cl_server := p',
      cl_console := (cl_console st)\<lparr>cout := cout (cl_console st) @ ''Importing '' @ argv ! 2 @ '' ... '' @ endl @
        ''Added '' @ to_string (int (length nss)) @ '' namespaces and '' @ to_string (int (length ss)) @ '' statements'' @ endl @
        ''Finished!'' @ endl\<rparr>\<rparr>)"
    using assms(5) p'(1) by (simp add: run_import_def print_line_def Let_def)
  finally show ?thesis using p'(2,3) by blast
qed

text \<open>
  C16: A server, an import and a count. Suppose no write to disk fails, the databases are new, the address can be used,
  and the client's stub reaches that server alone. The persistence server starts and serves a consistent store without statements and namespaces;
  importing a file that the parser accepts, with terms that can be serialised, leaves a consistent store with the statements of the file (a later one replaces
  an earlier one with the same hashes); the command \<open>size\<close> with no context then prints the number of statements that are stored.
\<close>

theorem serve_import_size:
  assumes "store E A" and "\<forall>db b. db_Write E db b \<noteq> None"
    and "\<forall>c f. \<exists>db. db_Open E c f = Some db \<and> entries_of A db = []"
    and "listen (ldf_host lflags @ '':'' @ ldf_port lflags)"
    and "ce_stub C (clf_host flags @ '':'' @ clf_port flags) = leveldb_stub E std_hash order"
    and "Parser_new (ce_parsing C) (ce_new_uri C) base_uri (Parser_FormatFromString (clf_format flags)) = Inr q"
    and "Parser_parse (ce_parsing C) (open_ifstream files path)
      (setNamespaceHandler (setStatementHandler q (\<lambda>(nss, ss) s. (nss, ss @ [s]))) (\<lambda>(nss, ss) n. (nss @ [n], ss)), ([], [])) =
      Inr (q', (nss, ss))"
    and "\<forall>n \<in> set nss. ns_ok A n" and "\<forall>s \<in> set ss. stmt_ok A s" and "ce_ParseContexts C t = []"
  shows "\<exists>server st1 st2. leveldb_server_main E listen lflags = exec_return server \<and>
    wf_statements E A (srv_service server) \<and> stored E A (srv_service server) = {} \<and> wf_namespaces E A (srv_service server) \<and>
    entries_of A (db_ns_prefix (srv_service server)) = [] \<and> entries_of A (db_ns_url (srv_service server)) = [] \<and>
    client_main C flags [prog, ''import'', path] \<lparr>cl_server = srv_service server, cl_console = con, cl_files = files\<rparr> =
      exec_return st1 \<and>
    wf_statements E A (cl_server st1) \<and> stored E A (cl_server st1) = foldl (apply_stmt_op E) {} (map Op_Add ss) \<and>
    client_main C flags [prog, ''size'', t] st1 = exec_return st2 \<and> cl_server st2 = cl_server st1 \<and>
    cout (cl_console st2) = cout con @ ''Importing '' @ path @ '' ... '' @ endl @
      ''Added '' @ to_string (int (length nss)) @ '' namespaces and '' @ to_string (int (length ss)) @ '' statements'' @ endl @
      ''Finished!'' @ endl @ ''Size: '' @ to_string (int (card (stored E A (cl_server st1)))) @ endl"
proof -
  obtain p where p: "leveldb_server_main E listen lflags =
      exec_return \<lparr>srv_address = ldf_host lflags @ '':'' @ ldf_port lflags, srv_service = p\<rparr>"
    "wf_statements E A p" "stored E A p = {}" "wf_namespaces E A p"
    "entries_of A (db_ns_prefix p) = []" "entries_of A (db_ns_url p) = []"
    using leveldb_server_starts [OF store.axioms(1) [OF assms(1)] assms(3), of listen lflags] assms(4) by blast
  let ?st = "\<lparr>cl_server = p, cl_console = con, cl_files = files\<rparr>"
  obtain p' where p': "client_main C flags [prog, ''import'', path] ?st = exec_return (?st\<lparr>cl_server := p',
      cl_console := con\<lparr>cout := cout con @ ''Importing '' @ path @ '' ... '' @ endl @
        ''Added '' @ to_string (int (length nss)) @ '' namespaces and '' @ to_string (int (length ss)) @ '' statements'' @ endl @
        ''Finished!'' @ endl\<rparr>\<rparr>)"
    "wf_statements E A p'" "stored E A p' = foldl (apply_stmt_op E) {} (map Op_Add ss)"
    using run_import_result [OF assms(1,2), of ?st "[prog, ''import'', path]" C flags std_hash order q q' nss ss]
      p assms(5-9) by auto
  have size: "client_size (leveldb_stub E std_hash order) [] p' = (int (card (stored E A p')), p')"
    using reliable_store.stub_size [OF reliableI [OF assms(1,2)] p'(2), of std_hash order "[]"] by (simp add: client_size_def counted_def)
  have "client_main C flags [prog, ''size'', t] st =
      run_size C (leveldb_stub E std_hash order) [prog, ''size'', t] st" for st
    using client_main_commands(3) [OF _ assms(5) [symmetric], of "[prog, ''size'', t]" st] by simp
  then show ?thesis using p p' size assms(10) by (simp add: run_size_def print_line_def)
qed

lemma to_string_zero: "to_string 0 = ''0''"
  by code_simp

text \<open>
  Importing a file that does not exist. The stream is in a failed state, the parser does not read
  it, and the client reports success with nothing added.
\<close>

theorem client_import_missing_file:
  fixes q :: "('p, proto_Namespace list \<times> proto_Statement list) Parser"
  assumes "store E A" and "\<forall>db b. db_Write E db b \<noteq> None"
    and "wf_namespaces E A (cl_server st)" and "wf_statements E A (cl_server st)"
    and "2 < length argv" and "argv ! 1 = ''import''" and "cl_files st (argv ! 2) = None"
    and "ce_stub C (clf_host flags @ '':'' @ clf_port flags) = leveldb_stub E std_hash order"
    and "Parser_new (ce_parsing C) (ce_new_uri C) base_uri (Parser_FormatFromString (clf_format flags)) = Inr q"
  shows "\<exists>p'. client_main C flags argv st = exec_return (st\<lparr>cl_server := p',
      cl_console := (cl_console st)\<lparr>cout := cout (cl_console st) @ ''Importing '' @ argv ! 2 @ '' ... '' @ endl @
        ''Added 0 namespaces and 0 statements'' @ endl @ ''Finished!'' @ endl\<rparr>\<rparr>) \<and>
    wf_statements E A p' \<and> stored E A p' = stored E A (cl_server st)"
proof -
  let ?q = "setNamespaceHandler (setStatementHandler q (\<lambda>(nss, ss) s. (nss, ss @ [s]))) (\<lambda>(nss, ss) n. (nss @ [n], ss))"
  have "Parser_parse (ce_parsing C) (open_ifstream (cl_files st) (argv ! 2)) (?q, ([], [])) = Inr (?q, ([], []))"
    using assms(7) by (simp add: Parser_parse_def open_ifstream_def)
  from run_import_result [OF assms(1-6,8,9) this] show ?thesis by (simp add: to_string_zero)
qed

subsection \<open>The proxy as it is started\<close>

lemma create_channels_map: "create_channels net servers cs = cs @ map net servers"
  by (induction net servers cs rule: create_channels.induct) simp_all

text \<open>
  The backends of the sharding server. A flag that lists addresses without commas, separated by
  commas, the last one non-empty, gives a proxy with one channel per address, in order; with the
  default flags the proxy has no backend, and adding any statement through it is undefined.
\<close>

theorem sharding_server_backends:
  assumes "listen (shf_host flags @ '':'' @ shf_port flags)" and "listen ''0.0.0.0:10000''"
    and "shf_backends flags = join (CHR '','') names"
    and "\<forall>n \<in> set names. CHR '','' \<notin> set n" and "names = [] \<or> last names \<noteq> []"
  shows "sharding_server_main net listen flags =
      exec_return \<lparr>srv_address = shf_host flags @ '':'' @ shf_port flags,
        srv_service = \<lparr>sh_backends = names, sh_channels = map net names\<rparr>\<rparr> \<and>
    (\<exists>server. sharding_server_main net listen sharding_flags_default = exec_return server \<and>
      Sharding_AddStatements S h (s # ss) (sh_channels (srv_service server)) = exec_throw Undefined)"
  using assms(1,2) split_join [OF assms(4,5)] assms(3)
  by (simp add: sharding_server_main_def ShardingService_new_def create_channels_map sharding_flags_default_def
      Sharding_AddStatements_def)

theorem sharding_server_backends_witness:
  "sharding_server_main (\<lambda>_. empty_store) (\<lambda>_. True)
      \<lparr>shf_host = ''h'', shf_port = ''1'', shf_backends = ''a:1,b:2''\<rparr> =
    exec_return \<lparr>srv_address = ''h:1'',
      srv_service = \<lparr>sh_backends = [''a:1'', ''b:2''], sh_channels = [empty_store, empty_store]\<rparr>\<rparr>"
  using sharding_server_backends [of "\<lambda>_. True" "\<lparr>shf_host = ''h'', shf_port = ''1'', shf_backends = ''a:1,b:2''\<rparr>"
      "[''a:1'', ''b:2'']" "\<lambda>_. empty_store"] by simp

subsection \<open>An example session\<close>

definition example_client ::
  "(raptor_event list, raptor_log list, (comparator \<times> entry list) LevelDBPersistence) client_env" where
  "example_client =
     \<lparr>ce_parsing = scripted_parsing example_events, ce_new_uri = Some, ce_serializing = list_raptor,
      ce_written = (\<lambda>_. []), ce_codec = \<lparr>SerializeToCodedStream = (\<lambda>_. []), TextFormat_Print = (\<lambda>_. [])\<rparr>,
      ce_stub = (\<lambda>_. leveldb_stub (list_environment True) (\<lambda>_. 0) rev), ce_TupleQuery = (\<lambda>_ _ _. []),
      ce_Print = (\<lambda>_. ''''), ce_error_message = (\<lambda>_. ''''), ce_ParseStatement = (\<lambda>_. Statement_default),
      ce_ParseContexts = (\<lambda>_. [])\<rparr>"

lemma example_client_simps [simp]:
  "ce_parsing example_client = scripted_parsing example_events"
  "ce_stub example_client address = leveldb_stub (list_environment True) (\<lambda>_. 0) rev"
  "ce_ParseStatement example_client t = Statement_default"
  "ce_ParseContexts example_client t = []"
  by (simp_all add: example_client_def)

lemma example_parser:
  "Parser_new (scripted_parsing example_events) (ce_new_uri example_client) base_uri
     (Parser_FormatFromString (clf_format client_flags_default)) =
     Inr \<lparr>prs_parser = example_events, prs_base = Some (c_str (uri_uri base_uri)),
        prs_stmt_handler = (\<lambda>s stmt. s), prs_ns_handler = (\<lambda>s ns. s)\<rparr>"
  by (simp add: Parser_new_def scripted_parsing_def example_client_def Parser_FormatFromString_def
      client_flags_default_def)

lemma list_environment_opens:
  "\<forall>db b. db_Write (list_environment x) db b \<noteq> None"
  "\<forall>c f. \<exists>db. db_Open (list_environment x) c f = Some db \<and> entries_of list_view db = []"
  by (simp_all add: list_environment_def list_view_def)

theorem serve_import_size_witness:
  "\<exists>server st1 st2. leveldb_server_main (list_environment True) (\<lambda>_. True) leveldb_flags_default = exec_return server \<and>
    client_main example_client client_flags_default [''client'', ''import'', ''a.rdf'']
      \<lparr>cl_server = srv_service server, cl_console = \<lparr>cout = '''', cerr = ''''\<rparr>, cl_files = [''a.rdf'' \<mapsto> []]\<rparr> =
      exec_return st1 \<and>
    stored (list_environment True) list_view (cl_server st1) = {example_imported} \<and>
    client_main example_client client_flags_default [''client'', ''size'', ''''] st1 = exec_return st2"
proof -
  have input: "open_ifstream [''a.rdf'' \<mapsto> []] ''a.rdf'' = istream_open []" by (simp add: open_ifstream_def)
  show ?thesis
    using serve_import_size [OF list_store.store_axioms [of True] list_environment_opens [of True],
        where C = example_client and flags = client_flags_default and listen = "\<lambda>_. True" and lflags = leveldb_flags_default
          and std_hash = "\<lambda>_. 0" and order = rev and files = "[''a.rdf'' \<mapsto> []]" and path = "''a.rdf''"
          and t = "''''" and prog = "''client''" and con = "\<lparr>cout = '''', cerr = ''''\<rparr>"]
      example_parser example_parse [of "Some (c_str (uri_uri base_uri))"]
    by (fastforce simp: input setNamespaceHandler_def setStatementHandler_def)
qed


theorem client_import_missing_file_witness:
  "\<exists>st'. client_main example_client client_flags_default [''client'', ''import'', ''a.rdf'']
      \<lparr>cl_server = empty_store, cl_console = \<lparr>cout = '''', cerr = ''''\<rparr>, cl_files = Map.empty\<rparr> = exec_return st' \<and>
    stored (list_environment True) list_view (cl_server st') = {}"
proof -
  let ?st = "\<lparr>cl_server = empty_store, cl_console = \<lparr>cout = '''', cerr = ''''\<rparr>, cl_files = Map.empty\<rparr>"
  have wf: "wf_namespaces (list_environment True) list_view (cl_server ?st)" "wf_statements (list_environment True) list_view (cl_server ?st)"
    using empty_store_namespaces(1) empty_store_wf(1) by simp_all
  show ?thesis
    using client_import_missing_file [OF list_store.store_axioms [of True] list_environment_opens(1) [of True] wf,
        of "[''client'', ''import'', ''a.rdf'']" example_client client_flags_default "\<lambda>_. 0" rev]
      example_parser empty_store_wf(2) by fastforce
qed

end
