(* ===== verification/Server_Spec.thy ===== *)
theory Server_Spec
  imports Service
begin

text \<open>
  What a client of the persistence server may rely on: a specification of the service
  \<open>SailService\<close> (\<open>service/sail.proto\<close>) over a set of statements and two maps of namespaces, and the
  proof that the handlers of \<open>persistence/leveldb_service.cc\<close> over a store that was opened empty
  implement it, request by request, for every sequence of requests that are answered.
\<close>

datatype SailRequest =
  Req_AddNamespaces "proto_Namespace list" | Req_GetNamespace proto_Namespace | Req_GetNamespaces
  | Req_AddStatements "proto_Statement list" | Req_GetStatements proto_Statement
  | Req_RemoveStatements proto_Statement | Req_Update "UpdateRequest list"
  | Req_Clear "proto_Resource list" | Req_Size "proto_Resource list" | Req_GetContexts

datatype SailResponse =
  Resp_Count Status int | Resp_Namespace Status proto_Namespace | Resp_Namespaces Status "proto_Namespace list"
  | Resp_Statements Status "proto_Statement list" | Resp_Update Status UpdateResponse
  | Resp_Contexts Status "proto_Resource list"

text \<open>The handler that serves a request; streamed responses are collected.\<close>

fun handle_request ::
  "('db, 'it) environment \<Rightarrow> string_hash \<Rightarrow> (proto_Resource list \<Rightarrow> proto_Resource list) \<Rightarrow> 'db LevelDBPersistence \<Rightarrow> SailRequest \<Rightarrow>
   (SailResponse \<times> 'db LevelDBPersistence) exec" where
  "handle_request E std_hash order p (Req_AddNamespaces ns) =
     exec_bind (Service_AddNamespaces E ns p) (\<lambda>((st, n), p). exec_return (Resp_Count st n, p))"
| "handle_request E std_hash order p (Req_GetNamespace pattern) =
     exec_bind (Service_GetNamespace E p pattern Namespace_default) (\<lambda>(st, n). exec_return (Resp_Namespace st n, p))"
| "handle_request E std_hash order p Req_GetNamespaces =
     exec_bind (Service_GetNamespaces E p collect []) (\<lambda>(st, ns). exec_return (Resp_Namespaces st ns, p))"
| "handle_request E std_hash order p (Req_AddStatements ss) =
     exec_bind (Service_AddStatements E ss p) (\<lambda>((st, n), p). exec_return (Resp_Count st n, p))"
| "handle_request E std_hash order p (Req_GetStatements pattern) =
     exec_bind (Service_GetStatements E p pattern collect []) (\<lambda>(st, ss). exec_return (Resp_Statements st ss, p))"
| "handle_request E std_hash order p (Req_RemoveStatements pattern) =
     exec_bind (Service_RemoveStatements E pattern p) (\<lambda>((st, n), p). exec_return (Resp_Count st n, p))"
| "handle_request E std_hash order p (Req_Update us) =
     exec_bind (Service_Update E us p) (\<lambda>((st, r), p). exec_return (Resp_Update st r, p))"
| "handle_request E std_hash order p (Req_Clear contexts) =
     exec_bind (Service_Clear E contexts p) (\<lambda>((st, n), p). exec_return (Resp_Count st n, p))"
| "handle_request E std_hash order p (Req_Size contexts) =
     exec_bind (Service_Size E p contexts) (\<lambda>(st, n). exec_return (Resp_Count st n, p))"
| "handle_request E std_hash order p Req_GetContexts =
     exec_bind (Service_GetContexts E std_hash order p collect []) (\<lambda>(st, cs). exec_return (Resp_Contexts st cs, p))"

text \<open>The server: it opens its databases and answers requests one after the other.\<close>

inductive server_trace ::
  "('db, 'it) environment \<Rightarrow> string_hash \<Rightarrow> (proto_Resource list \<Rightarrow> proto_Resource list) \<Rightarrow> string \<Rightarrow> (SailRequest \<times> SailResponse) list \<Rightarrow> 'db LevelDBPersistence \<Rightarrow> bool"
  for E std_hash order path where
  opened: "LevelDBPersistence_new E path = exec_return p \<Longrightarrow> server_trace E std_hash order path [] p"
| answered: "server_trace E std_hash order path tr p \<Longrightarrow> handle_request E std_hash order p r = exec_return (resp, p') \<Longrightarrow>
    server_trace E std_hash order path (tr @ [(r, resp)]) p'"

subsection \<open>The specification\<close>

record spec_state =
  sp_statements :: "proto_Statement set"
  sp_prefixes :: "string \<Rightarrow> proto_Namespace option"
  sp_urls :: "string \<Rightarrow> proto_Namespace option"

definition spec_new :: spec_state where
  "spec_new = \<lparr>sp_statements = {}, sp_prefixes = Map.empty, sp_urls = Map.empty\<rparr>"

definition spec_namespaces :: "spec_state \<Rightarrow> proto_Namespace \<Rightarrow> proto_Namespace set" where
  "spec_namespaces S pattern =
     (if ns_prefix pattern \<noteq> '''' then set_option (sp_prefixes S (ns_prefix pattern))
      else if ns_uri pattern \<noteq> '''' then set_option (sp_urls S (ns_uri pattern))
      else ran (sp_prefixes S))"

definition spec_add_namespace :: "spec_state \<Rightarrow> proto_Namespace \<Rightarrow> spec_state" where
  "spec_add_namespace S n =
     S\<lparr>sp_prefixes := (sp_prefixes S)(ns_prefix n \<mapsto> n), sp_urls := (sp_urls S)(ns_uri n \<mapsto> n)\<rparr>"

definition spec_add :: "('db, 'it) environment \<Rightarrow> spec_state \<Rightarrow> proto_Statement \<Rightarrow> spec_state" where
  "spec_add E S s = S\<lparr>sp_statements := insert s {u \<in> sp_statements S. \<not> same_hashes E u s}\<rparr>"

text \<open>One request of a batch; \<open>S0\<close> is the state before the batch, in which removals are looked up.\<close>

fun spec_update :: "('db, 'it) environment \<Rightarrow> spec_state \<Rightarrow> spec_state \<Rightarrow> UpdateRequest \<Rightarrow> spec_state" where
  "spec_update E S0 S (stmt_added s) = spec_add E S s"
| "spec_update E S0 S (stmt_removed pattern) =
     S\<lparr>sp_statements := {u \<in> sp_statements S. \<forall>v \<in> hits E (sp_statements S0) pattern. \<not> same_hashes E u v}\<rparr>"
| "spec_update E S0 S (ns_added n) = spec_add_namespace S n"
| "spec_update E S0 S (ns_removed pattern) =
     S\<lparr>sp_prefixes := sp_prefixes S |` (- ns_prefix ` spec_namespaces S0 pattern),
       sp_urls := sp_urls S |` (- ns_uri ` spec_namespaces S0 pattern)\<rparr>"
| "spec_update E S0 S Update_none = S"

definition spec_statistics :: "('db, 'it) environment \<Rightarrow> spec_state \<Rightarrow> UpdateRequest list \<Rightarrow> UpdateResponse" where
  "spec_statistics E S us =
     \<lparr>added_statements = int (length [u \<leftarrow> us. \<exists>s. u = stmt_added s]),
      removed_statements =
        (\<Sum>u \<leftarrow> us. case u of stmt_removed pattern \<Rightarrow> int (card (hits E (sp_statements S) pattern)) | _ \<Rightarrow> 0),
      added_namespaces = int (length [u \<leftarrow> us. \<exists>n. u = ns_added n]), removed_namespaces = 0\<rparr>"

text \<open>Which answers a request may get in a state, and the state afterwards.\<close>

fun spec_allows ::
  "('db, 'it) environment \<Rightarrow> spec_state \<Rightarrow> SailRequest \<Rightarrow> SailResponse \<Rightarrow> spec_state \<Rightarrow> bool" where
  "spec_allows E S (Req_AddNamespaces ns) resp S' \<longleftrightarrow>
     resp = Resp_Count Status_OK (int (length ns)) \<and> S' = foldl spec_add_namespace S ns"
| "spec_allows E S (Req_GetNamespace pattern) resp S' \<longleftrightarrow> S' = S \<and>
     (if spec_namespaces S pattern = {} then resp = Resp_Namespace Status_NOT_FOUND Namespace_default
      else \<exists>n \<in> spec_namespaces S pattern. resp = Resp_Namespace Status_OK n)"
| "spec_allows E S Req_GetNamespaces resp S' \<longleftrightarrow> S' = S \<and>
     (\<exists>ns. resp = Resp_Namespaces Status_OK ns \<and> distinct ns \<and> set ns = ran (sp_prefixes S))"
| "spec_allows E S (Req_AddStatements ss) resp S' \<longleftrightarrow>
     resp = Resp_Count Status_OK (int (length ss)) \<and> S' = foldl (spec_add E) S ss"
| "spec_allows E S (Req_GetStatements pattern) resp S' \<longleftrightarrow> S' = S \<and>
     (\<exists>ss. resp = Resp_Statements Status_OK ss \<and> distinct ss \<and> set ss = hits E (sp_statements S) pattern)"
| "spec_allows E S (Req_RemoveStatements pattern) resp S' \<longleftrightarrow>
     resp = Resp_Count Status_OK (int (card (hits E (sp_statements S) pattern))) \<and>
     S' = S\<lparr>sp_statements := sp_statements S - hits E (sp_statements S) pattern\<rparr>"
| "spec_allows E S (Req_Update us) resp S' \<longleftrightarrow>
     resp = Resp_Update Status_OK (spec_statistics E S us) \<and> S' = foldl (spec_update E S) S us"
| "spec_allows E S (Req_Clear contexts) resp S' \<longleftrightarrow>
     resp = Resp_Count Status_OK (int (card {s \<in> sp_statements S. contexts = [] \<or> in_contexts E contexts s})) \<and>
     S' = S\<lparr>sp_statements := {s \<in> sp_statements S. contexts \<noteq> [] \<and> \<not> in_contexts E contexts s}\<rparr>"
| "spec_allows E S (Req_Size contexts) resp S' \<longleftrightarrow> S' = S \<and>
     resp = Resp_Count Status_OK
       (if contexts = [] then int (card (sp_statements S))
        else (\<Sum>r \<leftarrow> contexts. int (card {s \<in> sp_statements S. in_contexts E [r] s})))"
| "spec_allows E S Req_GetContexts resp S' \<longleftrightarrow> S' = S \<and>
     (\<exists>cs. resp = Resp_Contexts Status_OK cs \<and>
       ((\<forall>s \<in> sp_statements S. st_context s \<noteq> Some R_NONE) \<longrightarrow>
         distinct cs \<and> set cs = {c. \<exists>s \<in> sp_statements S. st_context s = Some c}))"

inductive spec_trace ::
  "('db, 'it) environment \<Rightarrow> (SailRequest \<times> SailResponse) list \<Rightarrow> spec_state \<Rightarrow> bool" for E where
  spec_start: "spec_trace E [] spec_new"
| spec_answer: "spec_trace E tr S \<Longrightarrow> spec_allows E S r resp S' \<Longrightarrow> spec_trace E (tr @ [(r, resp)]) S'"

fun sail_request_ok :: "('db, 'it) view \<Rightarrow> SailRequest \<Rightarrow> bool" where
  "sail_request_ok A (Req_AddNamespaces ns) = (\<forall>n \<in> set ns. ns_ok A n)"
| "sail_request_ok A (Req_AddStatements ss) = (\<forall>s \<in> set ss. stmt_ok A s)"
| "sail_request_ok A (Req_Update us) = (\<forall>u \<in> set us. request_ok A u)"
| "sail_request_ok A _ = True"

text \<open>The iteration over an \<open>unordered_set\<close> visits every element once.\<close>

definition iterates :: "('a list \<Rightarrow> 'a list) \<Rightarrow> bool" where
  "iterates order \<longleftrightarrow> (\<forall>xs. set (order xs) = set xs \<and> (distinct xs \<longrightarrow> distinct (order xs)))"

lemma iterates_rev: "iterates rev"
  by (simp add: iterates_def)

subsection \<open>The state a store stands for\<close>

definition spec_of :: "('db, 'it) environment \<Rightarrow> ('db, 'it) view \<Rightarrow> 'db LevelDBPersistence \<Rightarrow> spec_state" where
  "spec_of E A p =
     \<lparr>sp_statements = stored E A p, sp_prefixes = ns_lookup E A (db_ns_prefix p), sp_urls = ns_lookup E A (db_ns_url p)\<rparr>"

abbreviation wf_store :: "('db, 'it) environment \<Rightarrow> ('db, 'it) view \<Rightarrow> 'db LevelDBPersistence \<Rightarrow> bool" where
  "wf_store E A p \<equiv> wf_statements E A p \<and> wf_namespaces E A p"

lemma spec_of_simps [simp]:
  "sp_statements (spec_of E A p) = stored E A p"
  "sp_prefixes (spec_of E A p) = ns_lookup E A (db_ns_prefix p)"
  "sp_urls (spec_of E A p) = ns_lookup E A (db_ns_url p)"
  by (simp_all add: spec_of_def)

lemma spec_add_foldl:
  "foldl (spec_add E) S ss = S\<lparr>sp_statements := foldl (apply_stmt_op E) (sp_statements S) (map Op_Add ss)\<rparr>"
  by (induction ss arbitrary: S) (simp_all add: spec_add_def)

lemma spec_add_namespace_foldl:
  "foldl spec_add_namespace S ns =
     S\<lparr>sp_prefixes := foldl (\<lambda>m n. m(ns_prefix n \<mapsto> n)) (sp_prefixes S) ns,
       sp_urls := foldl (\<lambda>m n. m(ns_uri n \<mapsto> n)) (sp_urls S) ns\<rparr>"
  by (induction ns arbitrary: S) (simp_all add: spec_add_namespace_def)

lemma remove_namespaces:
  "foldl (apply_ns_op key) m (map NS_Remove ns) = m |` (- key ` set ns)"
proof (induction ns arbitrary: m)
  case (Cons n ns)
  have "(m(key n := None)) |` (- key ` set ns) = m |` (- key ` set (n # ns))"
    by (auto simp: restrict_map_def fun_eq_iff)
  then show ?case by (simp only: list.map foldl.simps apply_ns_op.simps Cons.IH)
qed (simp add: restrict_map_def)

lemma last_namespace:
  "callback_foldl (\<lambda>(status, result) r. (True, (Status_OK, r))) s ns =
     (if ns = [] then s else (Status_OK, last ns))"
  by (induction ns arbitrary: s) (auto simp: split_def)

context store
begin

lemma set_ns_result:
  assumes "wf_namespaces E A p"
  shows "set (ns_result E A p pattern) = spec_namespaces (spec_of E A p) pattern"
proof -
  have "ns_entries_ok E A ns_prefix (entries_of A (db_ns_prefix p))"
    using assms by (simp add: wf_namespaces_def ns_db_ok_def)
  then show ?thesis
    using ns_result_cases [OF assms, of pattern] ns_entries_range(1)
    by (auto simp: spec_namespaces_def split: option.splits)
qed

lemma spec_update_foldl:
  assumes "wf_statements E A p" and "wf_namespaces E A p"
  shows "foldl (spec_update E (spec_of E A p)) S us =
    \<lparr>sp_statements = foldl (apply_stmt_op E) (sp_statements S) (concat (map (request_stmt_ops E A p) us)),
     sp_prefixes = foldl (apply_ns_op ns_prefix) (sp_prefixes S) (concat (map (request_ns_ops E A p) us)),
     sp_urls = foldl (apply_ns_op ns_uri) (sp_urls S) (concat (map (request_ns_ops E A p) us))\<rparr>"
proof (induction us arbitrary: S)
  case (Cons u us)
  have "spec_update E (spec_of E A p) S u =
    \<lparr>sp_statements = foldl (apply_stmt_op E) (sp_statements S) (request_stmt_ops E A p u),
     sp_prefixes = foldl (apply_ns_op ns_prefix) (sp_prefixes S) (request_ns_ops E A p u),
     sp_urls = foldl (apply_ns_op ns_uri) (sp_urls S) (request_ns_ops E A p u)\<rparr>"
    by (cases u) (simp_all add: spec_add_def spec_add_namespace_def remove_all remove_namespaces
        query_result_set(1) [OF assms(1)] set_ns_result [OF assms(2)])
  with Cons show ?case by simp
qed simp

text \<open>What an operation that returned has done.\<close>

lemma run_statement_writers_returns:
  assumes "wf_store E A p" and "\<forall>op \<in> set ops. stmt_ok A (op_stmt op)"
    and "run_writers E (statement_writers (batches_of E ops)) p = exec_return p'"
  shows "wf_store E A p'" and "spec_of E A p' = (spec_of E A p)\<lparr>sp_statements := foldl (apply_stmt_op E) (stored E A p) ops\<rparr>"
proof -
  have "wf_statements E A p' \<and> stored E A p' = foldl (apply_stmt_op E) (stored E A p) ops \<and>
      db_ns_prefix p' = db_ns_prefix p \<and> db_ns_url p' = db_ns_url p"
    using run_statement_writers [OF conjunct1 [OF assms(1)] assms(2)] assms(3)
    by (auto simp: exec_return_def exec_throw_def split: if_splits)
  then show "wf_store E A p'" "spec_of E A p' = (spec_of E A p)\<lparr>sp_statements := foldl (apply_stmt_op E) (stored E A p) ops\<rparr>"
    using assms(1) by (simp_all add: wf_namespaces_def spec_of_def)
qed

lemma RemoveStatements_returns:
  assumes "wf_store E A p" and "RemoveStatements E pattern p = exec_return (n, p')"
  shows "n = int (card (hits E (stored E A p) pattern))" and "wf_store E A p'"
    and "spec_of E A p' = (spec_of E A p)\<lparr>sp_statements := stored E A p - hits E (stored E A p) pattern\<rparr>"
proof -
  let ?ops = "map Op_Remove (query_result E A p pattern)"
  have wf: "wf_statements E A p" using assms(1) by simp
  have ops: "\<forall>op \<in> set ?ops. stmt_ok A (op_stmt op)"
    using wf query_result_set(1) [OF wf] by (auto simp: wf_statements_def)
  have n: "n = int (card (hits E (stored E A p) pattern))"
    and run: "run_writers E (statement_writers (batches_of E ?ops)) p = exec_return p'"
    using assms(2) RemoveStatements_batch_result [of p pattern "[]"] query_result_set(3) [OF wf, of pattern]
    by (auto simp: RemoveStatements_def batches_new [of E] exec_bind_def exec_return_def split: option.splits sum.splits)
  show "n = int (card (hits E (stored E A p) pattern))" by (rule n)
  show "wf_store E A p'"
    "spec_of E A p' = (spec_of E A p)\<lparr>sp_statements := stored E A p - hits E (stored E A p) pattern\<rparr>"
    using run_statement_writers_returns [OF assms(1) ops run] remove_hits [OF wf, of pattern] by simp_all
qed

lemma Clear_loop_returns:
  assumes "wf_store E A p" and "Clear_loop E rs pattern n p = exec_return (m, p')"
    and "\<And>r. pattern\<lparr>st_context := Some r\<rparr> = Statement_default\<lparr>st_context := Some r\<rparr>"
  shows "m = n + int (card {s \<in> stored E A p. in_contexts E rs s}) \<and> wf_store E A p' \<and>
    spec_of E A p' = (spec_of E A p)\<lparr>sp_statements := {s \<in> stored E A p. \<not> in_contexts E rs s}\<rparr>"
  using assms
proof (induction rs arbitrary: p pattern n)
  case Nil
  then show ?case by (simp add: in_contexts_def spec_of_def)
next
  case (Cons r rs)
  let ?S = "stored E A p" and ?q = "Statement_default\<lparr>st_context := Some r\<rparr>"
  obtain k p1 where p1: "RemoveStatements E ?q p = exec_return (k, p1)" "Clear_loop E rs ?q (n + k) p1 = exec_return (m, p')"
    using Cons.prems(2,3) by (auto simp: Let_def exec_bind_def exec_return_def split: option.splits sum.splits)
  note removed = RemoveStatements_returns [OF Cons.prems(1) p1(1)]
  have S1: "stored E A p1 = {s \<in> ?S. \<not> in_contexts E [r] s}"
    using arg_cong [OF removed(3), of sp_statements] by (auto simp: hash_matches_context)
  have split: "in_contexts E (r # rs) s \<longleftrightarrow> in_contexts E [r] s \<or> in_contexts E rs s" for s
    by (auto simp: in_contexts_def)
  have "{s \<in> ?S. in_contexts E (r # rs) s} = {s \<in> ?S. in_contexts E [r] s} \<union> {s \<in> stored E A p1. in_contexts E rs s}"
    unfolding S1 split by auto
  moreover have "{s \<in> ?S. in_contexts E [r] s} \<inter> {s \<in> stored E A p1. in_contexts E rs s} = {}" unfolding S1 by auto
  ultimately have card: "card {s \<in> ?S. in_contexts E (r # rs) s} =
      card {s \<in> ?S. in_contexts E [r] s} + card {s \<in> stored E A p1. in_contexts E rs s}"
    by (simp add: card_Un_disjoint)
  have q: "?q\<lparr>st_context := Some r'\<rparr> = Statement_default\<lparr>st_context := Some r'\<rparr>" for r' by simp
  have rest: "{s \<in> stored E A p1. \<not> in_contexts E rs s} = {s \<in> ?S. \<not> in_contexts E (r # rs) s}"
    unfolding S1 split by auto
  show ?case
    using Cons.IH [OF removed(2) p1(2) q] removed(1) removed(3) by (simp add: card hash_matches_context rest)
qed

text \<open>The requests that change the store.\<close>

lemma add_statements_simulates:
  assumes "wf_store E A p" and "\<forall>s \<in> set ss. stmt_ok A s"
    and "handle_request E std_hash order p (Req_AddStatements ss) = exec_return (resp, p')"
  shows "wf_store E A p' \<and> spec_allows E (spec_of E A p) (Req_AddStatements ss) resp (spec_of E A p')"
proof -
  have ops: "\<forall>op \<in> set (map Op_Add ss). stmt_ok A (op_stmt op)" using assms(2) by auto
  have "run_writers E (statement_writers (batches_of E (map Op_Add ss))) p = exec_return p'"
    and "resp = Resp_Count Status_OK (int (length ss))"
    using assms(3) by (auto simp: Service_AddStatements_run exec_bind_def exec_return_def split: option.splits sum.splits)
  then show ?thesis
    using run_statement_writers_returns [OF assms(1) ops] by (simp add: spec_add_foldl)
qed

lemma remove_statements_simulates:
  assumes "wf_store E A p" and "handle_request E std_hash order p (Req_RemoveStatements pattern) = exec_return (resp, p')"
  shows "wf_store E A p' \<and> spec_allows E (spec_of E A p) (Req_RemoveStatements pattern) resp (spec_of E A p')"
proof -
  obtain n where "RemoveStatements E pattern p = exec_return (n, p')" "resp = Resp_Count Status_OK n"
    using assms(2) by (auto simp: Service_RemoveStatements_def exec_bind_def exec_return_def split: option.splits sum.splits)
  then show ?thesis using RemoveStatements_returns [OF assms(1)] by simp
qed

lemma clear_simulates:
  assumes "wf_store E A p" and "handle_request E std_hash order p (Req_Clear contexts) = exec_return (resp, p')"
  shows "wf_store E A p' \<and> spec_allows E (spec_of E A p) (Req_Clear contexts) resp (spec_of E A p')"
proof (cases "contexts = []")
  case True
  then obtain n where "RemoveStatements E Statement_default p = exec_return (n, p')" "resp = Resp_Count Status_OK n"
    using assms(2) by (auto simp: Service_Clear_def exec_bind_def exec_return_def split: option.splits sum.splits)
  then show ?thesis using RemoveStatements_returns [OF assms(1), of Statement_default n p'] True by simp
next
  case False
  then obtain n where "Clear_loop E contexts Statement_default 0 p = exec_return (n, p')" "resp = Resp_Count Status_OK n"
    using assms(2) by (auto simp: Service_Clear_def exec_bind_def exec_return_def split: option.splits sum.splits)
  then show ?thesis using Clear_loop_returns [OF assms(1), of contexts Statement_default 0 n p'] False by simp
qed

lemma add_namespaces_simulates:
  assumes "wf_store E A p" and "\<forall>n \<in> set ns. ns_ok A n"
    and "handle_request E std_hash order p (Req_AddNamespaces ns) = exec_return (resp, p')"
  shows "wf_store E A p' \<and> spec_allows E (spec_of E A p) (Req_AddNamespaces ns) resp (spec_of E A p')"
proof -
  let ?it = "ReaderIterator_new Namespace_default ns"
  obtain n where run: "AddNamespaces E ReaderIterator_class ?it p = exec_return (n, p')" and resp: "resp = Resp_Count Status_OK n"
    using assms(3) by (auto simp: Service_AddNamespaces_def exec_bind_def exec_return_def split: option.splits sum.splits)
  show ?thesis
    using AddNamespaces_result [OF store_axioms reader_iterator.closeable_iterator_axioms TrueI conjunct2 [OF assms(1)], of ?it]
      assms(1,2) run resp
    by (auto simp: spec_add_namespace_foldl spec_of_def exec_return_def exec_throw_def split: if_splits)
qed

lemma update_simulates:
  assumes "wf_store E A p" and "\<forall>u \<in> set us. request_ok A u"
    and "handle_request E std_hash order p (Req_Update us) = exec_return (resp, p')"
  shows "wf_store E A p' \<and> spec_allows E (spec_of E A p) (Req_Update us) resp (spec_of E A p')"
proof -
  let ?it = "ReaderIterator_new Update_none us"
  have wf: "wf_statements E A p" "wf_namespaces E A p" using assms(1) by simp_all
  obtain st where run: "Update E ReaderIterator_class ?it p = exec_return (st, p')"
    and resp: "resp = Resp_Update Status_OK \<lparr>added_statements = added_stmts st, removed_statements = removed_stmts st,
      added_namespaces = added_ns st, removed_namespaces = removed_ns st\<rparr>"
    using assms(3) by (auto simp: Service_Update_def exec_bind_def exec_return_def split: option.splits sum.splits)
  have "st = foldl (request_stats E A p) UpdateStatistics_new us" "wf_store E A p'"
    "spec_of E A p' = foldl (spec_update E (spec_of E A p)) (spec_of E A p) us"
    using Update_result [OF store_axioms reader_iterator.closeable_iterator_axioms TrueI wf, of ?it] assms(2) run
    by (auto simp: spec_update_foldl [OF wf] spec_of_def [of E A p'] exec_return_def exec_throw_def split: if_splits)
  moreover have "resp = Resp_Update Status_OK (spec_statistics E (spec_of E A p) us)"
    using request_stats_sums [OF store_axioms wf(1), of UpdateStatistics_new us] calculation(1)
    unfolding resp spec_statistics_def spec_of_simps by (simp add: UpdateStatistics_new_def)
  ultimately show ?thesis by simp
qed

text \<open>The requests that only read.\<close>

lemma read_simulates:
  assumes "wf_store E A p" and "r \<in> {Req_GetNamespace q, Req_GetNamespaces, Req_GetStatements s, Req_Size cs}"
    and "handle_request E std_hash order p r = exec_return (resp, p')"
  shows "p' = p \<and> spec_allows E (spec_of E A p) r resp (spec_of E A p)"
proof -
  have wf: "wf_statements E A p" "wf_namespaces E A p" using assms(1) by simp_all
  have entries: "ns_entries_ok E A ns_prefix (entries_of A (db_ns_prefix p))"
    using wf(2) by (simp add: wf_namespaces_def ns_db_ok_def)
  have "distinct (ns_result E A p Namespace_default)" "set (ns_result E A p Namespace_default) = ran (ns_lookup E A (db_ns_prefix p))"
    using ns_result_cases(3) [OF wf(2), of Namespace_default] ns_entries_range [OF entries]
    by (simp_all add: Namespace_default_def)
  moreover have "spec_namespaces (spec_of E A p) q = set (ns_result E A p q)" by (simp add: set_ns_result [OF wf(2)])
  moreover have "last ns \<in> set ns" if "ns \<noteq> []" for ns :: "proto_Namespace list" using that by simp
  ultimately show ?thesis
    using assms(2,3) query_result_set(1,2) [OF wf(1), of s] Size_result [OF wf(1)]
      Size_contexts_result [OF wf(1), of Statement_default cs 0]
    by (auto simp: Service_GetNamespace_def Service_GetNamespaces_def Service_GetStatements_def Service_Size_def
        GetNamespaces_result GetStatements_result last_namespace collect_all split: if_splits)
qed

lemma contexts_simulates:
  assumes "wf_store E A p" and "iterates order" and "handle_request E std_hash order p Req_GetContexts = exec_return (resp, p')"
  shows "p' = p \<and> spec_allows E (spec_of E A p) Req_GetContexts resp (spec_of E A p)"
proof -
  obtain st cs where run: "Service_GetContexts E std_hash order p collect [] = exec_return (st, cs)"
    "resp = Resp_Contexts st cs" "p' = p"
    using assms(3) by (auto simp: exec_bind_def exec_return_def split: option.splits sum.splits)
  then have "st = Status_OK" by (auto simp: Service_GetContexts_def GetStatements_result)
  moreover have "distinct cs \<and> set cs = {c. \<exists>s \<in> stored E A p. st_context s = Some c}"
    if "\<forall>s \<in> stored E A p. st_context s \<noteq> Some R_NONE"
    using Service_GetContexts_result [OF store_axioms _ that, of order std_hash collect "[]"] assms(1,2) run(1)
    by (auto simp: iterates_def collect_state)
  ultimately show ?thesis using run(2,3) by simp
qed

lemma handle_simulates:
  assumes "wf_store E A p" and "sail_request_ok A r" and "r = Req_GetContexts \<longrightarrow> iterates order"
    and "handle_request E std_hash order p r = exec_return (resp, p')"
  shows "wf_store E A p' \<and> spec_allows E (spec_of E A p) r resp (spec_of E A p')"
proof (cases r)
  case (Req_AddNamespaces ns)
  then show ?thesis using add_namespaces_simulates [OF assms(1)] assms(2,4) by simp
next
  case (Req_AddStatements ss)
  then show ?thesis using add_statements_simulates [OF assms(1)] assms(2,4) by simp
next
  case (Req_RemoveStatements pattern)
  then show ?thesis using remove_statements_simulates [OF assms(1)] assms(4) by simp
next
  case (Req_Update us)
  then show ?thesis using update_simulates [OF assms(1)] assms(2,4) by simp
next
  case (Req_Clear contexts)
  then show ?thesis using clear_simulates [OF assms(1)] assms(4) by simp
next
  case Req_GetContexts
  then show ?thesis using contexts_simulates [OF assms(1)] assms(1,3,4) by auto
qed (use read_simulates [OF assms(1) _ assms(4)] assms(1) in blast)+

end

lemma server_simulates:
  assumes "store E A" and "\<forall>c f. \<exists>db. db_Open E c f = Some db \<and> entries_of A db = []"
    and "iterates order" and "server_trace E std_hash order path tr p" and "\<forall>(r, resp) \<in> set tr. sail_request_ok A r"
  shows "spec_trace E tr (spec_of E A p) \<and> wf_statements E A p \<and> wf_namespaces E A p"
  using assms(4,5)
proof (induction rule: server_trace.induct)
  case (opened p)
  obtain q where q: "LevelDBPersistence_new E path = exec_return q"
    "\<forall>t. entries_of A (index_db t q) = [] \<and> cmp_of A (index_db t q) = KeyComparator_Compare"
    "\<forall>db \<in> {db_ns_prefix q, db_ns_url q}. entries_of A db = [] \<and> cmp_of A db = slice_compare E"
    using leveldb_contract.LevelDBPersistence_new_databases [OF store.axioms(1) [OF assms(1)] assms(2), of path] by blast
  have "p = q" using opened q(1) by simp
  moreover have "spec_of E A q = spec_new"
    using leveldb_contract.empty_indexes_wf(2) [OF store.axioms(1) [OF assms(1)] q(2)] q(3)
    by (simp add: spec_of_def spec_new_def ns_find_def fun_eq_iff)
  moreover have "wf_store E A q"
    using leveldb_contract.empty_indexes_wf(1) [OF store.axioms(1) [OF assms(1)] q(2)] q(3)
    by (simp add: wf_namespaces_def ns_db_ok_def ns_entries_ok_def)
  ultimately show ?case using spec_trace.spec_start [of E] by simp
next
  case (answered tr p r resp p')
  then show ?case
    using store.handle_simulates [OF assms(1) _ _ _ answered.hyps(2)] assms(3) spec_trace.spec_answer [of E tr] by auto
qed

text \<open>
  C5: The server implements its specification. Starting from empty databases, whatever requests with
  statements and namespaces that can be serialised are answered, one after the other, every answer
  is one the specification allows, the specification ends in the state the databases stand for,
  and the invariants of the databases hold.
\<close>

theorem server_refines_spec:
  assumes "store E A" and "\<forall>c f. \<exists>db. db_Open E c f = Some db \<and> entries_of A db = []"
    and "iterates order" and "server_trace E std_hash order path tr p" and "\<forall>(r, resp) \<in> set tr. sail_request_ok A r"
  shows "spec_trace E tr (spec_of E A p) \<and> wf_statements E A p \<and> wf_namespaces E A p"
  by (rule server_simulates [OF assms])

text \<open>A server that has answered three requests.\<close>

lemma list_open: "LevelDBPersistence_new (list_environment True) path = exec_return empty_store"
  by (simp add: LevelDBPersistence_new_def buildDB_def buildOptions_def buildNsOptions_def list_environment_def empty_store_def)

theorem server_refines_spec_witness:
  "\<exists>tr p. server_trace (list_environment True) (\<lambda>_. 0) rev ''/tmp/db'' tr p \<and>
    map fst tr = [Req_AddStatements [example_statement], Req_Size [], Req_GetStatements Statement_default] \<and>
    spec_trace (list_environment True) tr (spec_of (list_environment True) list_view p)"
proof -
  let ?E = "list_environment True"
  have opens: "\<forall>c f. \<exists>db. db_Open ?E c f = Some db \<and> entries_of list_view db = []"
    by (simp add: list_environment_def list_view_def)
  have "writes_ok ?E ws q" for ws q by (simp add: writes_ok_def list_environment_def split_def)
  then obtain p where p: "run_writers ?E (statement_writers (batches_of ?E [Op_Add example_statement])) empty_store = exec_return p"
    "wf_statements ?E list_view p"
    using list_store.run_statement_writers [OF empty_store_wf(1), of "[Op_Add example_statement]" True] by auto
  have "server_trace ?E (\<lambda>_. 0) rev ''/tmp/db'' [] empty_store" by (rule server_trace.opened) (rule list_open)
  moreover have "handle_request ?E (\<lambda>_. 0) rev empty_store (Req_AddStatements [example_statement]) = exec_return (Resp_Count Status_OK 1, p)"
    using p(1) by (simp add: Service_AddStatements_run)
  moreover have "handle_request ?E (\<lambda>_. 0) rev p (Req_Size []) =
      exec_return (Resp_Count Status_OK (int (card (stored ?E list_view p))), p)"
    using list_store.Size_result [OF p(2)] by (simp add: Service_Size_def)
  moreover have "handle_request ?E (\<lambda>_. 0) rev p (Req_GetStatements Statement_default) =
      exec_return (Resp_Statements Status_OK (query_result ?E list_view p Statement_default), p)"
    by (simp add: Service_GetStatements_def list_store.GetStatements_result collect_all)
  ultimately obtain tr where tr: "server_trace ?E (\<lambda>_. 0) rev ''/tmp/db'' tr p"
    "map fst tr = [Req_AddStatements [example_statement], Req_Size [], Req_GetStatements Statement_default]"
    using server_trace.answered [OF server_trace.answered [OF server_trace.answered]] by fastforce
  then have "\<forall>(r, resp) \<in> set tr. sail_request_ok list_view r"
    by (auto simp: map_eq_Cons_conv)
  from server_refines_spec [OF list_store.store_axioms [of True] opens iterates_rev tr(1) this] tr
  show ?thesis by (intro exI [of _ tr] exI [of _ p]) simp
qed

end
