(* ===== verification/Concurrent_Handlers.thy ===== *)
theory Concurrent_Handlers
  imports Service "HOL-Library.Multiset"
begin

text \<open>
  Handlers of the persistence service that run at the same time.

  gRPC calls every handler on a thread of its own, and the handlers share one
  \<open>LevelDBPersistence\<close> (\<open>persistence/leveldb_service.cc\<close>) without a lock. \<open>AddStatements\<close> and
  \<open>RemoveStatements\<close> (\<open>persistence/leveldb_persistence.cc\<close>) first collect their batches, the latter
  from a LevelDB iterator, which shows the database as it was when it was created, and then start
  one thread per index that writes its batch. A state of the server is the list of the writer
  threads of all handlers that have not written yet, together with the databases.
\<close>

datatype store_request = Add_request "proto_Statement list" | Remove_request proto_Statement

text \<open>The first part of the two operations: what they do before they start their threads.\<close>

fun request_batches ::
  "('db, 'it) environment \<Rightarrow> 'db LevelDBPersistence \<Rightarrow> store_request \<Rightarrow> (statement_batches \<times> int) exec" where
  "request_batches E p (Add_request ss) =
     for_each ReaderIterator_class (\<lambda>(b, count) stmt. exec_return (AddStatement E stmt b, count + 1))
       (ReaderIterator_new Statement_default ss) (statement_batches_new, 0)"
| "request_batches E p (Remove_request pattern) = RemoveStatements_batch E p pattern statement_batches_new"

inductive handlers_run ::
  "('db, 'it) environment \<Rightarrow> 'db writers_state \<Rightarrow> store_request list \<Rightarrow> 'db writers_state \<Rightarrow> bool" for E st where
  idle: "handlers_run E st [] st"
| start_threads: "handlers_run E st rs (Running ws p) \<Longrightarrow> request_batches E p r = exec_return (b, n) \<Longrightarrow>
    handlers_run E st (rs @ [r]) (Running (ws @ statement_writers b) p)"
| thread_step: "handlers_run E st rs st1 \<Longrightarrow> writers_step E st1 st2 \<Longrightarrow> handlers_run E st rs st2"

text \<open>A handler that is alone does what the operation of the class does.\<close>

lemma AddStatements_request:
  "AddStatements E ReaderIterator_class (ReaderIterator_new Statement_default ss) p =
     exec_bind (request_batches E p (Add_request ss))
       (\<lambda>(b, count). exec_bind (run_writers E (statement_writers b) p) (\<lambda>p. exec_return (count, p)))"
  "RemoveStatements E pattern p =
     exec_bind (request_batches E p (Remove_request pattern))
       (\<lambda>(b, count). exec_bind (run_writers E (statement_writers b) p) (\<lambda>p. exec_return (count, p)))"
  by (simp_all add: AddStatements_def RemoveStatements_def)

lemma add_request_batches:
  "request_batches E p (Add_request ss) = exec_return (batches_of E (map Op_Add ss), int (length ss))"
proof -
  have "exec_foldl (\<lambda>(b, count :: int) stmt. exec_return (AddStatement E stmt b, count + 1)) s ss =
      exec_return (foldl (\<lambda>(b, count) stmt. (AddStatement E stmt b, count + 1)) s ss)" for s
    by (induction ss arbitrary: s) (auto simp: split_def)
  then show ?thesis
    using AddStatement_foldl [of E "[]" 0 ss]
    by (simp add: reader_iterator.for_each_remaining batches_new [of E])
qed

subsection \<open>Concurrent additions\<close>

fun added_by :: "store_request \<Rightarrow> proto_Statement set" where
  "added_by (Add_request ss) = set ss"
| "added_by (Remove_request pattern) = {}"

definition collision_free :: "('db, 'it) environment \<Rightarrow> proto_Statement set \<Rightarrow> bool" where
  "collision_free E T \<longleftrightarrow> (\<forall>u \<in> T. \<forall>v \<in> T. same_hashes E u v \<longrightarrow> u = v)"

lemma add_ops_union:
  "collision_free E T \<Longrightarrow> S \<subseteq> T \<Longrightarrow> set ss \<subseteq> T \<Longrightarrow> foldl (apply_stmt_op E) S (map Op_Add ss) = S \<union> set ss"
proof (induction ss arbitrary: S)
  case (Cons s ss)
  have "insert s {u \<in> S. \<not> same_hashes E u s} = insert s S"
    using Cons.prems by (auto simp: collision_free_def)
  with Cons show ?case by simp
qed simp

lemma index_name_inject [simp]: "index_name t = index_name u \<longleftrightarrow> t = u"
  by (cases t; cases u) simp_all

text \<open>A pending thread of an addition: it writes the batch of statements \<open>ss\<close> to index \<open>t\<close>.\<close>

definition add_writer :: "('db, 'it) environment \<Rightarrow> IndexType \<Rightarrow> proto_Statement list \<Rightarrow> writer" where
  "add_writer E t ss = (index_name t, map (index_op E t) (map Op_Add ss))"

text \<open>Among statements that do not collide, equal batches put the same statements.\<close>

lemma add_writer_same:
  assumes "add_writer E t us = add_writer E u ss" and "collision_free E T" and "set ss \<subseteq> T" and "s \<in> set us" and "s \<in> T"
  shows "s \<in> set ss"
proof -
  have eq: "map (index_op E t) (map Op_Add us) = map (index_op E u) (map Op_Add ss)" and "t = u"
    using assms(1) by (auto simp: add_writer_def)
  then have "index_op E t (Op_Add s) \<in> set (map (index_op E t) (map Op_Add ss))"
    using assms(4) by (metis image_eqI list.set_map)
  then obtain v where "v \<in> set ss" "statement_key E t s = statement_key E t v" by auto
  then show ?thesis using assms(2,3,5) by (auto simp: collision_free_def statement_key_eq_iff)
qed

lemma statement_writers_indexes:
  "w \<in> set (statement_writers (batches_of E ops)) \<longleftrightarrow> (\<exists>t. w = (index_name t, map (index_op E t) ops))"
proof -
  have writers: "statement_writers (batches_of E ops) =
      map (\<lambda>t. (index_name t, map (index_op E t) ops)) [PCOS, OPSC, CSPO, SPOC]"
    by (simp add: statement_writers_def batches_of_def)
  have "t \<in> set [PCOS, OPSC, CSPO, SPOC]" for t by (cases t) simp_all
  then show ?thesis unfolding writers set_map image_iff by blast
qed

text \<open>
  While additions are running, every index holds the statements of the beginning and a part of those
  that have been asked for, and the rest is in threads that have still to write that index.
\<close>

definition adding ::
  "('db, 'it) environment \<Rightarrow> ('db, 'it) view \<Rightarrow> proto_Statement set \<Rightarrow> proto_Statement set \<Rightarrow> 'db writers_state \<Rightarrow> bool" where
  "adding E A B T st \<longleftrightarrow>
     (case st of
        Aborted \<Rightarrow> True
      | Running ws p \<Rightarrow>
          (\<forall>w \<in> set ws. \<exists>t ss. w = add_writer E t ss \<and> set ss \<subseteq> T) \<and>
          (\<forall>t. \<exists>S. index_holds E A t (index_db t p) S \<and> B \<subseteq> S \<and> S \<subseteq> T \<and>
             (\<forall>s \<in> T. s \<in> S \<or> (\<exists>ss. s \<in> set ss \<and> add_writer E t ss \<in> set ws))))"


context store
begin

lemma adding_begin:
  assumes "wf_statements E A p"
  shows "adding E A (stored E A p) (stored E A p) (Running [] p)"
  using assms by (auto simp: adding_def wf_statements_def)

lemma adding_start:
  assumes "adding E A B T (Running ws p)"
  shows "adding E A B (T \<union> set ss) (Running (ws @ statement_writers (batches_of E (map Op_Add ss))) p)"
proof -
  have new: "add_writer E t ss \<in> set (statement_writers (batches_of E (map Op_Add ss)))" for t
    by (auto simp: statement_writers_indexes add_writer_def)
  have "\<exists>S. index_holds E A t (index_db t p) S \<and> B \<subseteq> S \<and> S \<subseteq> T \<union> set ss \<and> (\<forall>s \<in> T \<union> set ss. s \<in> S \<or>
      (\<exists>us. s \<in> set us \<and> add_writer E t us \<in> set (ws @ statement_writers (batches_of E (map Op_Add ss)))))" for t
  proof -
    obtain S where "index_holds E A t (index_db t p) S" "B \<subseteq> S" "S \<subseteq> T"
      "\<forall>s \<in> T. s \<in> S \<or> (\<exists>us. s \<in> set us \<and> add_writer E t us \<in> set ws)"
      using assms unfolding adding_def writers_state.case by meson
    then show ?thesis using new [of t] by (intro exI [of _ S]) auto
  qed
  moreover have "\<exists>t us. w = add_writer E t us \<and> set us \<subseteq> T \<union> set ss"
    if "w \<in> set (ws @ statement_writers (batches_of E (map Op_Add ss)))" for w
    using that assms by (fastforce simp: adding_def statement_writers_indexes add_writer_def)
  ultimately show ?thesis by (simp add: adding_def)
qed

lemma adding_write:
  assumes "adding E A B T (Running ws p)" and "collision_free E T" and "(n, b) \<in> set ws"
    and "db_Write E (get_db n p) b = Some d"
  shows "adding E A B T (Running (remove1 (n, b) ws) (set_db n d p))"
proof -
  obtain t ss where w: "(n, b) = add_writer E t ss" "set ss \<subseteq> T"
    using assms(1,3) by (auto simp: adding_def)
  then have n: "n = index_name t" and b: "b = map (index_op E t) (map Op_Add ss)" by (simp_all add: add_writer_def)
  have "\<exists>S. index_holds E A u (index_db u (set_db n d p)) S \<and> B \<subseteq> S \<and> S \<subseteq> T \<and>
      (\<forall>s \<in> T. s \<in> S \<or> (\<exists>us. s \<in> set us \<and> add_writer E u us \<in> set (remove1 (n, b) ws)))" for u
  proof -
    obtain S where S: "index_holds E A u (index_db u p) S" "S \<subseteq> T"
      and "B \<subseteq> S" and S3:
      "\<forall>s \<in> T. s \<in> S \<or> (\<exists>us. s \<in> set us \<and> add_writer E u us \<in> set ws)"
      using assms(1) unfolding adding_def writers_state.case by meson
    note S = S S3 \<open>B \<subseteq> S\<close>
    show ?thesis
    proof (cases "u = t")
      case False
      then have "add_writer E u us \<noteq> (n, b)" for us by (auto simp: n add_writer_def)
      then have "add_writer E u us \<in> set (remove1 (n, b) ws) \<longleftrightarrow> add_writer E u us \<in> set ws" for us
        by (simp add: in_set_remove1)
      with S False show ?thesis by (intro exI [of _ S]) (simp add: n get_set_db)
    next
      case True
      have "index_holds E A u (index_db u (set_db n d p)) (S \<union> set ss)"
        using index_holds_write [of t "index_db t p" S "map Op_Add ss" d] S(1,2) assms(2,4) w(2)
        by (simp add: True n b get_set_db add_ops_union)
      moreover have "s \<in> S \<union> set ss \<or> (\<exists>us. s \<in> set us \<and> add_writer E u us \<in> set (remove1 (n, b) ws))" if "s \<in> T" for s
        using S(3) add_writer_same [OF _ assms(2) w(2) _ that] that w(1) by (metis Un_iff in_set_remove1)
      ultimately show ?thesis using S(2,4) w(2) by (intro exI [of _ "S \<union> set ss"]) auto
    qed
  qed
  moreover have "\<forall>w \<in> set (remove1 (n, b) ws). \<exists>t ss. w = add_writer E t ss \<and> set ss \<subseteq> T"
    using assms(1) set_remove1_subset [of "(n, b)" ws] by (auto simp: adding_def)
  ultimately show ?thesis by (simp add: adding_def)
qed

lemma adding_run:
  assumes "handlers_run E (Running [] p) rs st" and "wf_statements E A p"
    and "\<forall>r \<in> set rs. \<exists>ss. r = Add_request ss" and "collision_free E (stored E A p \<union> \<Union> (added_by ` set rs))"
  shows "adding E A (stored E A p) (stored E A p \<union> \<Union> (added_by ` set rs)) st"
  using assms
proof (induction rule: handlers_run.induct)
  case idle
  then show ?case using adding_begin by simp
next
  case (start_threads rs ws q r b n)
  obtain ss where r: "r = Add_request ss" using start_threads.prems by auto
  have "collision_free E (stored E A p \<union> \<Union> (added_by ` set rs))"
    using start_threads.prems by (auto simp: collision_free_def)
  with start_threads r have "adding E A (stored E A p) (stored E A p \<union> \<Union> (added_by ` set rs)) (Running ws q)" by auto
  from adding_start [OF this, of ss] show ?case
    using start_threads.hyps(2) unfolding r add_request_batches by (simp add: Un_ac)
next
  case (thread_step rs st1 st2)
  then show ?case by (cases rule: writers_step.cases [OF thread_step.hyps(2)]) (auto intro: adding_write simp: adding_def [of E A _ _ Aborted])
qed

lemma adding_done:
  assumes "adding E A B T (Running [] p)" and "\<forall>s \<in> T. stmt_ok A s"
  shows "wf_statements E A p" and "stored E A p = T"
proof -
  have holds: "index_holds E A t (index_db t p) T" for t
  proof -
    have "\<exists>S. index_holds E A t (index_db t p) S \<and> S \<subseteq> T \<and> (\<forall>s \<in> T. s \<in> S)"
      using assms(1) unfolding adding_def writers_state.case by fastforce
    then show ?thesis by (metis subsetI subset_antisym)
  qed
  then show "stored E A p = T" using stored_eq [of p T] holds [of SPOC] assms(2) by simp
  then show "wf_statements E A p" using holds assms(2) by (simp add: wf_statements_def)
qed

end

text \<open>
  C9: Concurrent additions. However the threads of any number of \<open>AddStatements\<close> handlers interleave
  with each other and with the arrival of requests, when all of them have written the four indexes
  are consistent and hold the old statements and all added ones, provided no two of them share all
  four hashes.
\<close>

theorem concurrent_additions:
  assumes "store E A" and "wf_statements E A p" and "handlers_run E (Running [] p) rs (Running [] p')"
    and "\<forall>r \<in> set rs. \<exists>ss. r = Add_request ss" and "\<forall>s \<in> \<Union> (added_by ` set rs). stmt_ok A s"
    and "collision_free E (stored E A p \<union> \<Union> (added_by ` set rs))"
  shows "wf_statements E A p' \<and> stored E A p' = stored E A p \<union> \<Union> (added_by ` set rs)"
proof -
  have "\<forall>s \<in> stored E A p \<union> \<Union> (added_by ` set rs). stmt_ok A s" using assms(2,5) by (auto simp: wf_statements_def)
  then show ?thesis
    using store.adding_done [OF assms(1) store.adding_run [OF assms(1,3,2,4,6)]] by blast
qed

subsection \<open>An addition against a removal\<close>

lemma set_db_write:
  assumes "db_Write E (get_db n p) b = Some d" and "(n, b) \<in> set ws" and "handlers_run E st rs (Running ws p)"
  shows "handlers_run E st rs (Running (remove1 (n, b) ws) (set_db n d p))"
  using assms by (blast intro: handlers_run.thread_step writers_step.thread_writes)

context store
begin

text \<open>The pending threads may write in any order.\<close>

lemma handlers_run_order:
  assumes "handlers_run E st rs (Running ws p)" and "mset ws = mset (us @ vs)" and "\<forall>db b. db_Write E db b \<noteq> None"
  shows "\<exists>p' vs'. run_writers E us p = exec_return p' \<and> handlers_run E st rs (Running vs' p') \<and> mset vs' = mset vs"
  using assms(1,2)
proof (induction us arbitrary: p ws)
  case (Cons w us)
  obtain n b where w: "w = (n, b)" by (cases w)
  obtain d where d: "db_Write E (get_db n p) b = Some d" using assms(3) by blast
  have mem: "(n, b) \<in> set ws" using Cons.prems(2) w by (metis append_Cons list.set_intros(1) set_mset_mset)
  then have "mset (remove1 (n, b) ws) = mset (us @ vs)" using Cons.prems(2) by (simp add: w)
  from Cons.IH [OF set_db_write [OF d mem Cons.prems(1)] this] show ?case by (simp add: w d)
qed auto

text \<open>Writing one operation to one index.\<close>

lemma written_index:
  assumes "written E ws p p'" and "map_of ws (index_name t) = Some (map (index_op E t) ops)"
    and "index_holds E A t (index_db t p) S"
  shows "index_holds E A t (index_db t p') (foldl (apply_stmt_op E) S ops)"
  using index_holds_write [OF assms(3)] assms(1) [unfolded written_def, rule_format, of "index_name t"] assms(2) by simp

lemma pattern_of_result:
  assumes "wf_statements E A p" and "s \<in> stored E A p"
  shows "query_result E A p (pattern_of s) = [s]"
proof -
  have "hits E (stored E A p) (pattern_of s) = {s}"
    using assms stored_unique [OF assms(1,2)] by auto
  then show ?thesis
    using query_result_set(1,2) [OF assms(1), of "pattern_of s"] distinct_set_singleton by metis
qed

lemma readd_and_remove:
  assumes "wf_statements E A p" and "s \<in> stored E A p"
  shows "foldl (apply_stmt_op E) (stored E A p) [Op_Add s] = stored E A p"
    and "foldl (apply_stmt_op E) (stored E A p) [Op_Remove s] = stored E A p - {s}"
    and "foldl (apply_stmt_op E) (stored E A p - {s}) [Op_Add s] = stored E A p"
  using stored_unique [OF assms(1) _ assms(2)] assms(2) by (auto simp: same_hashes_def)

lemma index_holds_unique:
  assumes "index_holds E A t db S" and "index_holds E A t db S'" and "s \<in> S" and "\<forall>u \<in> S'. \<not> same_hashes E s u"
  shows False
proof -
  have "index_entry E t s \<in> index_entry E t ` S'" using assms(1-3) by (auto simp: index_holds_def)
  then show False using assms(4) by (auto simp: index_entry_def statement_key_eq_iff)
qed

text \<open>
  The threads in an order in which the removal is last on one index and the addition on the others.
\<close>

lemma add_remove_order:
  assumes "wf_statements E A p" and "s \<in> stored E A p" and "\<forall>db b. db_Write E db b \<noteq> None"
  defines "add t \<equiv> (index_name t, map (index_op E t) [Op_Add s])"
    and "rem t \<equiv> (index_name t, map (index_op E t) [Op_Remove s])"
  shows "\<exists>p1 p2. run_writers E [add SPOC, rem PCOS, rem OPSC, rem CSPO] p = exec_return p1 \<and>
    run_writers E [add PCOS, add OPSC, add CSPO, rem SPOC] p1 = exec_return p2 \<and>
    index_holds E A SPOC (db_spoc p2) (stored E A p - {s}) \<and> index_holds E A CSPO (db_cspo p2) (stored E A p)"
proof -
  let ?S = "stored E A p"
  let ?us = "[add SPOC, rem PCOS, rem OPSC, rem CSPO]" and ?vs = "[add PCOS, add OPSC, add CSPO, rem SPOC]"
  have ok: "writes_ok E ws q" for ws q using assms(3) by (auto simp: writes_ok_def)
  obtain p1 where p1: "run_writers E ?us p = exec_return p1" "written E ?us p p1"
    using run_writers_result [of ?us E p] ok by (auto simp: add_def rem_def)
  obtain p2 where p2: "run_writers E ?vs p1 = exec_return p2" "written E ?vs p1 p2"
    using run_writers_result [of ?vs E p1] ok by (auto simp: add_def rem_def)
  have p: "index_holds E A t (index_db t p) ?S" for t using assms(1) by (simp add: wf_statements_def)
  note step = readd_and_remove [OF assms(1,2)]
  have "index_holds E A SPOC (index_db SPOC p2) (?S - {s})"
    using written_index [OF p2(2), of SPOC "[Op_Remove s]" ?S] written_index [OF p1(2), of SPOC "[Op_Add s]" ?S] p [of SPOC] step(1,2)
    by (simp add: add_def rem_def)
  moreover have "index_holds E A CSPO (index_db CSPO p2) ?S"
    using written_index [OF p2(2), of CSPO "[Op_Add s]" "?S - {s}"] written_index [OF p1(2), of CSPO "[Op_Remove s]" ?S]
      p [of CSPO] step(2,3)
    by (simp add: add_def rem_def)
  ultimately show ?thesis using p1(1) p2(1) by auto
qed

end

text \<open>
  C32: An addition and a removal at the same time. A statement that is stored is added again by one
  client and removed by another; there is a schedule of the eight writer threads after which the
  statement is gone from one index and still in another, so that the invariant is lost: the store
  does not list the statement any more and still counts it.
\<close>

theorem concurrent_add_remove_diverges:
  assumes "store E A" and "\<forall>db b. db_Write E db b \<noteq> None" and "wf_statements E A p" and "s \<in> stored E A p"
  shows "\<exists>p'. handlers_run E (Running [] p) [Add_request [s], Remove_request (pattern_of s)] (Running [] p') \<and>
    stored E A p' = stored E A p - {s} \<and> index_holds E A CSPO (db_cspo p') (stored E A p) \<and>
    \<not> wf_statements E A p'"
proof -
  let ?add = "statement_writers (batches_of E [Op_Add s])" and ?rem = "statement_writers (batches_of E [Op_Remove s])"
  let ?rs = "[Add_request [s], Remove_request (pattern_of s)]"
  have "request_batches E p (Remove_request (pattern_of s)) = exec_return (batches_of E [Op_Remove s], 1)"
    using store.RemoveStatements_batch_result [OF assms(1), of p "pattern_of s" "[]"]
      store.pattern_of_result [OF assms(1,3,4)]
    by (simp add: batches_new [of E])
  moreover have "request_batches E p (Add_request [s]) = exec_return (batches_of E [Op_Add s], 1)"
    by (simp add: add_request_batches del: request_batches.simps)
  ultimately have start: "handlers_run E (Running [] p) ?rs (Running (?add @ ?rem) p)"
    using handlers_run.start_threads [OF handlers_run.start_threads [OF handlers_run.idle]]
    by (metis append_Nil append_Cons)
  obtain p1 p2 where order: "run_writers E [(index_name SPOC, map (index_op E SPOC) [Op_Add s]),
      (index_name PCOS, map (index_op E PCOS) [Op_Remove s]), (index_name OPSC, map (index_op E OPSC) [Op_Remove s]),
      (index_name CSPO, map (index_op E CSPO) [Op_Remove s])] p = exec_return p1"
    "run_writers E [(index_name PCOS, map (index_op E PCOS) [Op_Add s]), (index_name OPSC, map (index_op E OPSC) [Op_Add s]),
      (index_name CSPO, map (index_op E CSPO) [Op_Add s]), (index_name SPOC, map (index_op E SPOC) [Op_Remove s])] p1 =
      exec_return p2" (is "run_writers E ?vs p1 = _")
    and holds: "index_holds E A SPOC (db_spoc p2) (stored E A p - {s})" "index_holds E A CSPO (db_cspo p2) (stored E A p)"
    using store.add_remove_order [OF assms(1,3,4,2)] by blast
  from store.handlers_run_order [OF assms(1) start _ assms(2), of
      "[(index_name SPOC, map (index_op E SPOC) [Op_Add s]),
      (index_name PCOS, map (index_op E PCOS) [Op_Remove s]), (index_name OPSC, map (index_op E OPSC) [Op_Remove s]),
      (index_name CSPO, map (index_op E CSPO) [Op_Remove s])]" ?vs]
  obtain vs where "handlers_run E (Running [] p) ?rs (Running vs p1)" "mset vs = mset ?vs"
    using order(1) by (auto simp: statement_writers_def batches_of_def)
  from store.handlers_run_order [OF assms(1) this(1) _ assms(2), of ?vs "[]"] this(2) order(2)
  have run: "handlers_run E (Running [] p) ?rs (Running [] p2)" by auto
  have stored: "stored E A p2 = stored E A p - {s}"
    using store.stored_eq [OF assms(1) holds(1)] assms(3) by (auto simp: wf_statements_def)
  have "\<not> wf_statements E A p2"
  proof
    assume wf: "wf_statements E A p2"
    then have "index_holds E A CSPO (index_db CSPO p2) (stored E A p - {s})"
      unfolding wf_statements_def stored by blast
    moreover have "\<forall>u \<in> stored E A p - {s}. \<not> same_hashes E s u"
      using store.stored_unique [OF assms(1,3,4)] by blast
    ultimately show False using store.index_holds_unique [OF assms(1) _ _ assms(4)] holds(2) by simp
  qed
  with run stored holds(2) show ?thesis by blast
qed

theorem concurrent_add_remove_diverges_witness:
  "\<exists>p'. handlers_run (list_environment True) (Running [] (one_statement_store True example_statement))
      [Add_request [example_statement], Remove_request (pattern_of example_statement)] (Running [] p') \<and>
    stored (list_environment True) list_view p' = {} \<and> \<not> wf_statements (list_environment True) list_view p'"
proof -
  have writes: "\<forall>db b. db_Write (list_environment True) db b \<noteq> None" by (simp add: list_environment_def)
  show ?thesis
    using concurrent_add_remove_diverges [OF list_store.store_axioms [of True] writes
        one_statement_store_wf(1) [of True example_statement], of example_statement] by auto
qed

theorem concurrent_additions_witness:
  "\<exists>p'. handlers_run (list_environment True) (Running [] empty_store)
      [Add_request [example_statement], Add_request [example_statement]] (Running [] p') \<and>
    wf_statements (list_environment True) list_view p' \<and>
    stored (list_environment True) list_view p' = {example_statement}"
proof -
  let ?E = "list_environment True" and ?rs = "[Add_request [example_statement], Add_request [example_statement]]"
  let ?ws = "statement_writers (batches_of ?E [Op_Add example_statement])"
  have writes: "\<forall>db b. db_Write ?E db b \<noteq> None" by (simp add: list_environment_def)
  have "request_batches ?E empty_store (Add_request [example_statement]) =
      exec_return (batches_of ?E [Op_Add example_statement], 1)"
    by (simp add: add_request_batches del: request_batches.simps)
  then have "handlers_run ?E (Running [] empty_store) ?rs (Running (?ws @ ?ws) empty_store)"
    using handlers_run.start_threads [OF handlers_run.start_threads [OF handlers_run.idle]]
    by (metis append_Nil append_Cons)
  from list_store.handlers_run_order [OF this, of "?ws @ ?ws" "[]"] writes
  obtain p' where p': "handlers_run ?E (Running [] empty_store) ?rs (Running [] p')" by auto
  have "collision_free ?E {example_statement}" by (simp add: collision_free_def)
  then show ?thesis
    using concurrent_additions [OF list_store.store_axioms [of True] empty_store_wf(1) p'] p' empty_store_wf(2) by auto
qed

end
