(* ===== verification/Sharded_Updates.thy ===== *)
theory Sharded_Updates
  imports Sharded_Store Server_Spec Concurrent_Handlers
begin

text \<open>
  Batch updates and namespaces through the proxy of \<open>sharding/sharding.cc\<close> in front of LevelDB
  backends: the proxy sends an added statement to one shard and everything else to all of them; the
  theorems say that the shards together then hold what one store would hold.
\<close>

subsection \<open>Batches, one statement at a time\<close>

fun batch_step ::
  "(proto_Statement \<Rightarrow> proto_Statement \<Rightarrow> bool) \<Rightarrow> (proto_Statement \<Rightarrow> proto_Statement \<Rightarrow> bool) \<Rightarrow>
   proto_Statement set \<Rightarrow> proto_Statement set \<Rightarrow> UpdateRequest \<Rightarrow> proto_Statement set" where
  "batch_step hit same C0 C (stmt_added s) = insert s {u \<in> C. \<not> same u s}"
| "batch_step hit same C0 C (stmt_removed pattern) = {u \<in> C. \<forall>v \<in> C0. hit pattern v \<longrightarrow> \<not> same u v}"
| "batch_step hit same C0 C _ = C"

fun batch_added :: "UpdateRequest \<Rightarrow> proto_Statement set" where
  "batch_added (stmt_added s) = {s}"
| "batch_added _ = {}"

lemma in_batch_added: "x \<in> batch_added u \<longleftrightarrow> u = stmt_added x"
  by (cases u) auto

text \<open>Whether one statement is stored, through a batch; without collisions nothing else matters.\<close>

fun member_step ::
  "(proto_Statement \<Rightarrow> proto_Statement \<Rightarrow> bool) \<Rightarrow> bool \<Rightarrow> proto_Statement \<Rightarrow> bool \<Rightarrow> UpdateRequest \<Rightarrow> bool" where
  "member_step hit old x m (stmt_added s) = (x = s \<or> m)"
| "member_step hit old x m (stmt_removed pattern) = (m \<and> \<not> (old \<and> hit pattern x))"
| "member_step hit old x m _ = m"

lemma batch_members:
  assumes "\<forall>u \<in> T. \<forall>v \<in> T. same u v \<longleftrightarrow> u = v" and "C0 \<subseteq> T" and "C \<subseteq> T" and "\<Union> (batch_added ` set us) \<subseteq> T"
  shows "x \<in> foldl (batch_step hit same C0) C us \<longleftrightarrow> foldl (member_step hit (x \<in> C0) x) (x \<in> C) us"
  using assms(3,4)
proof (induction us arbitrary: C)
  case (Cons u us)
  have "batch_step hit same C0 C u \<subseteq> T" using Cons.prems by (cases u) auto
  moreover have "x \<in> batch_step hit same C0 C u \<longleftrightarrow> member_step hit (x \<in> C0) x (x \<in> C) u"
  proof (cases u)
    case (stmt_removed q)
    have "(\<exists>v \<in> C0. hit q v \<and> same x v) \<longleftrightarrow> x \<in> C0 \<and> hit q x" if "x \<in> C"
      using that Cons.prems(1) assms(1,2) by (metis subsetD)
    then show ?thesis by (auto simp: stmt_removed)
  qed (use Cons.prems assms(1) in auto)
  ultimately show ?case using Cons.IH [of "batch_step hit same C0 C u"] Cons.prems by simp
qed simp

lemma batch_subset: "foldl (batch_step hit same C0) C us \<subseteq> C \<union> \<Union> (batch_added ` set us)"
proof (induction us arbitrary: C)
  case (Cons u us)
  have "batch_step hit same C0 C u \<subseteq> C \<union> batch_added u" by (cases u) auto
  with Cons [of "batch_step hit same C0 C u"] show ?case by auto
qed simp

text \<open>Additions of other statements may be left out.\<close>

lemma member_filter:
  assumes "\<And>s. stmt_added s \<in> set us \<Longrightarrow> \<not> P (stmt_added s) \<Longrightarrow> s \<noteq> x" and "\<And>u. (\<nexists>s. u = stmt_added s) \<Longrightarrow> P u"
  shows "foldl (member_step hit old x) m (filter P us) = foldl (member_step hit old x) m us"
  using assms(1)
proof (induction us arbitrary: m)
  case (Cons u us)
  have "member_step hit old x m u = m" if "\<not> P u"
    using that assms(2) [of u] Cons.prems [of "case u of stmt_added s \<Rightarrow> s"] by (cases u) auto
  then show ?case using Cons by auto
qed simp

subsection \<open>The contract of a backend that takes batches\<close>

locale update_backend =
  fixes S :: "'b SailStub" and ok :: "'b \<Rightarrow> bool" and contents :: "'b \<Rightarrow> proto_Statement set"
    and valid :: "UpdateRequest \<Rightarrow> bool" and hit :: "proto_Statement \<Rightarrow> proto_Statement \<Rightarrow> bool"
    and same :: "proto_Statement \<Rightarrow> proto_Statement \<Rightarrow> bool"
  assumes finite_contents: "ok b \<Longrightarrow> finite (contents b)"
    and same_refl: "same s s"
    and update: "ok b \<Longrightarrow> \<forall>u \<in> set us. valid u \<Longrightarrow> \<exists>r b'. stub_Update S us b = ((Status_OK, r), b') \<and> ok b' \<and>
      contents b' = foldl (batch_step hit same (contents b)) (contents b) us \<and>
      added_statements r = int (length [u \<leftarrow> us. \<exists>s. u = stmt_added s]) \<and>
      removed_statements r = (\<Sum>u \<leftarrow> us. case u of stmt_removed p \<Rightarrow> int (card {s \<in> contents b. hit p s}) | _ \<Rightarrow> 0)"
begin

text \<open>The requests that a shard receives.\<close>

abbreviation part :: "(proto_Statement \<Rightarrow> 64 word) \<Rightarrow> UpdateRequest list \<Rightarrow> nat \<Rightarrow> nat \<Rightarrow> UpdateRequest list" where
  "part h us n i \<equiv> [q \<leftarrow> us. \<forall>s. q = stmt_added s \<longrightarrow> unat (h s) mod n = i]"

lemma part_members:
  assumes "placed ok contents h bs" and "i < length bs"
    and "\<forall>u \<in> T. \<forall>v \<in> T. same u v \<longrightarrow> u = v" and "T = all_contents contents bs \<union> \<Union> (batch_added ` set us)"
  shows "x \<in> foldl (batch_step hit same (contents (bs ! i))) (contents (bs ! i)) (part h us (length bs) i) \<longleftrightarrow>
    bucket h (length bs) x = i \<and> x \<in> foldl (batch_step hit same (all_contents contents bs)) (all_contents contents bs) us"
proof -
  let ?C = "contents (bs ! i)" and ?all = "all_contents contents bs" and ?part = "part h us (length bs) i"
  have sep: "\<forall>u \<in> T. \<forall>v \<in> T. same u v \<longleftrightarrow> u = v" using assms(3) same_refl by blast
  have sub: "?C \<subseteq> T" "?all \<subseteq> T" "\<Union> (batch_added ` set us) \<subseteq> T" "\<Union> (batch_added ` set ?part) \<subseteq> T"
    using assms(2,4) by (auto simp: all_contents_def)
  have here: "bucket h (length bs) x = i" if "x \<in> foldl (batch_step hit same ?C) ?C ?part"
  proof -
    have "x \<in> ?C \<or> (\<exists>q \<in> set ?part. x \<in> batch_added q)" using that batch_subset by blast
    then show ?thesis using placed_shard(2) [OF assms(1,2)] by (auto simp: in_batch_added)
  qed
  have "x \<in> foldl (batch_step hit same ?C) ?C ?part \<longleftrightarrow> x \<in> foldl (batch_step hit same ?all) ?all us"
    if "bucket h (length bs) x = i"
  proof -
    have old: "x \<in> ?C \<longleftrightarrow> x \<in> ?all"
      using placed_shard(2) [OF assms(1)] that assms(2) by (auto simp: all_contents_def)
    have "foldl (member_step hit (x \<in> ?all) x) (x \<in> ?all) ?part = foldl (member_step hit (x \<in> ?all) x) (x \<in> ?all) us"
      using that by (intro member_filter) auto
    then show ?thesis
      unfolding batch_members [OF sep sub(1,1,4)] batch_members [OF sep sub(2,2,3)] old .
  qed
  with here show ?thesis by blast
qed

lemma part_counts:
  assumes "0 < n"
  shows "(\<Sum>i < n. int (length [u \<leftarrow> part h us n i. \<exists>s. u = stmt_added s])) = int (length [u \<leftarrow> us. \<exists>s. u = stmt_added s])"
    and "(\<Sum>u \<leftarrow> part h us n i. case u of stmt_removed p \<Rightarrow> f p | _ \<Rightarrow> 0) = (\<Sum>u \<leftarrow> us. case u of stmt_removed p \<Rightarrow> f p | _ \<Rightarrow> (0 :: int))"
proof -
  show "(\<Sum>i < n. int (length [u \<leftarrow> part h us n i. \<exists>s. u = stmt_added s])) = int (length [u \<leftarrow> us. \<exists>s. u = stmt_added s])"
  proof (induction us)
    case (Cons u us)
    show ?case
    proof (cases u)
      case (stmt_added s)
      have "int (length [u \<leftarrow> part h (u # us) n i. \<exists>s. u = stmt_added s]) =
          int (length [u \<leftarrow> part h us n i. \<exists>s. u = stmt_added s]) + (if unat (h s) mod n = i then 1 else 0)" for i
        by (simp add: stmt_added)
      then show ?thesis using Cons assms by (simp add: sum.distrib stmt_added)
    qed (use Cons in simp_all)
  qed simp
  show "(\<Sum>u \<leftarrow> part h us n i. case u of stmt_removed p \<Rightarrow> f p | _ \<Rightarrow> 0) = (\<Sum>u \<leftarrow> us. case u of stmt_removed p \<Rightarrow> f p | _ \<Rightarrow> (0 :: int))"
  proof (induction us)
    case (Cons u us)
    then show ?case by (cases u) simp_all
  qed simp
qed

lemma sum_removed:
  assumes "placed ok contents h bs"
  shows "(\<Sum>i < length bs. \<Sum>u \<leftarrow> us. case u of stmt_removed p \<Rightarrow> int (card {s \<in> contents (bs ! i). hit p s}) | _ \<Rightarrow> 0) =
    (\<Sum>u \<leftarrow> us. case u of stmt_removed p \<Rightarrow> int (card {s \<in> all_contents contents bs. hit p s}) | _ \<Rightarrow> 0)"
proof (induction us)
  case (Cons u us)
  have "(\<Sum>i < length bs. case u of stmt_removed p \<Rightarrow> int (card {s \<in> contents (bs ! i). hit p s}) | _ \<Rightarrow> 0) =
      (case u of stmt_removed p \<Rightarrow> int (card {s \<in> all_contents contents bs. hit p s}) | _ \<Rightarrow> 0)"
    using card_placed [OF assms finite_contents] by (cases u) simp_all
  with Cons show ?case by (simp add: sum.distrib)
qed simp

lemma update_all:
  assumes "placed ok contents h bs" and "bs \<noteq> []" and "\<forall>u \<in> set us. valid u"
    and "\<forall>u \<in> T. \<forall>v \<in> T. same u v \<longrightarrow> u = v" and "T = all_contents contents bs \<union> \<Union> (batch_added ` set us)"
  shows "\<exists>r bs'. Sharding_Update S h us bs = exec_return ((Status_OK, r), bs') \<and> placed ok contents h bs' \<and>
    all_contents contents bs' = foldl (batch_step hit same (all_contents contents bs)) (all_contents contents bs) us \<and>
    added_statements r = int (length [u \<leftarrow> us. \<exists>s. u = stmt_added s]) \<and>
    removed_statements r =
      (\<Sum>u \<leftarrow> us. case u of stmt_removed p \<Rightarrow> int (card {s \<in> all_contents contents bs. hit p s}) | _ \<Rightarrow> 0)"
proof -
  let ?n = "length bs" and ?all = "all_contents contents bs"
  let ?p = "\<lambda>i. part h us (length bs) i" and ?C = "\<lambda>i. contents (bs ! i)"
  let ?count = "\<lambda>C. \<Sum>u \<leftarrow> us. case u of stmt_removed p \<Rightarrow> int (card {s \<in> C. hit p s}) | _ \<Rightarrow> 0"
  have n: "0 < ?n" using assms(2) by simp
  have "\<forall>i. \<exists>x. i < ?n \<longrightarrow> stub_Update S (?p i) (bs ! i) = ((Status_OK, fst x), snd x) \<and> ok (snd x) \<and>
      contents (snd x) = foldl (batch_step hit same (?C i)) (?C i) (?p i) \<and>
      added_statements (fst x) = int (length [u \<leftarrow> ?p i. \<exists>s. u = stmt_added s]) \<and>
      removed_statements (fst x) = ?count (?C i)"
    using update [of "bs ! i" "?p i" for i] placed_shard(1) [OF assms(1)] assms(3)
    unfolding part_counts(2) [OF n] by simp
  from choice [OF this] obtain f where f: "i < ?n \<Longrightarrow> stub_Update S (?p i) (bs ! i) = ((Status_OK, fst (f i)), snd (f i))"
    "i < ?n \<Longrightarrow> ok (snd (f i))" "i < ?n \<Longrightarrow> contents (snd (f i)) = foldl (batch_step hit same (?C i)) (?C i) (?p i)"
    "i < ?n \<Longrightarrow> added_statements (fst (f i)) = int (length [u \<leftarrow> ?p i. \<exists>s. u = stmt_added s])"
    "i < ?n \<Longrightarrow> removed_statements (fst (f i)) = ?count (?C i)" for i by blast
  let ?bs = "map (\<lambda>i. snd (f i)) [0..<?n]"
  have members: "x \<in> contents (snd (f i)) \<longleftrightarrow> bucket h ?n x = i \<and> x \<in> foldl (batch_step hit same ?all) ?all us"
    if "i < ?n" for i x unfolding f(3) [OF that] by (rule part_members [OF assms(1) that assms(4,5)])
  have "placed ok contents h ?bs" using f(2) members by (simp add: placed_def)
  moreover have "all_contents contents ?bs = foldl (batch_step hit same ?all) ?all us"
    using members n by (auto simp: all_contents_def)
  moreover have "(\<Sum>i < ?n. added_statements (fst (f i))) = int (length [u \<leftarrow> us. \<exists>s. u = stmt_added s])"
    using f(4) part_counts(1) [OF n, of h us] by simp
  moreover have "(\<Sum>i < ?n. removed_statements (fst (f i))) = ?count ?all"
    unfolding sum_removed [OF assms(1), symmetric] using f(5) by simp
  moreover have "\<exists>r. Sharding_Update S h us bs = exec_return ((Status_OK, r), ?bs) \<and>
      added_statements r = (\<Sum>i < ?n. added_statements (fst (f i))) \<and>
      removed_statements r = (\<Sum>i < ?n. removed_statements (fst (f i)))"
  proof -
    have calls: "map (\<lambda>i. snd (stub_Update S (?p i) (bs ! i))) [0..<?n] = ?bs"
      "map (\<lambda>i. snd (fst (stub_Update S (?p i) (bs ! i)))) [0..<?n] = map (\<lambda>i. fst (f i)) [0..<?n]"
      using f(1) by simp_all
    show ?thesis
      unfolding Sharding_Update_result [OF assms(2)] Let_def calls by (simp add: sum_list_upt comp_def)
  qed
  ultimately show ?thesis by metis
qed

end

subsection \<open>Persistence servers as backends\<close>

context reliable_store
begin

lemma stub_update:
  assumes "wf_store E A b" and "\<forall>u \<in> set us. request_ok A u"
  shows "\<exists>r b'. stub_Update (leveldb_stub E std_hash iteration_order) us b = ((Status_OK, r), b') \<and> wf_store E A b' \<and>
    spec_of E A b' = foldl (spec_update E (spec_of E A b)) (spec_of E A b) us \<and> r = spec_statistics E (spec_of E A b) us"
proof -
  let ?it = "ReaderIterator_new Update_none us"
  have wf: "wf_statements E A b" "wf_namespaces E A b" using assms(1) by simp_all
  have "writes_ok E ws b" for ws using writes_succeed by (auto simp: writes_ok_def)
  then obtain st b' where "Update E ReaderIterator_class ?it b = exec_return (st, b')"
    using Update_result [OF store_axioms reader_iterator.closeable_iterator_axioms TrueI wf, of ?it] assms(2) by auto
  then obtain r where run: "Service_Update E us b = exec_return ((Status_OK, r), b')" by (simp add: Service_Update_def)
  then have "handle_request E std_hash iteration_order b (Req_Update us) = exec_return (Resp_Update Status_OK r, b')" by simp
  from update_simulates [OF assms this] run show ?thesis by (simp add: leveldb_stub_def)
qed

lemma spec_update_statements:
  "sp_statements (foldl (spec_update E S0) S us) =
     foldl (batch_step (\<lambda>pattern s. hash_matches E (effective pattern) s) (same_hashes E) (sp_statements S0)) (sp_statements S) us"
proof (induction us arbitrary: S)
  case (Cons u us)
  have "sp_statements (spec_update E S0 S u) =
      batch_step (\<lambda>pattern s. hash_matches E (effective pattern) s) (same_hashes E) (sp_statements S0) (sp_statements S) u"
    by (cases u) (auto simp: spec_add_def spec_add_namespace_def)
  with Cons show ?case by simp
qed simp

end

sublocale reliable_store \<subseteq> batches: update_backend "leveldb_stub E std_hash iteration_order" "wf_store E A" "stored E A"
  "request_ok A" "\<lambda>pattern s. hash_matches E (effective pattern) s" "same_hashes E"
proof unfold_locales
  fix b us
  assume b: "wf_store E A b" "\<forall>u \<in> set us. request_ok A u"
  from stub_update [OF this] obtain b' where "stub_Update (leveldb_stub E std_hash iteration_order) us b =
      ((Status_OK, spec_statistics E (spec_of E A b) us), b')" "wf_store E A b'"
    and spec: "spec_of E A b' = foldl (spec_update E (spec_of E A b)) (spec_of E A b) us" by blast
  moreover have "stored E A b' = foldl (batch_step (\<lambda>pattern s. hash_matches E (effective pattern) s) (same_hashes E)
      (stored E A b)) (stored E A b) us"
    using arg_cong [OF spec, of sp_statements] by (simp add: spec_update_statements)
  ultimately show "\<exists>r b'. stub_Update (leveldb_stub E std_hash iteration_order) us b = ((Status_OK, r), b') \<and> wf_store E A b' \<and>
      stored E A b' = foldl (batch_step (\<lambda>pattern s. hash_matches E (effective pattern) s) (same_hashes E) (stored E A b)) (stored E A b) us \<and>
      added_statements r = int (length [u \<leftarrow> us. \<exists>s. u = stmt_added s]) \<and>
      removed_statements r = (\<Sum>u \<leftarrow> us. case u of stmt_removed p \<Rightarrow>
        int (card {s \<in> stored E A b. hash_matches E (effective p) s}) | _ \<Rightarrow> 0)"
    unfolding spec_statistics_def spec_of_simps by auto
qed (simp_all add: same_hashes_def)

context reliable_store
begin

lemmas sharded_update = batches.update_all

end

text \<open>
  A batch of updates through the proxy. While the disks do not fail and no two of the statements
  involved have the same four hashes, the shards together hold afterwards exactly what a single
  store would hold: the old statements with the batch applied in order, removals being looked up in
  the statements before the batch. Statements stay on the shard they hash to, and the response
  counts the added statements and, over all shards, the statements that the removals reported.
\<close>

theorem Sharded_update_effect:
  assumes "store E A" and "\<forall>db b. db_Write E db b \<noteq> None"
    and "placed (wf_store E A) (stored E A) h bs" and "bs \<noteq> []" and "\<forall>u \<in> set us. request_ok A u"
    and "collision_free E (sharded_statements E A bs \<union> {s. stmt_added s \<in> set us})"
  shows "\<exists>r bs'. Sharding_Update (leveldb_stub E std_hash order) h us bs = exec_return ((Status_OK, r), bs') \<and>
    placed (wf_store E A) (stored E A) h bs' \<and>
    sharded_statements E A bs' =
      sp_statements (foldl (spec_update E \<lparr>sp_statements = sharded_statements E A bs, sp_prefixes = P, sp_urls = U\<rparr>)
        \<lparr>sp_statements = sharded_statements E A bs, sp_prefixes = P, sp_urls = U\<rparr> us) \<and>
    added_statements r = int (length [u \<leftarrow> us. \<exists>s. u = stmt_added s]) \<and>
    removed_statements r = (\<Sum>u \<leftarrow> us. case u of
      stmt_removed p \<Rightarrow> int (card {s \<in> sharded_statements E A bs. hash_matches E (effective p) s}) | _ \<Rightarrow> 0)"
proof -
  have "\<Union> (batch_added ` set us) = {s. stmt_added s \<in> set us}" by (auto simp: in_batch_added)
  with assms(6) have "\<forall>u \<in> sharded_statements E A bs \<union> \<Union> (batch_added ` set us).
      \<forall>v \<in> sharded_statements E A bs \<union> \<Union> (batch_added ` set us). same_hashes E u v \<longrightarrow> u = v"
    by (simp add: collision_free_def)
  from reliable_store.sharded_update [OF reliableI [OF assms(1,2)] assms(3-5) this refl]
  show ?thesis
    by (simp add: reliable_store.spec_update_statements [OF reliableI [OF assms(1,2)]])
qed

lemma empty_store_shards: "placed (wf_store (list_environment x) list_view) (stored (list_environment x) list_view) h [empty_store, empty_store]"
  by (simp add: placed_def nth_Cons split: nat.split)

theorem Sharded_update_effect_witness:
  "\<exists>r bs'. Sharding_Update (leveldb_stub (list_environment True) (\<lambda>_. 0) rev) (\<lambda>_. 1)
      [stmt_added example_statement, stmt_removed Statement_default] [empty_store, empty_store] =
      exec_return ((Status_OK, r), bs') \<and>
    sharded_statements (list_environment True) list_view bs' = {example_statement} \<and> added_statements r = 1"
proof -
  have writes: "\<forall>db b. db_Write (list_environment True) db b \<noteq> None" by (simp add: list_environment_def)
  have "collision_free (list_environment True) (sharded_statements (list_environment True) list_view [empty_store, empty_store] \<union>
      {s. stmt_added s \<in> set [stmt_added example_statement, stmt_removed Statement_default]})"
    by (simp add: collision_free_def empty_shards(2))
  from Sharded_update_effect [OF list_store.store_axioms [of True] writes empty_store_shards [of True "\<lambda>_. 1"] _ _ this,
      of "\<lambda>_. 0" rev Map.empty Map.empty]
  show ?thesis by (auto simp: empty_shards(2) spec_add_def)
qed

subsection \<open>Namespaces\<close>

text \<open>Every backend holds the same namespaces.\<close>

definition replicated ::
  "('db, 'it) environment \<Rightarrow> ('db, 'it) view \<Rightarrow> (string \<Rightarrow> proto_Namespace option) \<Rightarrow>
   (string \<Rightarrow> proto_Namespace option) \<Rightarrow> 'db LevelDBPersistence list \<Rightarrow> bool" where
  "replicated E A P U bs \<longleftrightarrow>
     (\<forall>b \<in> set bs. wf_store E A b \<and> sp_prefixes (spec_of E A b) = P \<and> sp_urls (spec_of E A b) = U)"

context reliable_store
begin

lemma stub_namespaces:
  assumes "wf_store E A b" and "\<forall>n \<in> set ns. ns_ok A n"
  shows "\<exists>b'. stub_AddNamespaces (leveldb_stub E std_hash iteration_order) ns b = ((Status_OK, int (length ns)), b') \<and>
    wf_store E A b' \<and> spec_of E A b' = foldl spec_add_namespace (spec_of E A b) ns"
proof -
  let ?it = "ReaderIterator_new Namespace_default ns"
  have "writes_ok E ws b" for ws using writes_succeed by (auto simp: writes_ok_def)
  then obtain n b' where "AddNamespaces E ReaderIterator_class ?it b = exec_return (n, b')"
    using AddNamespaces_result [OF store_axioms reader_iterator.closeable_iterator_axioms TrueI conjunct2 [OF assms(1)], of ?it]
      assms(2) by auto
  then have run: "Service_AddNamespaces E ns b = exec_return ((Status_OK, n), b')" by (simp add: Service_AddNamespaces_def)
  then have "handle_request E std_hash iteration_order b (Req_AddNamespaces ns) = exec_return (Resp_Count Status_OK n, b')" by simp
  from add_namespaces_simulates [OF assms this] run show ?thesis by (simp add: leveldb_stub_def)
qed

lemma sharded_add_namespaces:
  assumes "replicated E A P U bs" and "bs \<noteq> []" and "\<forall>n \<in> set ns. ns_ok A n"
  shows "\<exists>bs'. Sharding_AddNamespaces (leveldb_stub E std_hash iteration_order) ns bs =
      exec_return ((Status_OK, int (length ns)), bs') \<and> bs' \<noteq> [] \<and> map (stored E A) bs' = map (stored E A) bs \<and>
    replicated E A (foldl (\<lambda>m n. m(ns_prefix n \<mapsto> n)) P ns) (foldl (\<lambda>m n. m(ns_uri n \<mapsto> n)) U ns) bs'"
proof -
  let ?S = "leveldb_stub E std_hash iteration_order"
  have "\<forall>b. \<exists>b'. b \<in> set bs \<longrightarrow> stub_AddNamespaces ?S ns b = ((Status_OK, int (length ns)), b') \<and>
      wf_store E A b' \<and> spec_of E A b' = foldl spec_add_namespace (spec_of E A b) ns"
    using stub_namespaces [OF _ assms(3)] assms(1) unfolding replicated_def by blast
  from choice [OF this] obtain f where f: "b \<in> set bs \<Longrightarrow> stub_AddNamespaces ?S ns b = ((Status_OK, int (length ns)), f b)"
    "b \<in> set bs \<Longrightarrow> wf_store E A (f b)" "b \<in> set bs \<Longrightarrow> spec_of E A (f b) = foldl spec_add_namespace (spec_of E A b) ns" for b
    by blast
  have calls: "map (stub_AddNamespaces ?S ns) bs = map (\<lambda>b. ((Status_OK, int (length ns)), f b)) bs" using f(1) by simp
  have run: "Sharding_AddNamespaces ?S ns bs = exec_return ((Status_OK, int (length ns)), map f bs)"
    using assms(2) unfolding Sharding_AddNamespaces_def Let_def calls by (cases bs) simp_all
  have "stored E A (f b) = stored E A b" if "b \<in> set bs" for b
    using arg_cong [OF f(3) [OF that], of sp_statements] by (simp add: spec_add_namespace_foldl)
  then have "map (stored E A) (map f bs) = map (stored E A) bs" by simp
  moreover have "replicated E A (foldl (\<lambda>m n. m(ns_prefix n \<mapsto> n)) P ns) (foldl (\<lambda>m n. m(ns_uri n \<mapsto> n)) U ns) (map f bs)"
    using assms(1) f(2,3) unfolding replicated_def by (simp add: spec_add_namespace_foldl del: spec_of_simps)
  ultimately show ?thesis using run assms(2) by (intro exI [of _ "map f bs"]) simp
qed

lemma sharded_get_namespace:
  assumes "replicated E A P U bs" and "bs \<noteq> []" and "ns_prefix pattern \<noteq> '''' \<or> ns_uri pattern \<noteq> ''''"
  shows "Sharding_GetNamespace (leveldb_stub E std_hash iteration_order) rand pattern bs = exec_return
    (case (if ns_prefix pattern \<noteq> '''' then P (ns_prefix pattern) else U (ns_uri pattern)) of
       None \<Rightarrow> (Status_NOT_FOUND, Namespace_default) | Some n \<Rightarrow> (Status_OK, n))"
proof -
  let ?b = "bs ! (rand mod length bs)"
  have b: "wf_namespaces E A ?b" "ns_lookup E A (db_ns_prefix ?b) = P" "ns_lookup E A (db_ns_url ?b) = U"
    using assms(1,2) by (simp_all add: replicated_def)
  show ?thesis
    using Service_GetNamespace_result [OF store_axioms b(1) assms(3), of Namespace_default] assms(2)
    unfolding b(2,3) by (simp add: Sharding_GetNamespace_def leveldb_stub_def Let_def)
qed

end

text \<open>
  Namespaces through the proxy. When all backends hold the same namespaces and the disks do not
  fail, adding namespaces adds them to every backend, reports their number once and leaves the
  statements alone; afterwards a lookup gives the same answer whichever backend \<open>rand()\<close> selects,
  the namespace last stored under the prefix or the URI of the request.
\<close>

theorem Sharded_namespaces:
  assumes "store E A" and "\<forall>db b. db_Write E db b \<noteq> None" and "replicated E A P U bs" and "bs \<noteq> []"
    and "\<forall>n \<in> set ns. ns_ok A n"
  defines "P' \<equiv> foldl (\<lambda>m n. m(ns_prefix n \<mapsto> n)) P ns" and "U' \<equiv> foldl (\<lambda>m n. m(ns_uri n \<mapsto> n)) U ns"
  shows "\<exists>bs'. Sharding_AddNamespaces (leveldb_stub E std_hash order) ns bs = exec_return ((Status_OK, int (length ns)), bs') \<and>
    map (stored E A) bs' = map (stored E A) bs \<and> replicated E A P' U' bs' \<and>
    (\<forall>rand pattern. ns_prefix pattern \<noteq> '''' \<or> ns_uri pattern \<noteq> '''' \<longrightarrow>
      Sharding_GetNamespace (leveldb_stub E std_hash order) rand pattern bs' = exec_return
        (case (if ns_prefix pattern \<noteq> '''' then P' (ns_prefix pattern) else U' (ns_uri pattern)) of
           None \<Rightarrow> (Status_NOT_FOUND, Namespace_default) | Some n \<Rightarrow> (Status_OK, n)))"
proof -
  note r = reliableI [OF assms(1,2)]
  obtain bs' where "Sharding_AddNamespaces (leveldb_stub E std_hash order) ns bs = exec_return ((Status_OK, int (length ns)), bs')"
    "bs' \<noteq> []" "map (stored E A) bs' = map (stored E A) bs" "replicated E A P' U' bs'"
    using reliable_store.sharded_add_namespaces [OF r assms(3-5)] unfolding P'_def U'_def by blast
  then show ?thesis using reliable_store.sharded_get_namespace [OF r] by blast
qed

theorem Sharded_namespaces_witness:
  "\<exists>bs'. Sharding_AddNamespaces (leveldb_stub (list_environment True) (\<lambda>_. 0) rev) [example_namespace] [empty_store, empty_store] =
      exec_return ((Status_OK, 1), bs') \<and>
    Sharding_GetNamespace (leveldb_stub (list_environment True) (\<lambda>_. 0) rev) 7 (Namespace_new ''foaf'' '''') bs' =
      exec_return (Status_OK, example_namespace)"
proof -
  have writes: "\<forall>db b. db_Write (list_environment True) db b \<noteq> None" by (simp add: list_environment_def)
  have "replicated (list_environment True) list_view (\<lambda>_. None) (\<lambda>_. None) [empty_store, empty_store]"
    by (simp add: replicated_def)
  from Sharded_namespaces [OF list_store.store_axioms [of True] writes this, of "[example_namespace]" "\<lambda>_. 0" rev]
  show ?thesis by (auto simp: example_namespace_def Namespace_new_def Namespace_default_def)
qed

end
