(* ===== verification/Proxy_Spec.thy ===== *)
theory Proxy_Spec
  imports Sharded_Updates
begin

text \<open>
  The sharding proxy as a server of its own: its handlers (\<open>sharding/sharding.cc\<close>) in front of
  persistence servers implement the specification of \<open>Server_Spec\<close>, the specification that a single
  persistence server implements. The statements of the specification are spread over the shards by
  hash, the namespaces are replicated on all of them.
\<close>

text \<open>
  The handler that serves a request. \<open>rand\<close> is the number drawn for the choice of a backend,
  \<open>schedule\<close> the interleaving of the threads of the request, which read from the backends or add
  the responses of the backends up.
\<close>

fun proxy_request ::
  "'b SailStub \<Rightarrow> (proto_Statement \<Rightarrow> 64 word) \<Rightarrow> (proto_Resource \<Rightarrow> 64 word) \<Rightarrow>
   (proto_Resource list \<Rightarrow> proto_Resource list) \<Rightarrow> nat \<Rightarrow> nat list \<Rightarrow> 'b list \<Rightarrow> SailRequest \<Rightarrow>
   (SailResponse \<times> 'b list) exec" where
  "proxy_request S h rhash order rand schedule bs (Req_AddNamespaces ns) =
     exec_bind (Sharding_AddNamespaces S ns bs) (\<lambda>((st, n), bs). exec_return (Resp_Count st n, bs))"
| "proxy_request S h rhash order rand schedule bs (Req_GetNamespace pattern) =
     exec_bind (Sharding_GetNamespace S rand pattern bs) (\<lambda>(st, n). exec_return (Resp_Namespace st n, bs))"
| "proxy_request S h rhash order rand schedule bs Req_GetNamespaces =
     exec_bind (Sharding_GetNamespaces S rand collect [] bs) (\<lambda>(st, ns). exec_return (Resp_Namespaces st ns, bs))"
| "proxy_request S h rhash order rand schedule bs (Req_AddStatements ss) =
     exec_bind (Sharding_AddStatements S h ss bs) (\<lambda>((st, n), bs). exec_return (Resp_Count st n, bs))"
| "proxy_request S h rhash order rand schedule bs (Req_GetStatements pattern) =
     (let (st, ss) = Sharding_GetStatements S schedule pattern collect [] bs in exec_return (Resp_Statements st ss, bs))"
| "proxy_request S h rhash order rand schedule bs (Req_RemoveStatements pattern) =
     (let ((st, n), bs) = Sharding_RemoveStatements S schedule pattern bs in exec_return (Resp_Count st n, bs))"
| "proxy_request S h rhash order rand schedule bs (Req_Update us) =
     exec_bind (Sharding_Update S h us bs) (\<lambda>((st, r), bs). exec_return (Resp_Update st r, bs))"
| "proxy_request S h rhash order rand schedule bs (Req_Clear contexts) =
     (let ((st, n), bs) = Sharding_Clear S schedule contexts bs in exec_return (Resp_Count st n, bs))"
| "proxy_request S h rhash order rand schedule bs (Req_Size contexts) =
     (let ((st, n), bs) = Sharding_Size S schedule contexts bs in exec_return (Resp_Count st n, bs))"
| "proxy_request S h rhash order rand schedule bs Req_GetContexts =
     exec_bind (Sharding_GetContexts S rhash order schedule collect [] bs) (\<lambda>(st, cs). exec_return (Resp_Contexts st cs, bs))"

subsection \<open>Replicas\<close>

abbreviation replica ::
  "('db, 'it) environment \<Rightarrow> ('db, 'it) view \<Rightarrow> (string \<Rightarrow> proto_Namespace option) \<Rightarrow>
   (string \<Rightarrow> proto_Namespace option) \<Rightarrow> 'db LevelDBPersistence \<Rightarrow> bool" where
  "replica E A P U b \<equiv>
     wf_store E A b \<and> sp_prefixes (spec_of E A b) = P \<and> sp_urls (spec_of E A b) = U"

lemma call_update_OK: "call_update d p e = ((Status_OK, v), p') \<Longrightarrow> e = exec_return ((Status_OK, v), p')"
  by (auto simp: call_update_def exec_return_def split: option.splits sum.splits)

fun changes_statements :: "SailRequest \<Rightarrow> bool" where
  "changes_statements (Req_AddStatements ss) = True"
| "changes_statements (Req_RemoveStatements pattern) = True"
| "changes_statements (Req_Clear contexts) = True"
| "changes_statements r = False"

context reliable_store
begin

text \<open>Requests about statements leave the namespaces alone.\<close>

lemma statements_only:
  assumes "replica E A P U b" and "handle_request E std_hash iteration_order b r = exec_return (resp, b')" and "sail_request_ok A r"
    and "changes_statements r"
  shows "replica E A P U b'"
  using handle_simulates [OF _ assms(3) _ assms(2)] assms(1,4) by (cases r) (auto simp: spec_add_foldl spec_of_def [of E A b'])

lemma replica_add:
  assumes "replica E A P U b" and "\<forall>s \<in> set ss. stmt_ok A s"
  shows "\<exists>b'. stub_AddStatements (leveldb_stub E std_hash iteration_order) ss b = ((Status_OK, int (length ss)), b') \<and>
    replica E A P U b' \<and> stored E A b' = foldl (\<lambda>C s. insert s {u \<in> C. \<not> same_hashes E u s}) (stored E A b) ss"
proof -
  obtain b' where b': "stub_AddStatements (leveldb_stub E std_hash iteration_order) ss b = ((Status_OK, int (length ss)), b')"
    "stored E A b' = foldl (\<lambda>C s. insert s {u \<in> C. \<not> same_hashes E u s}) (stored E A b) ss"
    using stub_add assms by blast
  then have "handle_request E std_hash iteration_order b (Req_AddStatements ss) = exec_return (Resp_Count Status_OK (int (length ss)), b')"
    by (auto simp: leveldb_stub_def dest!: call_update_OK)
  from statements_only [OF assms(1) this] assms(2) have "replica E A P U b'" by simp
  with b' show ?thesis by blast
qed

lemma replica_remove:
  assumes "replica E A P U b"
  shows "\<exists>b'. stub_RemoveStatements (leveldb_stub E std_hash iteration_order) pattern b =
      ((Status_OK, int (card {s \<in> stored E A b. hash_matches E (effective pattern) s})), b') \<and>
    replica E A P U b' \<and> stored E A b' = {s \<in> stored E A b. \<not> hash_matches E (effective pattern) s}"
proof -
  let ?n = "int (card {s \<in> stored E A b. hash_matches E (effective pattern) s})"
  obtain b' where b': "stub_RemoveStatements (leveldb_stub E std_hash iteration_order) pattern b = ((Status_OK, ?n), b')"
    "stored E A b' = {s \<in> stored E A b. \<not> hash_matches E (effective pattern) s}"
    using stub_remove assms by blast
  then have "handle_request E std_hash iteration_order b (Req_RemoveStatements pattern) = exec_return (Resp_Count Status_OK ?n, b')"
    by (auto simp: leveldb_stub_def dest!: call_update_OK)
  from statements_only [OF assms this] have "replica E A P U b'" by simp
  with b' show ?thesis by blast
qed

lemma replica_clear:
  assumes "replica E A P U b"
  shows "\<exists>b'. stub_Clear (leveldb_stub E std_hash iteration_order) contexts b =
      ((Status_OK, int (card {s \<in> stored E A b. contexts = [] \<or> in_contexts E contexts s})), b') \<and>
    replica E A P U b' \<and> stored E A b' = {s \<in> stored E A b. \<not> (contexts = [] \<or> in_contexts E contexts s)}"
proof -
  let ?n = "int (card {s \<in> stored E A b. contexts = [] \<or> in_contexts E contexts s})"
  obtain b' where b': "stub_Clear (leveldb_stub E std_hash iteration_order) contexts b = ((Status_OK, ?n), b')"
    "stored E A b' = {s \<in> stored E A b. \<not> (contexts = [] \<or> in_contexts E contexts s)}"
    using stub_clear [of b contexts] assms by auto
  then have "handle_request E std_hash iteration_order b (Req_Clear contexts) = exec_return (Resp_Count Status_OK ?n, b')"
    by (auto simp: leveldb_stub_def dest!: call_update_OK)
  from statements_only [OF assms this] have "replica E A P U b'" by simp
  with b' show ?thesis by blast
qed

end

sublocale reliable_store \<subseteq> replicas: sail_backend "leveldb_stub E std_hash iteration_order" "replica E A P U"
  "stored E A" "\<lambda>pattern s. hash_matches E (effective pattern) s" "stmt_ok A" "same_hashes E"
  "\<lambda>contexts s. contexts = [] \<or> in_contexts E contexts s" for P U
proof unfold_locales
  fix b ss pattern contexts
  assume b: "replica E A P U b"
  then have wf: "wf_statements E A b" by simp
  show "finite (stored E A b)" by simp
  show "\<forall>s \<in> set ss. stmt_ok A s \<Longrightarrow>
      \<exists>b'. stub_AddStatements (leveldb_stub E std_hash iteration_order) ss b = ((Status_OK, int (length ss)), b') \<and>
      replica E A P U b' \<and> stored E A b' = foldl (\<lambda>C s. insert s {u \<in> C. \<not> same_hashes E u s}) (stored E A b) ss"
    by (rule replica_add [OF b])
qed (rule stub_get replica_remove replica_clear stub_size, (assumption | simp))+


text \<open>Reading namespaces from one replica.\<close>

lemma spec_namespaces_cong:
  "sp_prefixes S = sp_prefixes S' \<Longrightarrow> sp_urls S = sp_urls S' \<Longrightarrow> spec_namespaces S pattern = spec_namespaces S' pattern"
  by (simp add: spec_namespaces_def)

context reliable_store
begin

lemma replica_get_namespace:
  assumes "replica E A (sp_prefixes S) (sp_urls S) b"
  shows "spec_allows E S (Req_GetNamespace pattern)
    (Resp_Namespace (fst (stub_GetNamespace (leveldb_stub E std_hash iteration_order) pattern b))
      (snd (stub_GetNamespace (leveldb_stub E std_hash iteration_order) pattern b))) S"
proof -
  have eq: "spec_namespaces (spec_of E A b) pattern = spec_namespaces S pattern"
    using assms by (intro spec_namespaces_cong) simp_all
  obtain st n where run: "Service_GetNamespace E b pattern Namespace_default = exec_return (st, n)"
    by (cases "ns_result E A b pattern = []") (auto simp: Service_GetNamespace_def GetNamespaces_result last_namespace)
  then have "handle_request E std_hash iteration_order b (Req_GetNamespace pattern) = exec_return (Resp_Namespace st n, b)" by simp
  from read_simulates [OF _ _ this] assms have "spec_allows E (spec_of E A b) (Req_GetNamespace pattern) (Resp_Namespace st n) (spec_of E A b)"
    by blast
  then show ?thesis using run unfolding spec_allows.simps eq by (auto simp: leveldb_stub_def split: if_splits)
qed

lemma replica_get_namespaces:
  assumes "replica E A (sp_prefixes S) (sp_urls S) b"
  shows "spec_allows E S Req_GetNamespaces
    (Resp_Namespaces (fst (stub_GetNamespaces (leveldb_stub E std_hash iteration_order) b))
      (snd (stub_GetNamespaces (leveldb_stub E std_hash iteration_order) b))) S"
proof -
  obtain st ns where run: "Service_GetNamespaces E b collect [] = exec_return (st, ns)"
    by (auto simp: Service_GetNamespaces_def GetNamespaces_result)
  then have "handle_request E std_hash iteration_order b Req_GetNamespaces = exec_return (Resp_Namespaces st ns, b)" by simp
  from read_simulates [OF _ _ this] assms have "spec_allows E (spec_of E A b) Req_GetNamespaces (Resp_Namespaces st ns) (spec_of E A b)"
    by blast
  then show ?thesis using run assms by (simp add: leveldb_stub_def)
qed

end


subsection \<open>Batches\<close>

text \<open>The requests of a batch that do not add a statement act on the namespaces of every replica.\<close>

lemma spec_update_namespaces:
  assumes "sp_prefixes S0 = sp_prefixes S0'" and "sp_urls S0 = sp_urls S0'"
    and "sp_prefixes S = sp_prefixes S'" and "sp_urls S = sp_urls S'" and "\<And>u. (\<nexists>s. u = stmt_added s) \<Longrightarrow> keep u"
  shows "sp_prefixes (foldl (spec_update E S0) S (filter keep us)) = sp_prefixes (foldl (spec_update E S0') S' us) \<and>
    sp_urls (foldl (spec_update E S0) S (filter keep us)) = sp_urls (foldl (spec_update E S0') S' us)"
  using assms(3,4)
proof (induction us arbitrary: S S')
  case (Cons u us)
  have cong: "spec_namespaces S0 pattern = spec_namespaces S0' pattern" for pattern
    by (rule spec_namespaces_cong [OF assms(1,2)])
  let ?S = "if keep u then spec_update E S0 S u else S"
  have "sp_prefixes ?S = sp_prefixes (spec_update E S0' S' u) \<and> sp_urls ?S = sp_urls (spec_update E S0' S' u)"
    using Cons.prems assms(5) by (cases u) (simp_all add: spec_add_def spec_add_namespace_def cong)
  moreover have "foldl (spec_update E S0) S (filter keep (u # us)) = foldl (spec_update E S0) ?S (filter keep us)" by simp
  ultimately show ?case using Cons.IH [of ?S "spec_update E S0' S' u"] by (simp only: foldl_Cons)
qed simp

context reliable_store
begin

lemma replicas_update:
  assumes "\<forall>b \<in> set bs. replica E A (sp_prefixes S) (sp_urls S) b" and "bs \<noteq> []" and "\<forall>u \<in> set us. request_ok A u"
    and "Sharding_Update (leveldb_stub E std_hash iteration_order) h us bs = exec_return ((st, r), bs')"
  shows "length bs' = length bs \<and>
    (\<forall>b \<in> set bs'. replica E A (sp_prefixes (foldl (spec_update E S) S us)) (sp_urls (foldl (spec_update E S) S us)) b) \<and>
    added_namespaces r = int (length bs) * int (length [u \<leftarrow> us. \<exists>n. u = ns_added n]) \<and> removed_namespaces r = 0"
proof -
  let ?stub = "leveldb_stub E std_hash iteration_order" and ?n = "length bs"
  let ?p = "\<lambda>i. [q \<leftarrow> us. \<forall>s. q = stmt_added s \<longrightarrow> unat (h s) mod length bs = i]"
  have parts: "[u \<leftarrow> ?p i. \<exists>n. u = ns_added n] = [u \<leftarrow> us. \<exists>n. u = ns_added n]" for i
    by (induction us) auto
  have call: "replica E A (sp_prefixes (foldl (spec_update E S) S us)) (sp_urls (foldl (spec_update E S) S us))
        (snd (stub_Update ?stub (?p i) (bs ! i))) \<and>
      added_namespaces (snd (fst (stub_Update ?stub (?p i) (bs ! i)))) = int (length [u \<leftarrow> us. \<exists>n. u = ns_added n]) \<and>
      removed_namespaces (snd (fst (stub_Update ?stub (?p i) (bs ! i)))) = 0" if "i < ?n" for i
  proof -
    have b: "replica E A (sp_prefixes S) (sp_urls S) (bs ! i)" using assms(1) that by simp
    have "\<forall>u \<in> set (?p i). request_ok A u" using assms(3) by simp
    from stub_update [OF _ this] b obtain b' where "stub_Update ?stub (?p i) (bs ! i) =
        ((Status_OK, spec_statistics E (spec_of E A (bs ! i)) (?p i)), b')" "wf_store E A b'"
      and spec: "spec_of E A b' = foldl (spec_update E (spec_of E A (bs ! i))) (spec_of E A (bs ! i)) (?p i)" by blast
    moreover have "sp_prefixes (spec_of E A b') = sp_prefixes (foldl (spec_update E S) S us)"
      "sp_urls (spec_of E A b') = sp_urls (foldl (spec_update E S) S us)"
      unfolding spec using b by (auto intro!: spec_update_namespaces [THEN conjunct1] spec_update_namespaces [THEN conjunct2])
    ultimately show ?thesis by (simp add: spec_statistics_def parts del: spec_of_simps filter_filter)
  qed
  have run: "bs' = map (\<lambda>i. snd (stub_Update ?stub (?p i) (bs ! i))) [0..<?n]"
    "added_namespaces r = (\<Sum>i < ?n. added_namespaces (snd (fst (stub_Update ?stub (?p i) (bs ! i)))))"
    "removed_namespaces r = (\<Sum>i < ?n. removed_namespaces (snd (fst (stub_Update ?stub (?p i) (bs ! i)))))"
    using assms(4) unfolding Sharding_Update_result [OF assms(2)] Let_def by (auto simp: sum_list_upt comp_def)
  show ?thesis unfolding run using call by simp
qed

end


subsection \<open>The proxy simulates the specification\<close>

text \<open>
  The shards stand for a state of the specification: its statements are spread over them by hash,
  and every shard holds its namespaces.
\<close>

definition represents ::
  "('db, 'it) environment \<Rightarrow> ('db, 'it) view \<Rightarrow> (proto_Statement \<Rightarrow> 64 word) \<Rightarrow> 'db LevelDBPersistence list \<Rightarrow>
   spec_state \<Rightarrow> bool" where
  "represents E A h bs S \<longleftrightarrow>
     bs \<noteq> [] \<and> placed (replica E A (sp_prefixes S) (sp_urls S)) (stored E A) h bs \<and>
     sp_statements S = sharded_statements E A bs"

text \<open>
  The requests that the proxy answers as one server would. A batch that adds namespaces is not
  among them, its response counts each of them once per backend; nor is the request for the
  contexts, which ends the process.
\<close>

fun proxy_request_ok :: "('db, 'it) view \<Rightarrow> proto_Statement set \<Rightarrow> SailRequest \<Rightarrow> bool" where
  "proxy_request_ok A T (Req_AddStatements ss) \<longleftrightarrow> sail_request_ok A (Req_AddStatements ss) \<and> set ss \<subseteq> T"
| "proxy_request_ok A T (Req_Update us) \<longleftrightarrow> sail_request_ok A (Req_Update us) \<and>
     (\<forall>s. stmt_added s \<in> set us \<longrightarrow> s \<in> T) \<and> (\<forall>n. ns_added n \<notin> set us)"
| "proxy_request_ok A T Req_GetContexts \<longleftrightarrow> False"
| "proxy_request_ok A T r \<longleftrightarrow> sail_request_ok A r"

lemma placed_mono:
  "placed ok contents h bs \<Longrightarrow> (\<And>b. ok b \<Longrightarrow> ok' b) \<Longrightarrow> placed ok' contents h bs"
  by (simp add: placed_def)

lemma placed_all: "placed ok contents h bs \<Longrightarrow> \<forall>b \<in> set bs. ok b"
  by (auto simp: placed_def in_set_conv_nth)

lemma placedI:
  assumes "placed ok contents h bs" and "\<forall>b \<in> set bs'. ok' b" and "map contents bs' = map contents bs"
  shows "placed ok' contents h bs'" and "all_contents contents bs' = all_contents contents bs"
proof -
  have "length bs' = length bs" using arg_cong [OF assms(3), of length] by simp
  moreover from this have "contents (bs' ! i) = contents (bs ! i)" if "i < length bs" for i
    using arg_cong [OF assms(3), of "\<lambda>xs. xs ! i"] that by simp
  ultimately show "placed ok' contents h bs'" "all_contents contents bs' = all_contents contents bs"
    using assms(1,2) by (simp_all add: placed_def all_contents_def)
qed

text \<open>
  A count that threads have added up without a lock: at most the right number, and that number when there is one backend.
\<close>

definition count_within :: "nat \<Rightarrow> int \<Rightarrow> int \<Rightarrow> bool" where
  "count_within backends m n \<longleftrightarrow> 0 \<le> m \<and> m \<le> n \<and> (backends = 1 \<longrightarrow> m = n)"

text \<open>
  When an answer of the proxy stands for an answer of the specification: the same one, except
  that the counts of the requests that fan out may be too small.
\<close>

fun summed :: "SailRequest \<Rightarrow> bool" where
  "summed (Req_RemoveStatements pattern) = True"
| "summed (Req_Clear contexts) = True"
| "summed (Req_Size contexts) = True"
| "summed r = False"

definition answer_within :: "nat \<Rightarrow> SailRequest \<Rightarrow> SailResponse \<Rightarrow> SailResponse \<Rightarrow> bool" where
  "answer_within backends r resp resp' \<longleftrightarrow>
     resp = resp' \<or> (summed r \<and> (\<exists>st m n. resp = Resp_Count st m \<and> resp' = Resp_Count st n \<and> count_within backends m n))"

lemma answer_same [simp]: "answer_within backends r resp resp"
  by (simp add: answer_within_def)

lemma answer_summed: "summed r \<Longrightarrow> count_within backends m n \<Longrightarrow> answer_within backends r (Resp_Count st m) (Resp_Count st n)"
  by (auto simp: answer_within_def)

lemma Sharding_lengths:
  "Sharding_AddStatements S h ss bs = exec_return (x, bs') \<Longrightarrow> length bs' = length bs"
  "Fanout call schedule bs = (x, bs') \<Longrightarrow> length bs' = length bs"
  "Sharding_AddNamespaces S ns bs = exec_return (x, bs') \<Longrightarrow> length bs' = length bs"
  by (auto simp: Sharding_AddStatements_result Fanout_def Sharding_AddNamespaces_def Let_def exec_return_def exec_throw_def
      split: if_splits list.splits)

lemma Sharding_Update_length:
  assumes "Sharding_Update S h us bs = exec_return (x, bs')"
  shows "length bs' = length bs"
proof (cases "bs = []")
  case True
  then show ?thesis using assms
    by (auto simp: Sharding_Update_def exec_bind_def exec_return_def split: option.splits sum.splits)
next
  case False
  then show ?thesis using assms unfolding Sharding_Update_result [OF False] Let_def by (auto simp: exec_return_def)
qed

text \<open>No request changes the number of backends.\<close>

lemma proxy_request_length:
  assumes "proxy_request S h rhash order rand schedule bs r = exec_return (resp, bs')"
  shows "length bs' = length bs"
proof -
  have bind: "\<exists>x. e = exec_return x \<and> f x = exec_return y" if "exec_bind e f = exec_return y" for e :: "'x exec" and f and y :: 'y
    using that by (auto simp: exec_bind_def exec_return_def split: option.splits sum.splits)
  show ?thesis using assms
    by (cases r) (auto simp: case_prod_beta Let_def Sharding_RemoveStatements_def Sharding_Clear_def Sharding_Size_def
        Fanout_def dest!: bind dest: Sharding_lengths(1,3) Sharding_Update_length)
qed

context reliable_store
begin

lemma proxy_add_namespaces:
  assumes "represents E A h bs S" and "\<forall>n \<in> set ns. ns_ok A n"
  shows "\<exists>bs'. Sharding_AddNamespaces (leveldb_stub E std_hash iteration_order) ns bs =
      exec_return ((Status_OK, int (length ns)), bs') \<and> represents E A h bs' (foldl spec_add_namespace S ns)"
proof -
  have shards: "placed (replica E A (sp_prefixes S) (sp_urls S)) (stored E A) h bs" "bs \<noteq> []"
    "sp_statements S = sharded_statements E A bs" using assms(1) by (simp_all add: represents_def)
  then have "replicated E A (sp_prefixes S) (sp_urls S) bs"
    using placed_all [OF shards(1)] by (simp add: replicated_def)
  from sharded_add_namespaces [OF this shards(2) assms(2)] obtain bs' where
    bs': "Sharding_AddNamespaces (leveldb_stub E std_hash iteration_order) ns bs = exec_return ((Status_OK, int (length ns)), bs')"
    "bs' \<noteq> []" "map (stored E A) bs' = map (stored E A) bs"
    "replicated E A (foldl (\<lambda>m n. m(ns_prefix n \<mapsto> n)) (sp_prefixes S) ns) (foldl (\<lambda>m n. m(ns_uri n \<mapsto> n)) (sp_urls S) ns) bs'"
    by blast
  have "\<forall>b \<in> set bs'. replica E A (sp_prefixes (foldl spec_add_namespace S ns)) (sp_urls (foldl spec_add_namespace S ns)) b"
    using bs'(4) by (simp add: replicated_def spec_add_namespace_foldl)
  from placedI [OF shards(1) this bs'(3)] have "represents E A h bs' (foldl spec_add_namespace S ns)"
    using bs'(2) shards(3) by (simp add: represents_def spec_add_namespace_foldl)
  with bs'(1) show ?thesis by blast
qed

lemma proxy_add_statements:
  assumes "represents E A h bs S" and "\<forall>s \<in> set ss. stmt_ok A s" and "collision_free E T"
    and "sp_statements S \<union> set ss \<subseteq> T"
  shows "\<exists>bs'. Sharding_AddStatements (leveldb_stub E std_hash iteration_order) h ss bs =
      exec_return ((Status_OK, int (length ss)), bs') \<and> represents E A h bs' (foldl (spec_add E) S ss)"
proof -
  have shards: "placed (replica E A (sp_prefixes S) (sp_urls S)) (stored E A) h bs" "bs \<noteq> []"
    "sp_statements S = sharded_statements E A bs" using assms(1) by (simp_all add: represents_def)
  have sep: "\<forall>u \<in> sharded_statements E A bs \<union> set ss. \<forall>v \<in> sharded_statements E A bs \<union> set ss. same_hashes E u v \<longrightarrow> u = v"
    using assms(3,4) unfolding shards(3) collision_free_def by blast
  obtain bs' where bs': "Sharding_AddStatements (leveldb_stub E std_hash iteration_order) h ss bs =
      exec_return ((Status_OK, int (length ss)), bs')" "placed (replica E A (sp_prefixes S) (sp_urls S)) (stored E A) h bs'"
    "sharded_statements E A bs' = sharded_statements E A bs \<union> set ss"
    using replicas.add_all [OF shards(1,2) assms(2)] sep by blast
  have "foldl (apply_stmt_op E) (sp_statements S) (map Op_Add ss) = sp_statements S \<union> set ss"
    using replicas.added_exact [OF sep] shards(3) by (simp add: foldl_map)
  then have "represents E A h bs' (foldl (spec_add E) S ss)"
    using bs' Sharding_lengths(1) [OF bs'(1)] shards(2,3) by (auto simp: represents_def spec_add_foldl)
  with bs'(1) show ?thesis by blast
qed


text \<open>The operations that fan out: under every schedule the shards change as they should; the count may be too small.\<close>

lemma proxy_remove:
  assumes "represents E A h bs S"
  shows "\<exists>n bs'. Sharding_RemoveStatements (leveldb_stub E std_hash iteration_order) schedule pattern bs = ((Status_OK, n), bs') \<and>
    count_within (length bs) n (int (card (hits E (sp_statements S) pattern))) \<and>
    represents E A h bs' (S\<lparr>sp_statements := sp_statements S - hits E (sp_statements S) pattern\<rparr>)"
proof -
  have shards: "placed (replica E A (sp_prefixes S) (sp_urls S)) (stored E A) h bs" "bs \<noteq> []"
    "sp_statements S = sharded_statements E A bs" using assms(1) by (simp_all add: represents_def)
  obtain bs' where bs': "Sharding_RemoveStatements (leveldb_stub E std_hash iteration_order) [] pattern bs =
      ((Status_OK, int (card (hits E (sharded_statements E A bs) pattern))), bs')"
    "placed (replica E A (sp_prefixes S) (sp_urls S)) (stored E A) h bs'"
    "sharded_statements E A bs' = {s \<in> sharded_statements E A bs. \<not> hash_matches E (effective pattern) s}"
    using replicas.remove_all [OF shards(1), of pattern] by blast
  have "0 \<le> snd (fst (stub_RemoveStatements (leveldb_stub E std_hash iteration_order) pattern b))" if "b \<in> set bs" for b
    using replica_remove [OF bspec [OF placed_all [OF shards(1)] that], of pattern] by auto
  with Fanout_schedule [OF bs'(1) [unfolded Sharding_RemoveStatements_def]] obtain n where
    "Sharding_RemoveStatements (leveldb_stub E std_hash iteration_order) schedule pattern bs = ((Status_OK, n), bs')"
    "count_within (length bs) n (int (card (hits E (sp_statements S) pattern)))"
    unfolding Sharding_RemoveStatements_def count_within_def shards(3) by blast
  moreover have "represents E A h bs' (S\<lparr>sp_statements := sp_statements S - hits E (sp_statements S) pattern\<rparr>)"
    using bs' Sharding_lengths(2) [OF bs'(1) [unfolded Sharding_RemoveStatements_def]] shards(2,3)
    by (auto simp: represents_def)
  ultimately show ?thesis by blast
qed

lemma proxy_clear:
  assumes "represents E A h bs S"
  shows "\<exists>n bs'. Sharding_Clear (leveldb_stub E std_hash iteration_order) schedule contexts bs = ((Status_OK, n), bs') \<and>
    count_within (length bs) n (int (card {s \<in> sp_statements S. contexts = [] \<or> in_contexts E contexts s})) \<and>
    represents E A h bs' (S\<lparr>sp_statements := {s \<in> sp_statements S. contexts \<noteq> [] \<and> \<not> in_contexts E contexts s}\<rparr>)"
proof -
  have shards: "placed (replica E A (sp_prefixes S) (sp_urls S)) (stored E A) h bs" "bs \<noteq> []"
    "sp_statements S = sharded_statements E A bs" using assms(1) by (simp_all add: represents_def)
  obtain bs' where bs': "Sharding_Clear (leveldb_stub E std_hash iteration_order) [] contexts bs =
      ((Status_OK, int (card {s \<in> sharded_statements E A bs. contexts = [] \<or> in_contexts E contexts s})), bs')"
    "placed (replica E A (sp_prefixes S) (sp_urls S)) (stored E A) h bs'"
    "sharded_statements E A bs' = {s \<in> sharded_statements E A bs. \<not> (contexts = [] \<or> in_contexts E contexts s)}"
    using replicas.clear_all [OF shards(1), of contexts] by blast
  have "0 \<le> snd (fst (stub_Clear (leveldb_stub E std_hash iteration_order) contexts b))" if "b \<in> set bs" for b
    using replica_clear [OF bspec [OF placed_all [OF shards(1)] that], of contexts] by auto
  with Fanout_schedule [OF bs'(1) [unfolded Sharding_Clear_def]] obtain n where
    "Sharding_Clear (leveldb_stub E std_hash iteration_order) schedule contexts bs = ((Status_OK, n), bs')"
    "count_within (length bs) n (int (card {s \<in> sp_statements S. contexts = [] \<or> in_contexts E contexts s}))"
    unfolding Sharding_Clear_def count_within_def shards(3) by blast
  moreover have "represents E A h bs' (S\<lparr>sp_statements := {s \<in> sp_statements S. contexts \<noteq> [] \<and> \<not> in_contexts E contexts s}\<rparr>)"
    using bs' Sharding_lengths(2) [OF bs'(1) [unfolded Sharding_Clear_def]] shards(2,3)
    by (auto simp: represents_def)
  ultimately show ?thesis by blast
qed

lemma counted_nonneg: "0 \<le> counted selected contexts C"
  by (auto simp: counted_def intro!: sum_list_nonneg)

lemma proxy_size:
  assumes "represents E A h bs S"
  shows "\<exists>n. Sharding_Size (leveldb_stub E std_hash iteration_order) schedule contexts bs = ((Status_OK, n), bs) \<and>
    count_within (length bs) n (counted (\<lambda>contexts s. contexts = [] \<or> in_contexts E contexts s) contexts (sp_statements S))"
proof -
  have shards: "placed (replica E A (sp_prefixes S) (sp_urls S)) (stored E A) h bs"
    "sp_statements S = sharded_statements E A bs" using assms(1) by (simp_all add: represents_def)
  have "0 \<le> snd (fst (stub_Size (leveldb_stub E std_hash iteration_order) contexts b))" if "b \<in> set bs" for b
    using stub_size [of b contexts] placed_all [OF shards(1)] that by (simp add: counted_nonneg)
  then show ?thesis
    using Fanout_schedule [OF replicas.size_of_all [OF shards(1), of contexts, unfolded Sharding_Size_def]]
    unfolding Sharding_Size_def count_within_def shards(2) by blast
qed

lemma proxy_update:
  assumes "represents E A h bs S" and "\<forall>u \<in> set us. request_ok A u" and "collision_free E T"
    and "sp_statements S \<subseteq> T" and "\<forall>s. stmt_added s \<in> set us \<longrightarrow> s \<in> T" and "\<forall>n. ns_added n \<notin> set us"
  shows "\<exists>bs'. Sharding_Update (leveldb_stub E std_hash iteration_order) h us bs =
      exec_return ((Status_OK, spec_statistics E S us), bs') \<and> represents E A h bs' (foldl (spec_update E S) S us)"
proof -
  have shards: "placed (replica E A (sp_prefixes S) (sp_urls S)) (stored E A) h bs" "bs \<noteq> []"
    "sp_statements S = sharded_statements E A bs" using assms(1) by (simp_all add: represents_def)
  have wf: "placed (wf_store E A) (stored E A) h bs" by (rule placed_mono [OF shards(1)]) simp
  let ?T = "sharded_statements E A bs \<union> \<Union> (batch_added ` set us)"
  have "?T \<subseteq> T" using assms(4,5) shards(3) by (auto simp: in_batch_added)
  then have sep: "\<forall>u \<in> ?T. \<forall>v \<in> ?T. same_hashes E u v \<longrightarrow> u = v"
    using assms(3) unfolding collision_free_def by blast
  obtain r bs' where run: "Sharding_Update (leveldb_stub E std_hash iteration_order) h us bs = exec_return ((Status_OK, r), bs')"
    and bs': "placed (wf_store E A) (stored E A) h bs'"
      "sharded_statements E A bs' = sp_statements (foldl (spec_update E S) S us)"
    and r: "added_statements r = added_statements (spec_statistics E S us)"
      "removed_statements r = removed_statements (spec_statistics E S us)"
    using sharded_update [OF wf shards(2) assms(2) sep refl] shards(3)
    by (auto simp: spec_update_statements spec_statistics_def)
  note namespaces = replicas_update [OF placed_all [OF shards(1)] shards(2) assms(2) run]
  have "[u \<leftarrow> us. \<exists>n. u = ns_added n] = []" using assms(6) by (auto simp: filter_empty_conv)
  with namespaces r have "r = spec_statistics E S us" by (simp add: spec_statistics_def)
  moreover have "represents E A h bs' (foldl (spec_update E S) S us)"
    using namespaces shards(2) placedI [OF bs'(1) _ refl] bs'(2) by (auto simp: represents_def simp del: spec_of_simps)
  ultimately show ?thesis using run by blast
qed


lemma proxy_simulates:
  assumes "represents E A h bs S" and "collision_free E T" and "sp_statements S \<subseteq> T" and "proxy_request_ok A T r"
  shows "\<exists>resp bs' S'. proxy_request (leveldb_stub E std_hash iteration_order) h rhash order rand schedule bs r = exec_return (resp, bs') \<and>
    (\<exists>resp'. spec_allows E S r resp' S' \<and> answer_within (length bs) r resp resp') \<and> represents E A h bs' S' \<and> sp_statements S' \<subseteq> T"
proof -
  have shards: "placed (replica E A (sp_prefixes S) (sp_urls S)) (stored E A) h bs" "bs \<noteq> []"
    "sp_statements S = sharded_statements E A bs" using assms(1) by (simp_all add: represents_def)
  let ?b = "bs ! (rand mod length bs)"
  have b: "replica E A (sp_prefixes S) (sp_urls S) ?b" using placed_all [OF shards(1)] shards(2) by simp
  have exact: ?thesis if "\<exists>resp bs' S'. proxy_request (leveldb_stub E std_hash iteration_order) h rhash order rand schedule bs r =
      exec_return (resp, bs') \<and> spec_allows E S r resp S' \<and> represents E A h bs' S' \<and> sp_statements S' \<subseteq> T"
    using that answer_same by blast
  have lossy: ?thesis if "\<exists>m bs' n S'. proxy_request (leveldb_stub E std_hash iteration_order) h rhash order rand schedule bs r =
      exec_return (Resp_Count Status_OK m, bs') \<and> count_within (length bs) m n \<and> summed r \<and>
      spec_allows E S r (Resp_Count Status_OK n) S' \<and> represents E A h bs' S' \<and> sp_statements S' \<subseteq> T"
    using that answer_summed by blast
  show ?thesis
  proof (cases r)
    case (Req_AddNamespaces ns)
    with proxy_add_namespaces [OF assms(1), of ns] assms(3,4) show ?thesis
      by (intro exact) (auto simp: spec_add_namespace_foldl)
  next
    case (Req_GetNamespace pattern)
    with replica_get_namespace [OF b, of pattern] assms(1,3) shards(2) show ?thesis
      by (intro exact, cases "stub_GetNamespace (leveldb_stub E std_hash iteration_order) pattern ?b")
        (auto simp: Sharding_GetNamespace_def Let_def simp del: spec_allows.simps)
  next
    case Req_GetNamespaces
    with replica_get_namespaces [OF b] assms(1,3) shards(2) show ?thesis
      by (intro exact, cases "stub_GetNamespaces (leveldb_stub E std_hash iteration_order) ?b")
        (auto simp: Sharding_GetNamespaces_def Let_def collect_state simp del: spec_allows.simps)
  next
    case (Req_AddStatements ss)
    then have "sp_statements (foldl (spec_add E) S ss) \<subseteq> T"
      using backend.added_subset [of "sp_statements S" ss] assms(3,4) by (auto simp: spec_add_foldl foldl_map)
    with Req_AddStatements proxy_add_statements [OF assms(1) _ assms(2), of ss] assms(3,4) show ?thesis by (intro exact) auto
  next
    case (Req_GetStatements pattern)
    obtain w where "Sharding_GetStatements (leveldb_stub E std_hash iteration_order) schedule pattern collect [] bs = (Status_OK, w)"
      "set w = hits E (sp_statements S) pattern" "distinct w"
      using replicas.get_all [OF shards(1), of schedule pattern] shards(3) by auto
    with Req_GetStatements assms(1,3) show ?thesis by (intro exact) auto
  next
    case (Req_RemoveStatements pattern)
    obtain m bs' where "Sharding_RemoveStatements (leveldb_stub E std_hash iteration_order) schedule pattern bs = ((Status_OK, m), bs')"
      "count_within (length bs) m (int (card (hits E (sp_statements S) pattern)))"
      "represents E A h bs' (S\<lparr>sp_statements := sp_statements S - hits E (sp_statements S) pattern\<rparr>)"
      using proxy_remove [OF assms(1)] by blast
    with Req_RemoveStatements assms(3) show ?thesis by (intro lossy) auto
  next
    case (Req_Update us)
    have "sp_statements (foldl (spec_update E S) S us) \<subseteq> sp_statements S \<union> \<Union> (batch_added ` set us)"
      by (simp add: spec_update_statements batch_subset)
    with Req_Update have "sp_statements (foldl (spec_update E S) S us) \<subseteq> T"
      using assms(3,4) by (fastforce simp: in_batch_added)
    with Req_Update proxy_update [OF assms(1) _ assms(2,3), of us] assms(4) show ?thesis by (intro exact) auto
  next
    case (Req_Clear contexts)
    obtain m bs' where "Sharding_Clear (leveldb_stub E std_hash iteration_order) schedule contexts bs = ((Status_OK, m), bs')"
      "count_within (length bs) m (int (card {s \<in> sp_statements S. contexts = [] \<or> in_contexts E contexts s}))"
      "represents E A h bs' (S\<lparr>sp_statements := {s \<in> sp_statements S. contexts \<noteq> [] \<and> \<not> in_contexts E contexts s}\<rparr>)"
      using proxy_clear [OF assms(1)] by blast
    with Req_Clear assms(3) show ?thesis by (intro lossy) auto
  next
    case (Req_Size contexts)
    obtain m where "Sharding_Size (leveldb_stub E std_hash iteration_order) schedule contexts bs = ((Status_OK, m), bs)"
      "count_within (length bs) m (counted (\<lambda>contexts s. contexts = [] \<or> in_contexts E contexts s) contexts (sp_statements S))"
      using proxy_size [OF assms(1)] by blast
    with Req_Size assms(1,3) show ?thesis by (intro lossy) (auto simp: counted_def)
  qed (use assms(4) in simp)
qed

end


subsection \<open>Traces\<close>

text \<open>
  The proxy is connected to persistence servers that have just opened their databases, and answers
  requests one after the other. The number drawn and the schedule of a request are arbitrary.
\<close>

inductive proxy_trace ::
  "('db, 'it) environment \<Rightarrow> 'db LevelDBPersistence SailStub \<Rightarrow> (proto_Statement \<Rightarrow> 64 word) \<Rightarrow>
   (proto_Resource \<Rightarrow> 64 word) \<Rightarrow> (proto_Resource list \<Rightarrow> proto_Resource list) \<Rightarrow>
   (SailRequest \<times> SailResponse) list \<Rightarrow> 'db LevelDBPersistence list \<Rightarrow> bool" for E S h rhash order where
  connected: "bs \<noteq> [] \<Longrightarrow> \<forall>b \<in> set bs. \<exists>path. LevelDBPersistence_new E path = exec_return b \<Longrightarrow> proxy_trace E S h rhash order [] bs"
| forwarded: "proxy_trace E S h rhash order tr bs \<Longrightarrow> proxy_request S h rhash order rand schedule bs r = exec_return (resp, bs') \<Longrightarrow>
    proxy_trace E S h rhash order (tr @ [(r, resp)]) bs'"

lemma opened_replica:
  assumes "store E A" and "\<forall>c f. \<exists>db. db_Open E c f = Some db \<and> entries_of A db = []"
    and "LevelDBPersistence_new E path = exec_return b"
  shows "wf_store E A b" and "spec_of E A b = spec_new"
proof -
  have "server_trace E (\<lambda>_. 0) rev path [] b" by (rule server_trace.opened [OF assms(3)])
  from server_simulates [OF assms(1,2) iterates_rev this] have "spec_trace E [] (spec_of E A b)" "wf_store E A b" by simp_all
  then show "wf_store E A b" "spec_of E A b = spec_new" by (auto elim: spec_trace.cases)
qed

lemma opened_backends:
  assumes "store E A" and "\<forall>c f. \<exists>db. db_Open E c f = Some db \<and> entries_of A db = []"
    and "bs \<noteq> []" and "\<forall>b \<in> set bs. \<exists>path. LevelDBPersistence_new E path = exec_return b"
  shows "represents E A h bs spec_new"
proof -
  have "wf_store E A b \<and> spec_of E A b = spec_new" if "b \<in> set bs" for b
    using opened_replica [OF assms(1,2)] assms(4) that by blast
  then have "wf_store E A b \<and> stored E A b = {} \<and> ns_lookup E A (db_ns_prefix b) = Map.empty \<and>
      ns_lookup E A (db_ns_url b) = Map.empty" if "b \<in> set bs" for b
    using that by (auto simp: spec_of_def spec_new_def)
  then show ?thesis using assms(3) by (auto simp: represents_def placed_def all_contents_def spec_new_def)
qed

text \<open>
  C6: The proxy implements the specification of a server, up to its counts. When the disks do not
  fail, the backends started with empty databases, no two statements of the requests have the same
  four hashes, and the requests are handled one after the other and are neither batches that add
  namespaces nor requests for the contexts: whatever numbers are drawn and however the threads
  of a request are scheduled, there is a run of the specification of a single server with the same requests
  and the same answers, except that the counts of removals, clearings and sizes, which threads add up
  without a lock, may be too small when there are several backends. Afterwards the shards stand for the state
  of that server, and the proxy answers every further request.
\<close>

theorem proxy_refines_spec:
  assumes "store E A" and "\<forall>db b. db_Write E db b \<noteq> None"
    and "\<forall>c f. \<exists>db. db_Open E c f = Some db \<and> entries_of A db = []" and "collision_free E T"
    and "proxy_trace E (leveldb_stub E std_hash order) h rhash order tr bs" and "\<forall>(r, resp) \<in> set tr. proxy_request_ok A T r"
  shows "\<exists>tr' S. spec_trace E tr' S \<and>
    list_all2 (\<lambda>(r, resp) (r', resp'). r' = r \<and> answer_within (length bs) r resp resp') tr tr' \<and> represents E A h bs S \<and>
    (\<forall>r rand schedule. proxy_request_ok A T r \<longrightarrow>
      (\<exists>resp bs'. proxy_request (leveldb_stub E std_hash order) h rhash order rand schedule bs r = exec_return (resp, bs')))"
proof -
  note reliable = reliableI [OF assms(1,2)]
  have "\<exists>tr' S. spec_trace E tr' S \<and>
    list_all2 (\<lambda>(r, resp) (r', resp'). r' = r \<and> answer_within (length bs) r resp resp') tr tr' \<and>
    represents E A h bs S \<and> sp_statements S \<subseteq> T" using assms(5,6)
  proof (induction rule: proxy_trace.induct)
    case (connected bs)
    have "represents E A h bs spec_new" by (rule opened_backends [OF assms(1,3) connected.hyps])
    then show ?case using spec_trace.spec_start [of E] by (auto simp: spec_new_def)
  next
    case (forwarded tr bs rand schedule r resp bs')
    then obtain tr' S where S: "spec_trace E tr' S" "represents E A h bs S" "sp_statements S \<subseteq> T"
      "list_all2 (\<lambda>(r, resp) (r', resp'). r' = r \<and> answer_within (length bs) r resp resp') tr tr'" by auto
    have "proxy_request_ok A T r" using forwarded.prems by auto
    from reliable_store.proxy_simulates [OF reliable S(2) assms(4) S(3) this, of std_hash order rhash order rand schedule] forwarded.hyps(2)
    obtain S' resp' where "spec_allows E S r resp' S'" "answer_within (length bs) r resp resp'" "represents E A h bs' S'" "sp_statements S' \<subseteq> T"
      by auto
    with spec_trace.spec_answer [OF S(1)] S(4) proxy_request_length [OF forwarded.hyps(2)] show ?case
      by (intro exI [of _ "tr' @ [(r, resp')]"] exI [of _ S']) (auto intro: list_all2_appendI)
  qed
  then obtain tr' S where S: "spec_trace E tr' S"
    "list_all2 (\<lambda>(r, resp) (r', resp'). r' = r \<and> answer_within (length bs) r resp resp') tr tr'"
    "represents E A h bs S" "sp_statements S \<subseteq> T" by blast
  then show ?thesis using reliable_store.proxy_simulates [OF reliable S(3) assms(4) S(4), of _ std_hash order] by blast
qed

theorem proxy_refines_spec_witness:
  "\<exists>tr bs S. proxy_trace (list_environment True) (leveldb_stub (list_environment True) (\<lambda>_. 0) rev) (\<lambda>_. 1) (\<lambda>_. 0) rev tr bs \<and>
    map fst tr = [Req_AddStatements [example_statement]] \<and> spec_trace (list_environment True) tr S \<and>
    represents (list_environment True) list_view (\<lambda>_. 1) bs S"
proof -
  let ?E = "list_environment True" and ?r = "Req_AddStatements [example_statement]"
  let ?stub = "leveldb_stub ?E (\<lambda>_. 0) rev"
  have writes: "\<forall>db b. db_Write ?E db b \<noteq> None" by (simp add: list_environment_def)
  have opens: "\<forall>c f. \<exists>db. db_Open ?E c f = Some db \<and> entries_of list_view db = []"
    by (simp add: list_environment_def list_view_def)
  have ok: "collision_free ?E {example_statement}" "proxy_request_ok list_view {example_statement} ?r"
    by (simp_all add: collision_free_def)
  have start: "proxy_trace ?E ?stub (\<lambda>_. 1) (\<lambda>_. 0) rev [] [empty_store, empty_store]"
    by (rule proxy_trace.connected) (simp_all add: list_open)
  note refines = proxy_refines_spec [OF list_store.store_axioms [of True] writes opens ok(1)]
  obtain resp bs' where "proxy_request ?stub (\<lambda>_. 1) (\<lambda>_. 0) rev 0 [] [empty_store, empty_store] ?r = exec_return (resp, bs')"
    using refines [OF start] ok(2) unfolding list.set ball_empty by meson
  from proxy_trace.forwarded [OF start this] have tr: "proxy_trace ?E ?stub (\<lambda>_. 1) (\<lambda>_. 0) rev [(?r, resp)] bs'" by simp
  from refines [OF tr] ok(2) show ?thesis using tr by (intro exI [of _ "[(?r, resp)]"] exI [of _ bs']) (auto simp: list_all2_Cons1 answer_within_def)
qed

end
