(* ===== verification/Rdf_Equality.thy ===== *)
theory Rdf_Equality
  imports Rdf_Operators
begin

text \<open>
  The operators of the wrapper classes of \<open>model/rdf_operators.h\<close> and the \<open>as_turtle\<close> methods of
  \<open>model/rdf_model.cc\<close>. A wrapper hands its message on to the operator of the message; the classes
  that hold nothing else are modelled by their message. All pairs of operators keep one contract:
  \<open>==\<close> is equality of a normal form on the messages that are set, \<open>!=\<close> is its negation.
\<close>

subsection \<open>Operators of the classes\<close>

definition rdf_Namespace_eq :: "proto_Namespace \<Rightarrow> proto_Namespace \<Rightarrow> bool" where
  "rdf_Namespace_eq lhs rhs \<longleftrightarrow> Namespace_eq lhs rhs"

definition rdf_Namespace_neq :: "proto_Namespace \<Rightarrow> proto_Namespace \<Rightarrow> bool" where
  "rdf_Namespace_neq lhs rhs \<longleftrightarrow> \<not> rdf_Namespace_eq lhs rhs"

definition rdf_URI_eq :: "proto_URI \<Rightarrow> proto_URI \<Rightarrow> bool" where
  "rdf_URI_eq lhs rhs \<longleftrightarrow> URI_eq lhs rhs"

definition rdf_URI_neq :: "proto_URI \<Rightarrow> proto_URI \<Rightarrow> bool" where
  "rdf_URI_neq lhs rhs \<longleftrightarrow> \<not> rdf_URI_eq lhs rhs"

definition rdf_BNode_eq :: "proto_BNode \<Rightarrow> proto_BNode \<Rightarrow> bool" where
  "rdf_BNode_eq lhs rhs \<longleftrightarrow> BNode_eq lhs rhs"

definition rdf_BNode_neq :: "proto_BNode \<Rightarrow> proto_BNode \<Rightarrow> bool" where
  "rdf_BNode_neq lhs rhs \<longleftrightarrow> \<not> rdf_BNode_eq lhs rhs"

definition rdf_StringLiteral_eq :: "proto_StringLiteral \<Rightarrow> proto_StringLiteral \<Rightarrow> bool" where
  "rdf_StringLiteral_eq lhs rhs \<longleftrightarrow> StringLiteral_eq lhs rhs"

definition rdf_StringLiteral_neq :: "proto_StringLiteral \<Rightarrow> proto_StringLiteral \<Rightarrow> bool" where
  "rdf_StringLiteral_neq lhs rhs \<longleftrightarrow> \<not> rdf_StringLiteral_eq lhs rhs"

definition rdf_DatatypeLiteral_eq :: "proto_DatatypeLiteral \<Rightarrow> proto_DatatypeLiteral \<Rightarrow> bool" where
  "rdf_DatatypeLiteral_eq lhs rhs \<longleftrightarrow> DatatypeLiteral_eq lhs rhs"

definition rdf_DatatypeLiteral_neq :: "proto_DatatypeLiteral \<Rightarrow> proto_DatatypeLiteral \<Rightarrow> bool" where
  "rdf_DatatypeLiteral_neq lhs rhs \<longleftrightarrow> \<not> rdf_DatatypeLiteral_eq lhs rhs"

definition rdf_Statement_eq :: "proto_Statement \<Rightarrow> proto_Statement \<Rightarrow> bool" where
  "rdf_Statement_eq lhs rhs \<longleftrightarrow> Statement_eq lhs rhs"

definition rdf_Statement_neq :: "proto_Statement \<Rightarrow> proto_Statement \<Rightarrow> bool" where
  "rdf_Statement_neq lhs rhs \<longleftrightarrow> \<not> rdf_Statement_eq lhs rhs"

lemmas class_eq_defs =
  rdf_Namespace_eq_def rdf_URI_eq_def rdf_BNode_eq_def rdf_StringLiteral_eq_def rdf_DatatypeLiteral_eq_def
  rdf_Statement_eq_def rdf_Value_eq_def rdf_Resource_eq_def

lemmas class_neq_defs =
  rdf_Namespace_neq_def rdf_URI_neq_def rdf_BNode_neq_def rdf_StringLiteral_neq_def rdf_DatatypeLiteral_neq_def
  rdf_Statement_neq_def rdf_Value_neq_def rdf_Resource_neq_def

subsection \<open>The contract of a pair of operators\<close>

locale equality_operators =
  fixes eq neq :: "'a \<Rightarrow> 'a \<Rightarrow> bool" and is_set :: "'a \<Rightarrow> bool" and norm :: "'a \<Rightarrow> 'n"
  assumes eq_iff: "eq a b \<longleftrightarrow> is_set a \<and> norm a = norm b"
    and is_set_norm: "norm a = norm b \<Longrightarrow> is_set a \<longleftrightarrow> is_set b"
    and neq_iff: "neq a b \<longleftrightarrow> \<not> eq a b"
begin

lemma symmetric: "eq a b \<longleftrightarrow> eq b a"
  using eq_iff is_set_norm by metis

lemma transitive: "eq a b \<Longrightarrow> eq b c \<Longrightarrow> eq a c"
  by (simp add: eq_iff)

lemma reflexive: "eq a a \<longleftrightarrow> is_set a"
  by (simp add: eq_iff)

lemma neq_unset: "\<not> is_set a \<Longrightarrow> neq a b \<and> neq b a"
  using eq_iff neq_iff symmetric by blast

lemma class_determined: "eq a b \<Longrightarrow> eq a c \<longleftrightarrow> eq b c"
  using symmetric transitive by blast

end

lemma value_set_norm: "value_norm a = value_norm b \<Longrightarrow> value_set a \<longleftrightarrow> value_set b"
  by (cases a rule: value_norm.cases; cases b rule: value_norm.cases) auto

interpretation uri_operators: equality_operators rdf_URI_eq rdf_URI_neq "\<lambda>_. True" "\<lambda>u. u"
  by unfold_locales (simp_all add: class_eq_defs class_neq_defs)

interpretation bnode_operators: equality_operators rdf_BNode_eq rdf_BNode_neq "\<lambda>_. True" "\<lambda>b. b"
  by unfold_locales (simp_all add: class_eq_defs class_neq_defs)

interpretation string_literal_operators:
  equality_operators rdf_StringLiteral_eq rdf_StringLiteral_neq "\<lambda>_. True" "\<lambda>l. l"
  by unfold_locales (simp_all add: class_eq_defs class_neq_defs)

interpretation datatype_literal_operators:
  equality_operators rdf_DatatypeLiteral_eq rdf_DatatypeLiteral_neq "\<lambda>_. True" "\<lambda>l. l\<lparr>dl_datatype := Some (datatype_of l)\<rparr>"
  by unfold_locales (simp_all add: class_eq_defs class_neq_defs)

interpretation namespace_operators:
  equality_operators rdf_Namespace_eq rdf_Namespace_neq "\<lambda>_. True" ns_uri
  by unfold_locales (simp_all add: class_eq_defs class_neq_defs Namespace_eq_def)

interpretation value_operators:
  equality_operators rdf_Value_eq rdf_Value_neq "\<lambda>v. value_set (val_internal v)" "\<lambda>v. value_norm (val_internal v)"
  by unfold_locales (auto simp: class_eq_defs class_neq_defs dest: value_set_norm)

interpretation resource_operators:
  equality_operators rdf_Resource_eq rdf_Resource_neq "\<lambda>r. res_internal r \<noteq> R_NONE" res_internal
  by unfold_locales (auto simp: class_eq_defs class_neq_defs)

interpretation statement_operators: equality_operators rdf_Statement_eq rdf_Statement_neq statement_complete statement_norm
  by unfold_locales
    (auto simp: class_eq_defs class_neq_defs Statement_eq_def statement_complete_def statement_norm_def
      dest: value_set_norm)

text \<open>
  The operators of \<open>rdf::Statement\<close> are a partial equivalence: symmetric and transitive, and
  reflexive on exactly the statements with subject, object and context.
\<close>

theorem rdf_Statement_eq_partial_equivalence:
  "(rdf_Statement_eq a b \<longleftrightarrow> rdf_Statement_eq b a) \<and>
   (rdf_Statement_eq a b \<and> rdf_Statement_eq b c \<longrightarrow> rdf_Statement_eq a c) \<and>
   (rdf_Statement_eq a a \<longleftrightarrow> statement_complete a) \<and>
   (rdf_Statement_neq a b \<longleftrightarrow> \<not> rdf_Statement_eq a b)"
  using statement_operators.symmetric statement_operators.transitive statement_operators.reflexive
    statement_operators.neq_iff by blast

subsection \<open>Turtle output of the classes\<close>

definition rdf_URI_as_turtle :: "proto_URI \<Rightarrow> string" where
  "rdf_URI_as_turtle this = URI_as_turtle this"

definition rdf_BNode_as_turtle :: "proto_BNode \<Rightarrow> string" where
  "rdf_BNode_as_turtle this = BNode_as_turtle this"

definition rdf_StringLiteral_as_turtle :: "proto_StringLiteral \<Rightarrow> string" where
  "rdf_StringLiteral_as_turtle this = StringLiteral_as_turtle this"

definition rdf_DatatypeLiteral_as_turtle :: "proto_DatatypeLiteral \<Rightarrow> string" where
  "rdf_DatatypeLiteral_as_turtle this = DatatypeLiteral_as_turtle this"

definition rdf_Resource_as_turtle :: "rdf_Resource \<Rightarrow> string" where
  "rdf_Resource_as_turtle this = Resource_as_turtle (res_internal this)"

definition rdf_Value_as_turtle :: "rdf_Value \<Rightarrow> string" where
  "rdf_Value_as_turtle this = Value_as_turtle (val_internal this)"

text \<open>A value built from a URI or a blank node prints like the URI, the node and the resource built from it.\<close>

theorem as_turtle_agrees:
  "rdf_Value_as_turtle (Value_from_URI u) = rdf_URI_as_turtle u \<and>
   rdf_Resource_as_turtle (Resource_from_URI u) = rdf_URI_as_turtle u \<and>
   rdf_Value_as_turtle (Value_from_BNode b) = rdf_BNode_as_turtle b \<and>
   rdf_Resource_as_turtle (Resource_from_BNode b) = rdf_BNode_as_turtle b"
  by (simp add: rdf_Value_as_turtle_def rdf_URI_as_turtle_def rdf_BNode_as_turtle_def rdf_Resource_as_turtle_def
      Value_from_URI_def Resource_from_URI_def Value_from_BNode_def Resource_from_BNode_def
      Value_as_turtle_def Resource_as_turtle_def mutable_defs)

end
