(* ===== verification/Sparql_Service.thy ===== *)
theory Sparql_Service
  imports Sparql Rdf_Equality
begin

text \<open>
  The rest of \<open>sparql/rasqal_adapter.cc\<close>: how the class \<open>SparqlService\<close> registers its triple source
  with Rasqal, and what the engine gets when it uses what was registered.

  The structures of Rasqal that the callbacks fill are records. A callback that the library calls
  with the structure it belongs to takes the \<open>user_data\<close> of the structure, a pointer to the
  iterator; a null pointer is \<open>None\<close>. The pointer to the service that the code stores in the triples
  source is here the source of that service, given to the callbacks; \<open>free_triples_source\<close> only
  logs and is left out.
\<close>

text \<open>The texts that go to the log: the variables of a pattern, and the bindings of a row.\<close>

definition formatVariables :: "string option list \<Rightarrow> string" where
  "formatVariables bindings =
     ''('' @ concat (map (\<lambda>i. case bindings ! i of Some name \<Rightarrow> name @ '' '' | None \<Rightarrow> ''_ '') [0..<4]) @ '')''"

definition formatBindings :: "RowType \<Rightarrow> string" where
  "formatBindings bindings =
     foldl (\<lambda>result (name, v). result @ name @ ''='' @ rdf_Value_as_turtle v @ '' '') ''('' bindings @ '')''"


definition with_iterator :: "'i option \<Rightarrow> ('i \<Rightarrow> error + 'a) \<Rightarrow> error + 'a" where
  "with_iterator user_data f = (case user_data of None \<Rightarrow> Inl Undefined | Some it \<Rightarrow> f it)"










subsection \<open>The engine\<close>




lemma with_iterator_simps [simp]: "with_iterator (Some it) f = f it" "with_iterator None f = Inl Undefined"
  by (simp_all add: with_iterator_def)





end
