(* ===== verification/Server_Process.thy ===== *)
theory Server_Process
  imports Executables Proxy_Spec Sparql_Service
begin

text \<open>
  The life of the two server processes: \<open>main\<close> and the signal handler \<open>stopServer\<close> of
  \<open>persistence/leveldb_server.cc\<close> and \<open>sharding/server.cc\<close>. A process starts its server, receives
  requests, works on those it has received in any order, is told to stop by a signal, and returns
  from \<open>main\<close> when \<open>Wait\<close> returns.

  \<open>Server::Shutdown\<close> is documented to refuse new calls and to wait for those that are being handled,
  so requests received before the signal are still answered after it, and \<open>Wait\<close> returns when none is left.
  The signal handler is installed after the server was started, so a signal finds the global
  pointer \<open>server\<close> set; the test for a null pointer in the handler is the case \<open>Starting\<close>. A handler
  of a request that throws ends the process, as nothing in the sources catches the exception. What a request may
  give is a relation, since the proxy draws numbers and its threads are scheduled. A handler runs as one step:
  this theory is about handlers whose work does not overlap; \<open>Concurrent_Handlers\<close> is about those that do.
\<close>

datatype ('svc, 'req) process =
    Starting
  | Serving "'svc server" "'req list"
  | Shutting_down "'svc server" "'req list"
  | Exited int
  | Crashed error

datatype ('req, 'resp) process_event =
  Started | Received 'req | Answered 'req 'resp | Failed "'req option" error | Signal | Returned int

fun stopServer :: "('svc, 'req) process \<Rightarrow> ('svc, 'req) process" where
  "stopServer (Serving srv pending) = Shutting_down srv pending"
| "stopServer P = P"

inductive process_step ::
  "'svc server exec \<Rightarrow> ('svc \<Rightarrow> 'req \<Rightarrow> ('resp \<times> 'svc) exec \<Rightarrow> bool) \<Rightarrow> ('svc, 'req) process \<Rightarrow>
   ('req, 'resp) process_event \<Rightarrow> ('svc, 'req) process \<Rightarrow> bool" for main handle where
  start: "main = exec_return srv \<Longrightarrow> process_step main handle Starting Started (Serving srv [])"
| start_fails: "main = exec_throw e \<Longrightarrow> process_step main handle Starting (Failed None e) (Crashed e)"
| receive: "process_step main handle (Serving srv pending) (Received r) (Serving srv (pending @ [r]))"
| answer: "P \<in> {Serving, Shutting_down} \<Longrightarrow> r \<in> set pending \<Longrightarrow> handle (srv_service srv) r (exec_return (resp, svc)) \<Longrightarrow>
    process_step main handle (P srv pending) (Answered r resp) (P (srv\<lparr>srv_service := svc\<rparr>) (remove1 r pending))"
| answer_fails: "P \<in> {Serving, Shutting_down} \<Longrightarrow> r \<in> set pending \<Longrightarrow> handle (srv_service srv) r (exec_throw e) \<Longrightarrow>
    process_step main handle (P srv pending) (Failed (Some r) e) (Crashed e)"
| signal: "P \<in> {Serving, Shutting_down} \<Longrightarrow>
    process_step main handle (P srv pending) Signal (stopServer (P srv pending))"
| wait_returns: "process_step main handle (Shutting_down srv []) (Returned 0) (Exited 0)"

inductive_cases process_stepE: "process_step main handle P ev P'"

inductive process_run ::
  "'svc server exec \<Rightarrow> ('svc \<Rightarrow> 'req \<Rightarrow> ('resp \<times> 'svc) exec \<Rightarrow> bool) \<Rightarrow> ('req, 'resp) process_event list \<Rightarrow>
   ('svc, 'req) process \<Rightarrow> bool" for main handle where
  launched: "process_run main handle [] Starting"
| stepped: "process_run main handle evs P \<Longrightarrow> process_step main handle P ev P' \<Longrightarrow> process_run main handle (evs @ [ev]) P'"

fun answers :: "('req, 'resp) process_event list \<Rightarrow> ('req \<times> 'resp) list" where
  "answers [] = []"
| "answers (Answered r resp # evs) = (r, resp) # answers evs"
| "answers (ev # evs) = answers evs"

fun received :: "('req, 'resp) process_event list \<Rightarrow> 'req list" where
  "received [] = []"
| "received (Received r # evs) = r # received evs"
| "received (ev # evs) = received evs"

fun pending_of :: "('svc, 'req) process \<Rightarrow> 'req list" where
  "pending_of (Serving srv pending) = pending"
| "pending_of (Shutting_down srv pending) = pending"
| "pending_of P = []"

lemma answers_append: "answers (xs @ ys) = answers xs @ answers ys"
  by (induction xs rule: answers.induct) simp_all

lemma received_append: "received (xs @ ys) = received xs @ received ys"
  by (induction xs rule: received.induct) simp_all

lemma run_starting: "process_run main handle evs Starting \<Longrightarrow> evs = []"
  by (erule process_run.cases) (auto elim!: process_step.cases)

text \<open>No request is lost: while the process does not crash, what was received has been answered or is pending.\<close>

lemma run_requests:
  assumes "process_run main handle evs P" and "\<forall>e. P \<noteq> Crashed e"
  shows "mset (received evs) = mset (map fst (answers evs)) + mset (pending_of P)"
  using assms
proof (induction rule: process_run.induct)
  case (stepped evs P ev P')
  from stepped.hyps(2) show ?case
  proof cases
    case (answer F r pending srv resp svc)
    then have "mset (received evs) = mset (map fst (answers evs)) + mset pending" using stepped.IH by auto
    then show ?thesis using answer by (auto simp: answers_append received_append)
  next
    case (signal F srv pending)
    then show ?thesis using stepped.IH by (auto simp: answers_append received_append)
  next
    case (answer_fails F r pending srv e)
    then show ?thesis using stepped.prems by simp
  qed (use stepped in \<open>auto simp: answers_append received_append\<close>)
qed simp

subsection \<open>The contract of a service\<close>

text \<open>
  What keeps a process up: \<open>main\<close> starts the server, the handlers answer every request that is in
  order, and \<open>rep\<close> relates the requests answered so far to the state of the service.
\<close>

locale service_process =
  fixes main :: "'svc server exec" and handle :: "'svc \<Rightarrow> 'req \<Rightarrow> ('resp \<times> 'svc) exec \<Rightarrow> bool"
    and ok :: "'req \<Rightarrow> bool" and rep :: "('req \<times> 'resp) list \<Rightarrow> 'svc \<Rightarrow> bool"
  assumes starts: "\<exists>srv. main = exec_return srv \<and> rep [] (srv_service srv)"
    and serves: "rep tr svc \<Longrightarrow> ok r \<Longrightarrow> handle svc r out \<Longrightarrow>
      \<exists>resp svc'. out = exec_return (resp, svc') \<and> rep (tr @ [(r, resp)]) svc'"
begin

lemma process_invariant:
  assumes "process_run main handle evs P" and "\<forall>r \<in> set (received evs). ok r"
  shows "(\<forall>srv pending. P = Serving srv pending \<or> P = Shutting_down srv pending \<longrightarrow>
      rep (answers evs) (srv_service srv) \<and> (\<forall>r \<in> set pending. ok r)) \<and> (\<forall>e. P \<noteq> Crashed e)"
  using assms
proof (induction rule: process_run.induct)
  case (stepped evs P ev P')
  then have IH: "\<And>srv pending. P = Serving srv pending \<or> P = Shutting_down srv pending \<Longrightarrow>
      rep (answers evs) (srv_service srv) \<and> (\<forall>r \<in> set pending. ok r)"
    and ev: "\<forall>r \<in> set (received [ev]). ok r" by (auto simp: received_append)
  from stepped.hyps(2) show ?case
  proof cases
    case (start srv)
    then show ?thesis using starts run_starting [of main handle evs] stepped.hyps(1) by auto
  next
    case (start_fails e)
    then show ?thesis using starts by (auto simp: exec_return_def exec_throw_def)
  next
    case (answer F r pending srv resp svc)
    then have "rep (answers evs) (srv_service srv)" "\<forall>r \<in> set pending. ok r" using IH by auto
    moreover from this have "rep (answers evs @ [(r, resp)]) svc"
      using serves [OF _ _ answer(6)] answer(5) by fastforce
    ultimately show ?thesis using answer(1-4) by (auto simp: answers_append dest: notin_set_remove1)
  next
    case (answer_fails F r pending srv e)
    then have "rep (answers evs) (srv_service srv)" "ok r" using IH by auto
    then show ?thesis using serves [OF _ _ answer_fails(6)] by (auto simp: exec_return_def exec_throw_def)
  qed (use IH ev in \<open>auto simp: answers_append\<close>)
qed simp

text \<open>A process that has received only requests in order can always go on until it has answered them all.\<close>

lemma process_drains:
  assumes "process_run main handle evs P" and "\<forall>r \<in> set (received evs). ok r" and "r \<in> set (pending_of P)"
    and "\<And>svc r. \<exists>out. handle svc r out"
  shows "\<exists>resp P'. process_step main handle P (Answered r resp) P' \<and> length (pending_of P') < length (pending_of P)"
proof -
  obtain F srv pending where P: "P = F srv pending" "F \<in> {Serving, Shutting_down}" "r \<in> set pending"
    using assms(3) by (cases P) auto
  then have "rep (answers evs) (srv_service srv)" "ok r"
    using process_invariant [OF assms(1,2)] by auto
  moreover obtain out where out: "handle (srv_service srv) r out" using assms(4) by blast
  ultimately obtain resp svc where "out = exec_return (resp, svc)" using serves by blast
  with out have "process_step main handle P (Answered r resp) (F (srv\<lparr>srv_service := svc\<rparr>) (remove1 r pending))"
    unfolding P(1) by (intro process_step.answer P) simp
  moreover have "length (pending_of (F (srv\<lparr>srv_service := svc\<rparr>) (remove1 r pending))) < length (pending_of P)"
    using P length_pos_if_in_set [OF P(3)] by (auto simp: length_remove1)
  ultimately show ?thesis by blast
qed

text \<open>Told to stop, it answers all requests that are pending and returns from \<open>main\<close>.\<close>

lemma process_finishes:
  assumes "process_run main handle evs (Shutting_down srv pending)" and "\<forall>r \<in> set (received evs). ok r"
    and total: "\<And>svc r. \<exists>out. handle svc r out"
  shows "\<exists>evs' srv'. process_run main handle (evs @ evs') (Shutting_down srv' []) \<and>
    mset (map fst (answers evs')) = mset pending \<and> received evs' = []"
  using assms(1,2)
proof (induction pending arbitrary: evs srv)
  case Nil
  then show ?case by (intro exI [of _ "[]"] exI [of _ srv]) simp
next
  case (Cons r pending)
  have inv: "rep (answers evs) (srv_service srv)" "ok r" using process_invariant [OF Cons.prems] by auto
  obtain out where out: "handle (srv_service srv) r out" using total by blast
  with inv obtain resp svc where "out = exec_return (resp, svc)" using serves by blast
  with out have "process_step main handle (Shutting_down srv (r # pending)) (Answered r resp)
      (Shutting_down (srv\<lparr>srv_service := svc\<rparr>) pending)"
    using process_step.answer [of Shutting_down r "r # pending" handle srv resp svc main] by simp
  from Cons.IH [OF process_run.stepped [OF Cons.prems(1) this]] Cons.prems(2)
  obtain evs' srv' where "process_run main handle (evs @ Answered r resp # evs') (Shutting_down srv' [])"
    "mset (map fst (answers evs')) = mset pending" "received evs' = []"
    by (auto simp: received_append)
  then show ?case by (intro exI [of _ "Answered r resp # evs'"] exI [of _ srv']) simp
qed

lemma process_stops:
  assumes "process_run main handle evs P" and "\<forall>r \<in> set (received evs). ok r"
    and "P = Serving srv pending \<or> P = Shutting_down srv pending" and "\<And>svc r. \<exists>out. handle svc r out"
  shows "\<exists>evs'. process_run main handle (evs @ [Signal] @ evs' @ [Returned 0]) (Exited 0) \<and>
    mset (map fst (answers evs')) = mset pending \<and> received evs' = []"
proof -
  have "process_step main handle P Signal (Shutting_down srv pending)"
    using assms(3) process_step.signal [of _ main handle srv pending] by fastforce
  from process_finishes [OF process_run.stepped [OF assms(1) this] _ assms(4)] assms(2)
  obtain evs' srv' where evs': "process_run main handle ((evs @ [Signal]) @ evs') (Shutting_down srv' [])"
    "mset (map fst (answers evs')) = mset pending" "received evs' = []"
    by (auto simp: received_append)
  from process_run.stepped [OF evs'(1) process_step.wait_returns] evs'(2,3) show ?thesis by auto
qed

end

subsection \<open>The persistence server\<close>

context reliable_store
begin

lemma handle_total:
  assumes "wf_store E A p" and "sail_request_ok A r"
  shows "\<exists>resp p'. handle_request E std_hash iteration_order p r = exec_return (resp, p')"
proof (cases r)
  case (Req_AddNamespaces ns)
  then show ?thesis using stub_namespaces [OF assms(1), of ns] assms(2) by (auto simp: leveldb_stub_def dest!: call_update_OK)
next
  case (Req_AddStatements ss)
  then show ?thesis using stub_add [of p ss] assms by (auto simp: leveldb_stub_def dest!: call_update_OK)
next
  case (Req_RemoveStatements pattern)
  then show ?thesis using stub_remove [of p pattern] assms(1) by (auto simp: leveldb_stub_def dest!: call_update_OK)
next
  case (Req_Update us)
  then show ?thesis using stub_update [OF assms(1), of us] assms(2) by (auto simp: leveldb_stub_def dest!: call_update_OK)
next
  case (Req_Clear contexts)
  then show ?thesis using stub_clear [of p contexts] assms(1) by (auto simp: leveldb_stub_def dest!: call_update_OK)
next
  case (Req_GetNamespace pattern)
  then show ?thesis by (cases "ns_result E A p pattern = []") (auto simp: Service_GetNamespace_def GetNamespaces_result last_namespace)
next
  case Req_GetContexts
  then show ?thesis by (auto simp: Service_GetContexts_def GetStatements_result)
next
  case (Req_Size contexts)
  then show ?thesis using Size_result assms(1) Size_contexts_result [of p Statement_default contexts 0]
    by (auto simp: Service_Size_def)
qed (simp_all add: Service_GetNamespaces_def Service_GetStatements_def GetNamespaces_result GetStatements_result)

end

text \<open>
  The persistence server has two services on one store (\<open>main\<close> of \<open>persistence/leveldb_server.cc\<close>): the
  handlers of \<open>LevelDBService\<close> and the tuple queries of \<open>LevelDBSparqlService\<close>. The query engine \<open>G\<close> may look at the
  store; \<open>rows p r\<close> are the rows its result \<open>r\<close> over the store \<open>p\<close> has still to give.
\<close>

datatype server_request = Sail SailRequest | Sparql string
datatype server_response = Sail_response SailResponse | Sparql_response Status "SparqlResponse list"

fun server_handle ::
  "'x rasqal \<Rightarrow> ('db LevelDBPersistence \<Rightarrow> ('q, 'r, 'x) rasqal_engine) \<Rightarrow> ('db, 'it) environment \<Rightarrow> string_hash \<Rightarrow>
   (proto_Resource list \<Rightarrow> proto_Resource list) \<Rightarrow> 'db LevelDBPersistence \<Rightarrow> server_request \<Rightarrow>
   (server_response \<times> 'db LevelDBPersistence) exec" where
  "server_handle Q G E std_hash order p (Sail r) =
     exec_bind (handle_request E std_hash order p r) (\<lambda>(resp, p). exec_return (Sail_response resp, p))"
| "server_handle Q G E std_hash order p (Sparql query) =
     exec_bind (Service_TupleQuery Q (G p) query collect []) (\<lambda>(st, rs). exec_return (Sparql_response st rs, p))"

text \<open>A query in order: over every consistent store the engine takes it and the bindings of its rows convert.\<close>

definition query_ok ::
  "('db, 'it) environment \<Rightarrow> ('db, 'it) view \<Rightarrow> 'x rasqal \<Rightarrow> ('db LevelDBPersistence \<Rightarrow> ('q, 'r, 'x) rasqal_engine) \<Rightarrow>
   ('db LevelDBPersistence \<Rightarrow> 'r \<Rightarrow> (string \<times> 'x rasqal_literal option) list list) \<Rightarrow> string \<Rightarrow> bool" where
  "query_ok E A Q G rows query \<longleftrightarrow>
     (\<forall>p. wf_store E A p \<longrightarrow>
        (\<exists>q r. rasqal_query_prepare (G p) (c_str query) = Some q \<and> rasqal_query_execute (G p) q = Some r \<and>
          (\<forall>b \<in> set (rows p r). row_converts Q b \<and> distinct (map fst b))))"

fun server_request_ok ::
  "('db, 'it) environment \<Rightarrow> ('db, 'it) view \<Rightarrow> 'x rasqal \<Rightarrow> ('db LevelDBPersistence \<Rightarrow> ('q, 'r, 'x) rasqal_engine) \<Rightarrow>
   ('db LevelDBPersistence \<Rightarrow> 'r \<Rightarrow> (string \<times> 'x rasqal_literal option) list list) \<Rightarrow> server_request \<Rightarrow> bool" where
  "server_request_ok E A Q G rows (Sail r) = sail_request_ok A r"
| "server_request_ok E A Q G rows (Sparql query) = query_ok E A Q G rows query"

text \<open>The messages for the rows of a result: one per row, in order, with its bindings sorted by name.\<close>

definition row_messages ::
  "'x rasqal \<Rightarrow> (string \<times> 'x rasqal_literal option) list list \<Rightarrow> SparqlResponse list \<Rightarrow> bool" where
  "row_messages Q bs ms \<longleftrightarrow>
     list_all2 (\<lambda>b m. sorted_wrt (<) (map fst m) \<and>
       map_of m = map_of (map (\<lambda>(name, v). (name, val_internal (projr (ConvertValue Q v)))) b)) bs ms"

text \<open>
  The specification of both services: the one of \<open>Server_Spec\<close>, and queries that change nothing and are answered with the
  rows of the engine over a consistent store that stands for the current state.
\<close>

inductive server_spec ::
  "('db, 'it) environment \<Rightarrow> ('db, 'it) view \<Rightarrow> 'x rasqal \<Rightarrow> ('db LevelDBPersistence \<Rightarrow> ('q, 'r, 'x) rasqal_engine) \<Rightarrow>
   ('db LevelDBPersistence \<Rightarrow> 'r \<Rightarrow> (string \<times> 'x rasqal_literal option) list list) \<Rightarrow>
   (server_request \<times> server_response) list \<Rightarrow> spec_state \<Rightarrow> bool" for E A Q G rows where
  new: "server_spec E A Q G rows [] spec_new"
| sail: "server_spec E A Q G rows tr S \<Longrightarrow> spec_allows E S r resp S' \<Longrightarrow>
    server_spec E A Q G rows (tr @ [(Sail r, Sail_response resp)]) S'"
| sparql: "server_spec E A Q G rows tr S \<Longrightarrow> wf_store E A p \<Longrightarrow> spec_of E A p = S \<Longrightarrow>
    rasqal_query_prepare (G p) (c_str query) = Some q \<Longrightarrow> rasqal_query_execute (G p) q = Some r \<Longrightarrow>
    row_messages Q (rows p r) ms \<Longrightarrow>
    server_spec E A Q G rows (tr @ [(Sparql query, Sparql_response Status_OK ms)]) S"

locale persistence_process = reliable_store E A
  for E :: "('db, 'it) environment" and A :: "('db, 'it) view" +
  fixes listen :: "string \<Rightarrow> bool" and flags :: leveldb_flags and Q :: "'x rasqal"
    and G :: "'db LevelDBPersistence \<Rightarrow> ('q, 'r, 'x) rasqal_engine"
    and rows :: "'db LevelDBPersistence \<Rightarrow> 'r \<Rightarrow> (string \<times> 'x rasqal_literal option) list list"
  assumes opens_empty: "\<exists>db. db_Open E c f = Some db \<and> entries_of A db = []"
    and visits: "iterates iteration_order"
    and listens: "listen (ldf_host flags @ '':'' @ ldf_port flags)"
    and engine: "rasqal_results (G p) (rows p)"
begin

lemma sparql_serves:
  assumes "wf_store E A p" and "query_ok E A Q G rows query"
  shows "\<exists>q r ms. rasqal_query_prepare (G p) (c_str query) = Some q \<and> rasqal_query_execute (G p) q = Some r \<and>
    row_messages Q (rows p r) ms \<and> Service_TupleQuery Q (G p) query collect [] = exec_return (Status_OK, ms)"
proof -
  obtain q r where qr: "rasqal_query_prepare (G p) (c_str query) = Some q" "rasqal_query_execute (G p) q = Some r"
    "\<forall>b \<in> set (rows p r). row_converts Q b \<and> distinct (map fst b)"
    using assms unfolding query_ok_def by blast
  from Service_TupleQuery_run [OF engine this, of collect "[]"] show ?thesis
    using qr by (auto simp: row_messages_def collect_state)
qed

end

sublocale persistence_process \<subseteq> life: service_process "leveldb_server_main E listen flags"
  "\<lambda>p r out. out = server_handle Q G E std_hash iteration_order p r" "server_request_ok E A Q G rows"
  "\<lambda>tr p. server_spec E A Q G rows tr (spec_of E A p) \<and> wf_store E A p"
proof unfold_locales
  have opens: "\<forall>c f. \<exists>db. db_Open E c f = Some db \<and> entries_of A db = []" using opens_empty by blast
  obtain p where p: "leveldb_server_main E listen flags =
      exec_return \<lparr>srv_address = ldf_host flags @ '':'' @ ldf_port flags, srv_service = p\<rparr>"
    using leveldb_server_starts [OF store.axioms(1) [OF store_axioms] opens, of listen flags] listens by blast
  then have "LevelDBPersistence_new E (ldf_db flags) = exec_return p"
    using listens by (auto simp: leveldb_server_main_def Let_def exec_bind_def exec_return_def split: option.splits sum.splits)
  from opened_replica [OF store_axioms opens this] server_spec.new [of E A Q G rows]
  show "\<exists>srv. leveldb_server_main E listen flags = exec_return srv \<and>
      server_spec E A Q G rows [] (spec_of E A (srv_service srv)) \<and> wf_store E A (srv_service srv)"
    using p by simp
next
  fix tr p r out
  assume *: "server_spec E A Q G rows tr (spec_of E A p) \<and> wf_store E A p" "server_request_ok E A Q G rows r"
    "out = server_handle Q G E std_hash iteration_order p r"
  show "\<exists>resp p'. out = exec_return (resp, p') \<and>
      server_spec E A Q G rows (tr @ [(r, resp)]) (spec_of E A p') \<and> wf_store E A p'"
  proof (cases r)
    case (Sail r')
    then obtain resp p' where run: "handle_request E std_hash iteration_order p r' = exec_return (resp, p')"
      using handle_total [of p r'] * by auto
    from handle_simulates [OF _ _ _ this] visits * Sail
    have "wf_store E A p'" "spec_allows E (spec_of E A p) r' resp (spec_of E A p')" by auto
    then show ?thesis using server_spec.sail [of E A Q G rows tr] * Sail run by auto
  next
    case (Sparql query)
    then obtain q' r' ms where run: "rasqal_query_prepare (G p) (c_str query) = Some q'" "rasqal_query_execute (G p) q' = Some r'"
      "row_messages Q (rows p r') ms" "Service_TupleQuery Q (G p) query collect [] = exec_return (Status_OK, ms)"
      using sparql_serves [of p query] * by auto
    have "server_spec E A Q G rows (tr @ [(Sparql query, Sparql_response Status_OK ms)]) (spec_of E A p)"
      using * run(1-3) by (intro server_spec.sparql [where p = p and q = q' and r = r']) simp_all
    with * Sparql run(4) show ?thesis by auto
  qed
qed

interpretation list_process: persistence_process std_hash rev "list_environment x86_64" list_view
    "\<lambda>_. True" leveldb_flags_default list_rasqal "\<lambda>_. scripted_engine []" "\<lambda>_ r. r" for x86_64 std_hash
  by unfold_locales (use list_environment_opens iterates_rev scripted_results.finished scripted_results.current
      scripted_results.next_row in blast)+

context persistence_process
begin

lemmas life_invariant = life.process_invariant
lemmas life_drains = life.process_drains
lemmas life_stops = life.process_stops

end

subsection \<open>The sharding server\<close>

definition sharding_handle ::
  "'b SailStub \<Rightarrow> (proto_Statement \<Rightarrow> 64 word) \<Rightarrow> (proto_Resource \<Rightarrow> 64 word) \<Rightarrow>
   (proto_Resource list \<Rightarrow> proto_Resource list) \<Rightarrow> nat \<Rightarrow> nat list \<Rightarrow> 'b ShardingService \<Rightarrow> SailRequest \<Rightarrow>
   (SailResponse \<times> 'b ShardingService) exec" where
  "sharding_handle S h rhash order rand schedule svc r =
     exec_bind (proxy_request S h rhash order rand schedule (sh_channels svc) r) (\<lambda>(resp, bs). exec_return (resp, svc\<lparr>sh_channels := bs\<rparr>))"

locale proxy_process = reliable_store E A
  for E :: "('db, 'it) environment" and A :: "('db, 'it) view" +
  fixes net :: "string \<Rightarrow> 'db LevelDBPersistence" and listen :: "string \<Rightarrow> bool" and flags :: sharding_flags
    and h :: "proto_Statement \<Rightarrow> 64 word" and rhash :: "proto_Resource \<Rightarrow> 64 word" and T :: "proto_Statement set"
  assumes opens_empty: "\<exists>db. db_Open E c f = Some db \<and> entries_of A db = []"
    and listens: "listen (shf_host flags @ '':'' @ shf_port flags)"
    and backends: "split (shf_backends flags) (CHR '','') \<noteq> []"
      "name \<in> set (split (shf_backends flags) (CHR '','')) \<Longrightarrow> \<exists>path. LevelDBPersistence_new E path = exec_return (net name)"
    and no_collisions: "collision_free E T"

sublocale proxy_process \<subseteq> life: service_process "sharding_server_main net listen flags"
  "\<lambda>svc r out. \<exists>rand schedule. out = sharding_handle (leveldb_stub E std_hash iteration_order) h rhash iteration_order rand schedule svc r"
  "proxy_request_ok A T"
  "\<lambda>tr svc. \<exists>tr' S. spec_trace E tr' S \<and>
    list_all2 (\<lambda>(r, resp) (r', resp'). r' = r \<and> answer_within (length (sh_channels svc)) r resp resp') tr tr' \<and>
    represents E A h (sh_channels svc) S \<and> sp_statements S \<subseteq> T"
proof unfold_locales
  let ?bs = "map net (split (shf_backends flags) (CHR '',''))"
  have opens: "\<forall>c f. \<exists>db. db_Open E c f = Some db \<and> entries_of A db = []" using opens_empty by blast
  have "\<forall>b \<in> set ?bs. \<exists>path. LevelDBPersistence_new E path = exec_return b" using backends(2) by auto
  from opened_backends [OF store_axioms opens _ this, of h] backends(1) have "represents E A h ?bs spec_new" by simp
  then show "\<exists>srv. sharding_server_main net listen flags = exec_return srv \<and>
      (\<exists>tr' S. spec_trace E tr' S \<and>
        list_all2 (\<lambda>(r, resp) (r', resp'). r' = r \<and> answer_within (length (sh_channels (srv_service srv))) r resp resp') [] tr' \<and>
        represents E A h (sh_channels (srv_service srv)) S \<and> sp_statements S \<subseteq> T)"
    using listens spec_trace.spec_start [of E]
    by (auto simp: sharding_server_main_def ShardingService_new_def create_channels_map spec_new_def)
next
  fix tr svc r out
  assume "\<exists>tr' S. spec_trace E tr' S \<and>
      list_all2 (\<lambda>(r, resp) (r', resp'). r' = r \<and> answer_within (length (sh_channels svc)) r resp resp') tr tr' \<and>
      represents E A h (sh_channels svc) S \<and> sp_statements S \<subseteq> T" "proxy_request_ok A T r"
    and "\<exists>rand schedule. out = sharding_handle (leveldb_stub E std_hash iteration_order) h rhash iteration_order rand schedule svc r"
  then obtain tr' S rand schedule where S: "spec_trace E tr' S" "represents E A h (sh_channels svc) S" "sp_statements S \<subseteq> T"
    and within: "list_all2 (\<lambda>(r, resp) (r', resp'). r' = r \<and> answer_within (length (sh_channels svc)) r resp resp') tr tr'"
    and r: "proxy_request_ok A T r" "out = sharding_handle (leveldb_stub E std_hash iteration_order) h rhash iteration_order rand schedule svc r" by blast
  from proxy_simulates [OF S(2) no_collisions S(3) r(1), of rhash iteration_order rand schedule] obtain resp bs' S' resp' where
    request: "proxy_request (leveldb_stub E std_hash iteration_order) h rhash iteration_order rand schedule (sh_channels svc) r = exec_return (resp, bs')"
    and S': "spec_allows E S r resp' S'" "answer_within (length (sh_channels svc)) r resp resp'" "represents E A h bs' S'" "sp_statements S' \<subseteq> T"
    by blast
  have len: "length bs' = length (sh_channels svc)" by (rule proxy_request_length [OF request])
  have "list_all2 (\<lambda>(r, resp) (r', resp'). r' = r \<and> answer_within (length bs') r resp resp') (tr @ [(r, resp)]) (tr' @ [(r, resp')])"
    using within S'(2) by (intro list_all2_appendI) (simp_all add: len)
  moreover have "spec_trace E (tr' @ [(r, resp')]) S'" by (rule spec_trace.spec_answer [OF S(1) S'(1)])
  moreover have "out = exec_return (resp, svc\<lparr>sh_channels := bs'\<rparr>)" using request r(2) by (simp add: sharding_handle_def)
  ultimately show "\<exists>resp svc'. out = exec_return (resp, svc') \<and>
      (\<exists>tr'' S. spec_trace E tr'' S \<and>
        list_all2 (\<lambda>(r, resp) (r', resp'). r' = r \<and> answer_within (length (sh_channels svc')) r resp resp') (tr @ [(r, resp)]) tr'' \<and>
        represents E A h (sh_channels svc') S \<and> sp_statements S \<subseteq> T)"
    using S'(3,4) by (intro exI [of _ resp] exI [of _ "svc\<lparr>sh_channels := bs'\<rparr>"]) auto
qed

context proxy_process
begin

lemmas life_invariant = life.process_invariant
lemmas life_drains = life.process_drains
lemmas life_stops = life.process_stops

end

definition example_sharding_flags :: sharding_flags where
  "example_sharding_flags = \<lparr>shf_host = ''h'', shf_port = ''1'', shf_backends = ''a:1,b:2''\<rparr>"

lemma example_backends: "split (shf_backends example_sharding_flags) (CHR '','') = [''a:1'', ''b:2'']"
  unfolding example_sharding_flags_def by code_simp

interpretation list_proxy: proxy_process std_hash iteration_order "list_environment True" list_view "\<lambda>_. empty_store"
    "\<lambda>_. True" example_sharding_flags h rhash "{example_statement}" for std_hash iteration_order h rhash
  by unfold_locales (use list_environment_opens list_open in \<open>auto simp: example_backends collision_free_def\<close>)

subsection \<open>The life of a server\<close>

text \<open>A short life, for examples: a request is received, the signal arrives, and the request is answered.\<close>

lemma received_run:
  assumes "main = exec_return srv"
  shows "process_run main handle [Started, Received r] (Serving srv [r])"
  using process_run.stepped [OF process_run.stepped [OF process_run.launched process_step.start [OF assms]] process_step.receive, of handle r]
  by simp

lemma example_run:
  assumes "main = exec_return srv" and "handle (srv_service srv) r (exec_return (resp, srv_service srv))"
  shows "process_run main handle [Started, Received r, Signal, Answered r resp] (Shutting_down srv [])"
proof -
  have signal: "process_step main handle (Serving srv [r]) Signal (Shutting_down srv [r])"
    using process_step.signal [of Serving main handle srv "[r]"] by simp
  have answer: "process_step main handle (Shutting_down srv [r]) (Answered r resp) (Shutting_down srv [])"
    using process_step.answer [of Shutting_down r "[r]" handle srv resp "srv_service srv" main] assms(2) by simp
  from process_run.stepped [OF process_run.stepped [OF received_run [OF assms(1)] signal] answer] show ?thesis by simp
qed

text \<open>
  C7: The life of the persistence server, with both of its services. Suppose its address can be used, its databases are new, no
  write to disk ever fails, handlers do not overlap, the statements and namespaces of the requests can be serialised, and over every
  consistent store the engine takes the queries and the bindings of their rows convert. Then in whatever order the
  requests received are answered, the process does not crash; all requests received are answered or pending, and every
  pending one can be answered; while it serves or shuts down, the answers given are ones the specification of the two services
  allows, and the databases are consistent and stand for its state; and told to stop by a signal it can answer exactly the
  requests that are pending and return from \<open>main\<close> with status 0.
\<close>

theorem leveldb_server_process:
  fixes E :: "('db, 'it) environment" and G :: "'db LevelDBPersistence \<Rightarrow> ('q, 'r, 'x) rasqal_engine"
  assumes "store E A" and "\<forall>db b. db_Write E db b \<noteq> None"
    and "\<forall>c f. \<exists>db. db_Open E c f = Some db \<and> entries_of A db = []"
    and "listen (ldf_host flags @ '':'' @ ldf_port flags)"
    and "iterates order" and "\<forall>p. rasqal_results (G p) (rows p)"
    and "process_run (leveldb_server_main E listen flags) (\<lambda>p r out. out = server_handle Q G E std_hash order p r) evs P"
    and "\<forall>r \<in> set (received evs). server_request_ok E A Q G rows r"
  shows "(\<forall>e. P \<noteq> Crashed e) \<and> mset (received evs) = mset (map fst (answers evs)) + mset (pending_of P) \<and>
    (\<forall>r \<in> set (pending_of P). \<exists>resp P'.
      process_step (leveldb_server_main E listen flags) (\<lambda>p r out. out = server_handle Q G E std_hash order p r) P (Answered r resp) P' \<and>
      length (pending_of P') < length (pending_of P)) \<and>
    (\<forall>srv pending. P = Serving srv pending \<or> P = Shutting_down srv pending \<longrightarrow>
      server_spec E A Q G rows (answers evs) (spec_of E A (srv_service srv)) \<and> wf_store E A (srv_service srv) \<and>
      (\<exists>evs'. process_run (leveldb_server_main E listen flags) (\<lambda>p r out. out = server_handle Q G E std_hash order p r)
          (evs @ [Signal] @ evs' @ [Returned 0]) (Exited 0) \<and> mset (map fst (answers evs')) = mset pending \<and> received evs' = []))"
proof -
  have process: "persistence_process order E A listen flags G rows"
    using assms(1-6) by (simp add: persistence_process_def persistence_process_axioms_def reliableI)
  note inv = persistence_process.life_invariant [OF process assms(7,8)]
  note stops = persistence_process.life_stops [OF process assms(7,8)]
  from run_requests [OF assms(7)] inv persistence_process.life_drains [OF process assms(7,8)] stops show ?thesis by auto
qed

theorem leveldb_server_process_witness:
  "\<exists>srv. process_run (leveldb_server_main (list_environment True) (\<lambda>_. True) leveldb_flags_default)
      (\<lambda>p r out. out = server_handle list_rasqal (\<lambda>_. scripted_engine []) (list_environment True) (\<lambda>_. 0) rev p r)
      [Started, Received (Sparql ''SELECT''), Signal, Answered (Sparql ''SELECT'') (Sparql_response Status_OK [])] (Shutting_down srv []) \<and>
    server_spec (list_environment True) list_view list_rasqal (\<lambda>_. scripted_engine []) (\<lambda>_ r. r)
      [(Sparql ''SELECT'', Sparql_response Status_OK [])] (spec_of (list_environment True) list_view (srv_service srv))"
proof -
  let ?E = "list_environment True" and ?srv = "\<lparr>srv_address = ''0.0.0.0:10000'', srv_service = empty_store\<rparr>"
  let ?main = "leveldb_server_main ?E (\<lambda>_. True) leveldb_flags_default"
  let ?G = "\<lambda>_. scripted_engine []" and ?rows = "\<lambda>_ r. r"
  let ?handle = "\<lambda>p r out. out = server_handle list_rasqal ?G ?E (\<lambda>_. 0) rev p r"
  have "?main = exec_return ?srv" by (simp add: leveldb_server_main_def list_open leveldb_flags_default_def)
  moreover have "?handle (srv_service ?srv) (Sparql ''SELECT'') (exec_return (Sparql_response Status_OK [], empty_store))"
    by (simp add: Service_TupleQuery_def TupleQuery_def scripted_engine_def TupleQuery_loop.simps [of _ _ _ True "[]"] c_str_def exec_return_def exec_bind_def)
  ultimately have run: "process_run ?main ?handle
      [Started, Received (Sparql ''SELECT''), Signal, Answered (Sparql ''SELECT'') (Sparql_response Status_OK [])] (Shutting_down ?srv [])"
    using example_run [of ?main ?srv ?handle] by simp
  have "query_ok ?E list_view list_rasqal ?G ?rows ''SELECT''" by (simp add: query_ok_def scripted_engine_def c_str_def)
  with leveldb_server_process [OF list_store.store_axioms [of True] list_environment_opens _ iterates_rev _ run, of ?rows] run
  show ?thesis by (auto simp: scripted_results.rasqal_results_axioms)
qed

text \<open>
  C30: A query that the engine refuses ends the persistence server. Whatever the process has done before, when the
  engine cannot prepare or cannot execute a pending query, the query is never answered and handling it
  ends the process with the uncaught exception, and with it all other pending requests.
\<close>

theorem sparql_query_ends_process:
  assumes "process_run main (\<lambda>p r out. out = server_handle Q G E std_hash order p r) evs (Serving srv pending)"
    and "Sparql query \<in> set pending"
    and "rasqal_query_prepare (G (srv_service srv)) (c_str query) = None \<or>
      (\<exists>q. rasqal_query_prepare (G (srv_service srv)) (c_str query) = Some q \<and> rasqal_query_execute (G (srv_service srv)) q = None)"
  shows "(\<exists>message. process_run main (\<lambda>p r out. out = server_handle Q G E std_hash order p r)
      (evs @ [Failed (Some (Sparql query)) (SparqlException message query)]) (Crashed (SparqlException message query))) \<and>
    (\<forall>resp P. \<not> process_step main (\<lambda>p r out. out = server_handle Q G E std_hash order p r)
      (Serving srv pending) (Answered (Sparql query) resp) P)"
proof -
  let ?handle = "\<lambda>p r out. out = server_handle Q G E std_hash order p r"
  obtain message where throws: "server_handle Q G E std_hash order (srv_service srv) (Sparql query) = exec_throw (SparqlException message query)"
    using assms(3) by (auto simp: Service_TupleQuery_def TupleQuery_def)
  then have "process_step main ?handle (Serving srv pending) (Failed (Some (Sparql query)) (SparqlException message query))
      (Crashed (SparqlException message query))"
    using assms(2) by (intro process_step.answer_fails) simp_all
  moreover have "\<not> process_step main ?handle (Serving srv pending) (Answered (Sparql query) resp) P" for resp P
    using throws by (auto elim!: process_stepE simp: exec_return_def exec_throw_def simp del: server_handle.simps)
  ultimately show ?thesis using process_run.stepped [OF assms(1)] by blast
qed

theorem sparql_query_ends_process_witness:
  "\<exists>message. process_run (leveldb_server_main (list_environment True) (\<lambda>_. True) leveldb_flags_default)
      (\<lambda>p r out. out = server_handle list_rasqal (\<lambda>_. scripted_engine []) (list_environment True) (\<lambda>_. 0) rev p r)
      [Started, Received (Sparql []), Failed (Some (Sparql [])) (SparqlException message [])] (Crashed (SparqlException message []))"
proof -
  let ?E = "list_environment True" and ?srv = "\<lparr>srv_address = ''0.0.0.0:10000'', srv_service = empty_store\<rparr>"
  let ?main = "leveldb_server_main ?E (\<lambda>_. True) leveldb_flags_default"
  let ?handle = "\<lambda>p r out. out = server_handle list_rasqal (\<lambda>_. scripted_engine []) ?E (\<lambda>_. 0) rev p r"
  have "?main = exec_return ?srv" by (simp add: leveldb_server_main_def list_open leveldb_flags_default_def)
  from received_run [OF this] have "process_run ?main ?handle [Started, Received (Sparql [])] (Serving ?srv [Sparql []])" .
  from sparql_query_ends_process [OF this, of "[]"] show ?thesis by (simp add: scripted_engine_def c_str_def)
qed

text \<open>
  C8: The life of the sharding server. Suppose its address can be used, it has backends, which are persistence
  servers with new databases and disks on which no write fails, handlers do not overlap, no two statements of the requests have
  the same four hashes, and no request asks for the contexts or is a batch that adds namespaces. Then whatever numbers are drawn
  and however the threads of a request are scheduled, the process does not crash; all requests received are answered or pending,
  and every pending one can be answered; told to stop by a signal it can answer exactly the pending requests and return from
  \<open>main\<close> with status 0; and while it serves or shuts
  down, the answers are those of a run of the specification of a single server, except that the counts of removals, clearings and
  sizes may be too small when there are several backends, and the shards stand for the state of that run.
\<close>

theorem sharding_server_process:
  fixes E :: "('db, 'it) environment" and rhash :: "proto_Resource \<Rightarrow> 64 word"
  defines "handle std_hash order h \<equiv> (\<lambda>svc r out. \<exists>rand schedule. out = sharding_handle (leveldb_stub E std_hash order) h rhash order rand schedule svc r)"
  assumes "store E A" and "\<forall>db b. db_Write E db b \<noteq> None"
    and "\<forall>c f. \<exists>db. db_Open E c f = Some db \<and> entries_of A db = []"
    and "listen (shf_host flags @ '':'' @ shf_port flags)"
    and "split (shf_backends flags) (CHR '','') \<noteq> []"
    and "\<forall>name \<in> set (split (shf_backends flags) (CHR '','')). \<exists>path. LevelDBPersistence_new E path = exec_return (net name)"
    and "collision_free E T"
    and "process_run (sharding_server_main net listen flags) (handle std_hash order h) evs P"
    and "\<forall>r \<in> set (received evs). proxy_request_ok A T r"
  shows "(\<forall>e. P \<noteq> Crashed e) \<and> mset (received evs) = mset (map fst (answers evs)) + mset (pending_of P) \<and>
    (\<forall>r \<in> set (pending_of P). \<exists>resp P'.
      process_step (sharding_server_main net listen flags) (handle std_hash order h) P (Answered r resp) P' \<and>
      length (pending_of P') < length (pending_of P)) \<and>
    (\<forall>srv pending. P = Serving srv pending \<or> P = Shutting_down srv pending \<longrightarrow>
      (\<exists>evs'. process_run (sharding_server_main net listen flags) (handle std_hash order h)
        (evs @ [Signal] @ evs' @ [Returned 0]) (Exited 0) \<and> mset (map fst (answers evs')) = mset pending \<and> received evs' = []) \<and>
      (\<exists>tr S. spec_trace E tr S \<and>
        list_all2 (\<lambda>(r, resp) (r', resp'). r' = r \<and> answer_within (length (sh_channels (srv_service srv))) r resp resp') (answers evs) tr \<and>
        represents E A h (sh_channels (srv_service srv)) S))"
proof -
  have process: "proxy_process E A net listen flags T"
    using assms(2-8) by (simp add: proxy_process_def proxy_process_axioms_def reliableI)
  note run = assms(9) [unfolded handle_def]
  note inv = proxy_process.life_invariant [OF process run assms(10)]
  have "\<exists>resp P'. process_step (sharding_server_main net listen flags) (handle std_hash order h) P (Answered r resp) P' \<and>
      length (pending_of P') < length (pending_of P)" if "r \<in> set (pending_of P)" for r
    unfolding handle_def by (rule proxy_process.life_drains [OF process run assms(10) that]) blast
  moreover have "\<exists>evs'. process_run (sharding_server_main net listen flags) (handle std_hash order h)
      (evs @ [Signal] @ evs' @ [Returned 0]) (Exited 0) \<and> mset (map fst (answers evs')) = mset pending \<and> received evs' = []"
    if "P = Serving srv pending \<or> P = Shutting_down srv pending" for srv pending
    unfolding handle_def by (rule proxy_process.life_stops [OF process run assms(10) that]) blast
  ultimately show ?thesis using run_requests [OF assms(9)] inv by blast
qed

theorem sharding_server_process_witness:
  "\<exists>srv tr S. process_run (sharding_server_main (\<lambda>_. empty_store) (\<lambda>_. True) example_sharding_flags)
      (\<lambda>svc r out. \<exists>rand schedule. out =
        sharding_handle (leveldb_stub (list_environment True) (\<lambda>_. 0) rev) (\<lambda>_. 1) (\<lambda>_. 0) rev rand schedule svc r)
      [Started, Received (Req_Size []), Signal, Answered (Req_Size []) (Resp_Count Status_OK 0)] (Shutting_down srv []) \<and>
    spec_trace (list_environment True) tr S \<and> length tr = 1"
proof -
  let ?E = "list_environment True" and ?bs = "[empty_store, empty_store]"
  let ?svc = "\<lparr>sh_backends = [''a:1'', ''b:2''], sh_channels = ?bs\<rparr>"
  let ?main = "sharding_server_main (\<lambda>_. empty_store) (\<lambda>_. True) example_sharding_flags"
  let ?handle = "\<lambda>svc r out. \<exists>rand schedule. out = sharding_handle (leveldb_stub ?E (\<lambda>_. 0) rev) (\<lambda>_. 1) (\<lambda>_. 0) rev rand schedule svc r"
  have "?main = exec_return \<lparr>srv_address = ''h:1'', srv_service = ?svc\<rparr>"
    unfolding sharding_server_main_def example_backends
    by (simp add: ShardingService_new_def example_sharding_flags_def)
  moreover have "?handle ?svc (Req_Size []) (exec_return (Resp_Count Status_OK 0, ?svc))"
    using reliable_store.sharded_size [OF reliableI [OF list_store.store_axioms [of True] list_environment_opens(1)] empty_shards(1),
        of "\<lambda>_. 0" rev "[]"]
    by (intro exI [of _ 0] exI [of _ "[]"]) (simp add: sharding_handle_def counted_def empty_shards(2))
  ultimately have run: "process_run ?main ?handle [Started, Received (Req_Size []), Signal, Answered (Req_Size []) (Resp_Count Status_OK 0)]
      (Shutting_down \<lparr>srv_address = ''h:1'', srv_service = ?svc\<rparr> [])"
    using example_run [of ?main "\<lparr>srv_address = ''h:1'', srv_service = ?svc\<rparr>" ?handle] by simp
  have "collision_free ?E {}" by (simp add: collision_free_def)
  from sharding_server_process [OF list_store.store_axioms [of True] list_environment_opens _ _ _ this run] run
  show ?thesis by (auto simp: example_backends list_open list_all2_Cons1)
qed

text \<open>
  C31: Asking the sharding server for the contexts. Whatever it has done before, a serving process that has
  a backend and has received the request never answers \<open>GetContexts\<close>; the request ends the process by
  \<open>std::terminate\<close>, because the threads it starts are not joined.
\<close>

theorem sharding_server_contexts_abort:
  assumes "process_run main (\<lambda>svc r out. \<exists>rand schedule. out = sharding_handle S h rhash order rand schedule svc r) evs (Serving srv pending)" and "Req_GetContexts \<in> set pending"
    and "sh_channels (srv_service srv) \<noteq> []"
  shows "process_run main (\<lambda>svc r out. \<exists>rand schedule. out = sharding_handle S h rhash order rand schedule svc r)
      (evs @ [Failed (Some Req_GetContexts) Terminated]) (Crashed Terminated) \<and>
    (\<forall>resp P. \<not> process_step main (\<lambda>svc r out. \<exists>rand schedule. out = sharding_handle S h rhash order rand schedule svc r)
      (Serving srv pending) (Answered Req_GetContexts resp) P)"
proof -
  let ?handle = "\<lambda>svc r out. \<exists>rand schedule. out = sharding_handle S h rhash order rand schedule svc r"
  have terminates: "sharding_handle S h rhash order rand schedule (srv_service srv) Req_GetContexts = exec_throw Terminated"
    for rand schedule using Sharding_GetContexts_terminates [OF assms(3), of S rhash order schedule collect "[]"] by (simp add: sharding_handle_def)
  have "process_step main ?handle (Serving srv pending) (Failed (Some Req_GetContexts) Terminated) (Crashed Terminated)"
    using assms(2) by (intro process_step.answer_fails) (simp_all add: terminates)
  moreover have "\<not> process_step main ?handle (Serving srv pending) (Answered Req_GetContexts resp) P" for resp P
    by (auto elim!: process_stepE simp: terminates exec_return_def exec_throw_def)
  ultimately show ?thesis using process_run.stepped [OF assms(1)] by blast
qed

theorem sharding_server_contexts_abort_witness:
  "process_run (sharding_server_main (\<lambda>_. empty_store) (\<lambda>_. True) example_sharding_flags)
     (\<lambda>svc r out. \<exists>rand schedule. out =
       sharding_handle (leveldb_stub (list_environment True) (\<lambda>_. 0) rev) (\<lambda>_. 1) (\<lambda>_. 0) rev rand schedule svc r)
     [Started, Received Req_GetContexts, Failed (Some Req_GetContexts) Terminated] (Crashed Terminated)"
proof -
  let ?main = "sharding_server_main (\<lambda>_. empty_store) (\<lambda>_. True) example_sharding_flags"
  let ?svc = "\<lparr>sh_backends = [''a:1'', ''b:2''], sh_channels = [empty_store, empty_store]\<rparr>"
  have "?main = exec_return \<lparr>srv_address = ''h:1'', srv_service = ?svc\<rparr>"
    unfolding sharding_server_main_def example_backends
    by (simp add: ShardingService_new_def example_sharding_flags_def)
  from sharding_server_contexts_abort [OF received_run [OF this]] show ?thesis by simp
qed

end
