(* ===== verification/Client_Queries.thy ===== *)
theory Client_Queries
  imports Executables Sparql_Service
begin

text \<open>
  The commands of \<open>client/client.cc\<close> that print what the server holds: \<open>sparql\<close> against the handler of
  the SPARQL service of \<open>persistence/leveldb_service.cc\<close>, and \<open>namespaces\<close> against the handler of
  its SAIL service.
\<close>

text \<open>
  The stub of the SPARQL service over its handler: what the handler writes is what the client reads,
  and a handler that throws ends the stream without a message. The engine may look at the store. The stub is only
  about what the client reads; that the exception also ends the server's process is in \<open>Server_Process\<close>.
\<close>

definition sparql_stub :: "'x rasqal \<Rightarrow> ('p \<Rightarrow> ('q, 'r, 'x) rasqal_engine) \<Rightarrow> string \<Rightarrow> 'p \<Rightarrow> SparqlResponse list" where
  "sparql_stub Q G query p = snd (call_result [] (Service_TupleQuery Q (G p) query collect []))"

lemma tupleQuery_loop_concat: "tupleQuery_loop Print rs out = out @ concat (map Print rs)"
  by (induction rs arbitrary: out) simp_all

lemma print_lines: "exec_foldl (\<lambda>out x. exec_return (out @ line x)) out xs = exec_return (out @ concat (map line xs))"
  by (induction xs arbitrary: out) simp_all

text \<open>What a command that writes text leaves behind: the file named by the flag, or the console.\<close>

definition printed :: "client_flags \<Rightarrow> string \<Rightarrow> 'b client_state \<Rightarrow> 'b client_state" where
  "printed flags t st =
     (if clf_output flags \<noteq> '''' then st\<lparr>cl_files := (cl_files st)(clf_output flags \<mapsto> bytes_of t)\<rparr>
      else st\<lparr>cl_console := (cl_console st)\<lparr>cout := cout (cl_console st) @ t\<rparr>\<rparr>)"

lemma with_output_printed:
  "(\<And>out. print_to out = exec_return (out @ t)) \<Longrightarrow> with_output flags print_to st = exec_return (printed flags t st)"
  by (simp add: with_output_def printed_def)

lemma client_main_prints:
  assumes "1 < length argv"
  shows "argv ! 1 = ''sparql'' \<Longrightarrow> client_main C flags argv st = run_sparql C flags argv st"
    and "argv ! 1 = ''namespaces'' \<Longrightarrow>
      client_main C flags argv st = run_namespaces flags (ce_stub C (clf_host flags @ '':'' @ clf_port flags)) st"
  using assms by (simp_all add: client_main_def)

lemma run_sparql_prints:
  assumes "2 < length argv" and "argv ! 1 = ''sparql''" and "ce_TupleQuery C (clf_host flags @ '':'' @ clf_port flags) = sparql_stub Q G"
  shows "client_main C flags argv st =
    exec_return (printed flags (concat (map (ce_Print C) (sparql_stub Q G (argv ! 2) (cl_server st)))) st)"
  using assms client_main_prints(1) [of argv C flags st]
  by (simp add: run_sparql_def with_output_printed tupleQuery_def tupleQuery_loop_concat)

text \<open>
  C25: What the command \<open>sparql\<close> prints, when its stub is answered by the handler of the SPARQL service. If the engine of the server prepares and executes the query, every binding
  of every row converts and the variables of a row are distinct, the
  client prints one message per row, in order, with one binding for each variable, sorted by name,
  to the file or the console. If the engine refuses to prepare or to execute the query, the
  client succeeds with the file empty or the console as it was, and reports no error.
\<close>

theorem client_sparql_prints:
  fixes G :: "'b \<Rightarrow> ('q, 'r, 'x) rasqal_engine"
  assumes "2 < length argv" and "argv ! 1 = ''sparql''"
    and "ce_TupleQuery C (clf_host flags @ '':'' @ clf_port flags) = sparql_stub Q G"
    and "rasqal_results (G (cl_server st)) rows"
  shows "(\<forall>q r. rasqal_query_prepare (G (cl_server st)) (c_str (argv ! 2)) = Some q \<and>
      rasqal_query_execute (G (cl_server st)) q = Some r \<and>
      (\<forall>b \<in> set (rows r). row_converts Q b \<and> distinct (map fst b)) \<longrightarrow>
      (\<exists>responses. client_main C flags argv st = exec_return (printed flags (concat (map (ce_Print C) responses)) st) \<and>
        list_all2 (\<lambda>b m. sorted_wrt (<) (map fst m) \<and>
          map_of m = map_of (map (\<lambda>(name, v). (name, val_internal (projr (ConvertValue Q v)))) b)) (rows r) responses)) \<and>
    (rasqal_query_prepare (G (cl_server st)) (c_str (argv ! 2)) = None \<or>
      (\<exists>q. rasqal_query_prepare (G (cl_server st)) (c_str (argv ! 2)) = Some q \<and> rasqal_query_execute (G (cl_server st)) q = None) \<longrightarrow>
      (\<exists>st'. client_main C flags argv st = exec_return st' \<and> cl_console st' = cl_console st \<and>
        cl_files st' = (if clf_output flags \<noteq> '''' then (cl_files st)(clf_output flags \<mapsto> []) else cl_files st)))"
proof (intro conjI allI impI)
  fix q r
  assume ok: "rasqal_query_prepare (G (cl_server st)) (c_str (argv ! 2)) = Some q \<and>
      rasqal_query_execute (G (cl_server st)) q = Some r \<and> (\<forall>b \<in> set (rows r). row_converts Q b \<and> distinct (map fst b))"
  obtain responses where "Service_TupleQuery Q (G (cl_server st)) (argv ! 2) collect [] =
      exec_return (Status_OK, callback_state collect [] responses)"
    and rows: "list_all2 (\<lambda>b m. sorted_wrt (<) (map fst m) \<and>
      map_of m = map_of (map (\<lambda>(name, v). (name, val_internal (projr (ConvertValue Q v)))) b)) (rows r) responses"
    using Service_TupleQuery_run [OF assms(4), of "argv ! 2" q r Q collect "[]"] ok by blast
  then have "sparql_stub Q G (argv ! 2) (cl_server st) = responses" by (simp add: sparql_stub_def collect_state)
  with rows run_sparql_prints [OF assms(1-3)] show "\<exists>responses.
      client_main C flags argv st = exec_return (printed flags (concat (map (ce_Print C) responses)) st) \<and>
      list_all2 (\<lambda>b m. sorted_wrt (<) (map fst m) \<and>
        map_of m = map_of (map (\<lambda>(name, v). (name, val_internal (projr (ConvertValue Q v)))) b)) (rows r) responses"
    by auto
next
  assume "rasqal_query_prepare (G (cl_server st)) (c_str (argv ! 2)) = None \<or>
      (\<exists>q. rasqal_query_prepare (G (cl_server st)) (c_str (argv ! 2)) = Some q \<and> rasqal_query_execute (G (cl_server st)) q = None)"
  then have "sparql_stub Q G (argv ! 2) (cl_server st) = []"
    by (auto simp: sparql_stub_def Service_TupleQuery_def TupleQuery_def call_result_def exec_throw_def exec_bind_def)
  with run_sparql_prints [OF assms(1-3), of st] show "\<exists>st'. client_main C flags argv st = exec_return st' \<and> cl_console st' = cl_console st \<and>
      cl_files st' = (if clf_output flags \<noteq> '''' then (cl_files st)(clf_output flags \<mapsto> []) else cl_files st)"
    by (simp add: printed_def bytes_of_def)
qed

text \<open>
  The command \<open>namespaces\<close>. It prints every namespace of the server once, as its prefix and its URI
  on a line of their own, to the file or the console, and changes nothing else.
\<close>

theorem client_namespaces_prints:
  assumes "store E A" and "wf_namespaces E A (cl_server st)" and "1 < length argv" and "argv ! 1 = ''namespaces''"
    and "ce_stub C (clf_host flags @ '':'' @ clf_port flags) = leveldb_stub E std_hash order"
  shows "\<exists>ns. distinct ns \<and> set ns = ran (ns_lookup E A (db_ns_prefix (cl_server st))) \<and>
    client_main C flags argv st =
      exec_return (printed flags (concat (map (\<lambda>n. ns_prefix n @ '' = '' @ ns_uri n @ endl) ns)) st)"
proof -
  let ?line = "\<lambda>n. ns_prefix n @ '' = '' @ ns_uri n @ endl" and ?ns = "ns_result E A (cl_server st) Namespace_default"
  have "snd (stub_GetNamespaces (leveldb_stub E std_hash order) (cl_server st)) = ?ns"
    by (simp add: leveldb_stub_def Service_GetNamespaces_def store.GetNamespaces_result [OF assms(1)] collect_all)
  then have "listNamespaces (leveldb_stub E std_hash order) (cl_server st) out = exec_return (out @ concat (map ?line ?ns))" for out
    unfolding listNamespaces_def client_reader.for_each_remaining [OF TrueI] client_remaining_new by (simp only: print_lines)
  then have "client_main C flags argv st = exec_return (printed flags (concat (map ?line ?ns)) st)"
    using client_main_prints(2) [OF assms(3,4), of C flags st] assms(5) by (simp add: run_namespaces_def with_output_printed)
  moreover have "ns_entries_ok E A ns_prefix (entries_of A (db_ns_prefix (cl_server st)))"
    using assms(2) by (simp add: wf_namespaces_def ns_db_ok_def)
  then have "distinct ?ns" "set ?ns = ran (ns_lookup E A (db_ns_prefix (cl_server st)))"
    using store.ns_result_cases(3) [OF assms(1,2), of Namespace_default] store.ns_entries_range [OF assms(1)]
    by (simp_all add: Namespace_default_def)
  ultimately show ?thesis by blast
qed

subsection \<open>Examples\<close>

definition example_query_client ::
  "(raptor_event list, raptor_log list, (comparator \<times> entry list) LevelDBPersistence) client_env" where
  "example_query_client = example_client\<lparr>ce_TupleQuery := (\<lambda>_.
     sparql_stub list_rasqal (\<lambda>_. scripted_engine [[(''x'', Some (example_constant ''http://a''))]]))\<rparr>"

definition example_state :: "(comparator \<times> entry list) LevelDBPersistence client_state" where
  "example_state = \<lparr>cl_server = empty_store, cl_console = \<lparr>cout = '''', cerr = ''''\<rparr>, cl_files = Map.empty\<rparr>"

theorem client_sparql_prints_witness:
  "(\<exists>response. client_main example_query_client client_flags_default [''client'', ''sparql'', ''SELECT''] example_state =
      exec_return (printed client_flags_default (ce_Print example_query_client response) example_state)) \<and>
   (\<exists>st. client_main example_query_client client_flags_default [''client'', ''sparql'', ''''] example_state = exec_return st \<and>
     cl_console st = cl_console example_state)"
proof -
  let ?row = "[(''x'', Some (example_constant ''http://a''))]"
  let ?G = "\<lambda>_ :: (comparator \<times> entry list) LevelDBPersistence. scripted_engine [?row]"
  have stub: "ce_TupleQuery example_query_client (clf_host client_flags_default @ '':'' @ clf_port client_flags_default) =
      sparql_stub list_rasqal ?G"
    by (simp add: example_query_client_def)
  have row: "\<forall>b \<in> set [?row]. row_converts list_rasqal b \<and> distinct (map fst b)"
    by (simp add: row_converts_def ConvertValue_def example_constant_def example_variable_def)
  note prints = client_sparql_prints [OF _ _ stub scripted_results.rasqal_results_axioms [of "[?row]"]]
  show ?thesis
    using prints [of "[''client'', ''sparql'', ''SELECT'']" example_state] row
      prints [of "[''client'', ''sparql'', '''']" example_state]
    by (auto simp: scripted_engine_def list_all2_Cons1)
qed

theorem client_namespaces_prints_witness:
  "client_main example_query_client client_flags_default [''client'', ''namespaces''] example_state =
     exec_return (printed client_flags_default '''' example_state)"
proof -
  have wf: "wf_namespaces (list_environment True) list_view (cl_server example_state)"
    by (simp add: example_state_def)
  have stub: "ce_stub example_query_client (clf_host client_flags_default @ '':'' @ clf_port client_flags_default) =
      leveldb_stub (list_environment True) (\<lambda>_. 0) rev"
    by (simp add: example_query_client_def)
  show ?thesis
    using client_namespaces_prints [OF list_store.store_axioms [of True] wf _ _ stub, of "[''client'', ''namespaces'']"]
      empty_store_namespaces
    by (auto simp: example_state_def)
qed

end
