(* ===== verification/Concurrent_Queries.thy ===== *)
theory Concurrent_Queries
  imports Concurrent_Handlers
begin

text \<open>
  Queries and counts that arrive while handlers of \<open>AddStatements\<close> are running, and the end of the
  writer threads (\<open>persistence/leveldb_persistence.cc\<close>, \<open>persistence/leveldb_service.cc\<close>). A query
  reads a single index through one LevelDB iterator, which shows that database as it was when the
  iterator was created, between two writes of batches.
\<close>

subsection \<open>The end of the threads\<close>

lemma writers_step_reliable:
  assumes "\<forall>db b. db_Write E db b \<noteq> None" and "writers_step E (Running ws p) st"
  shows "\<exists>ws' p'. st = Running ws' p' \<and> length ws' + 1 = length ws"
proof -
  have pos: "Suc (length ws - Suc 0) = length ws" if "w \<in> set ws" for w using that by (cases ws) auto
  from assms(2) show ?thesis
  proof (cases rule: writers_step.cases)
    case (thread_writes n b d)
    then show ?thesis using pos by (auto simp: length_remove1)
  next
    case (thread_fails n b)
    then show ?thesis using assms(1) by blast
  qed
qed

lemma writers_step_progress:
  assumes "\<forall>db b. db_Write E db b \<noteq> None" and "ws \<noteq> []"
  shows "\<exists>st. writers_step E (Running ws p) st"
proof -
  obtain n b where w: "(n, b) \<in> set ws" using assms(2) by (cases ws) auto
  obtain d where "db_Write E (get_db n p) b = Some d" using assms(1) by blast
  with w show ?thesis by (blast intro: writers_step.thread_writes)
qed

lemma writers_steps_reliable:
  assumes "\<forall>db b. db_Write E db b \<noteq> None" and "(writers_step E ^^ n) (Running ws p) st"
  shows "\<exists>ws' p'. st = Running ws' p' \<and> length ws' + n = length ws"
  using assms(2)
proof (induction n arbitrary: st)
  case (Suc n)
  then obtain ws' p' where "length ws' + n = length ws" "writers_step E (Running ws' p') st" by fastforce
  with writers_step_reliable [OF assms(1)] show ?case by fastforce
qed simp

lemma handlers_reliable:
  assumes "\<forall>db b. db_Write E db b \<noteq> None" and "handlers_run E (Running ws p) rs st"
  shows "\<exists>ws' p'. st = Running ws' p'"
  using assms(2)
proof (induction rule: handlers_run.induct)
  case (thread_step rs st1 st2)
  then show ?case using writers_step_reliable [OF assms(1)] by blast
qed auto

lemma writers_steps_finish:
  assumes "\<forall>db b. db_Write E db b \<noteq> None"
  shows "\<exists>p'. (writers_step E ^^ length ws) (Running ws p) (Running [] p')"
proof (induction "length ws" arbitrary: ws p)
  case (Suc n)
  then have "ws \<noteq> []" by auto
  then obtain st where step: "writers_step E (Running ws p) st" using writers_step_progress [OF assms, of ws p] by blast
  with writers_step_reliable [OF assms this] Suc obtain ws' q where "st = Running ws' q" "n = length ws'" by auto
  with Suc.hyps(1) [of ws' q] step Suc.hyps(2) show ?case by (metis relpowp_Suc_I2)
qed auto

lemma handlers_run_steps:
  assumes "handlers_run E st rs st1" and "(writers_step E ^^ n) st1 st2"
  shows "handlers_run E st rs st2"
  using assms(2)
proof (induction n arbitrary: st2)
  case 0
  then show ?case using assms(1) by simp
next
  case (Suc n)
  then show ?case by (auto intro: handlers_run.thread_step)
qed

subsection \<open>Queries\<close>

context store
begin

lemma adding_query:
  assumes "adding E A B T (Running ws p)" and "\<forall>s \<in> T. stmt_ok A s"
  shows "distinct (query_result E A p pattern)" and "hits E B pattern \<subseteq> set (query_result E A p pattern)"
    and "set (query_result E A p pattern) \<subseteq> hits E T pattern"
proof -
  define t where "t = pq_type (PatternQuery_new E pattern)"
  obtain S where S: "index_holds E A t (index_db t p) S" "B \<subseteq> S" "S \<subseteq> T"
    using assms(1) unfolding adding_def writers_state.case by blast
  with assms(2) have "\<forall>s \<in> S. stmt_ok A s" by blast
  note result = query_result_index [OF S(1) this t_def]
  show "distinct (query_result E A p pattern)" using index_order.sorted_distinct [OF result(2)] by simp
  show "hits E B pattern \<subseteq> set (query_result E A p pattern)" "set (query_result E A p pattern) \<subseteq> hits E T pattern"
    using result(1) S(2,3) by (auto simp: query_hits_iff)
qed

end

text \<open>
  C10: A query while additions are running. Whatever the threads of any number of \<open>AddStatements\<close>
  handlers have written so far, a query is answered with every statement that was stored before
  and matches the pattern, and otherwise only with matching statements that one of the handlers
  was asked to add; none is reported twice.
\<close>

theorem concurrent_query:
  assumes "store E A" and "wf_statements E A p" and "handlers_run E (Running [] p) rs (Running ws q)"
    and "\<forall>r \<in> set rs. \<exists>ss. r = Add_request ss" and "\<forall>s \<in> \<Union> (added_by ` set rs). stmt_ok A s"
    and "collision_free E (stored E A p \<union> \<Union> (added_by ` set rs))"
  shows "\<exists>ss. Service_GetStatements E q pattern collect [] = exec_return (Status_OK, ss) \<and> distinct ss \<and>
    hits E (stored E A p) pattern \<subseteq> set ss \<and> set ss \<subseteq> hits E (stored E A p \<union> \<Union> (added_by ` set rs)) pattern"
proof -
  have "\<forall>s \<in> stored E A p \<union> \<Union> (added_by ` set rs). stmt_ok A s" using assms(2,5) by (auto simp: wf_statements_def)
  note result = store.adding_query [OF assms(1) store.adding_run [OF assms(1,3,2,4,6)] this, of pattern]
  have "Service_GetStatements E q pattern collect [] = exec_return (Status_OK, query_result E A q pattern)"
    by (simp add: Service_GetStatements_def store.GetStatements_result [OF assms(1)] collect_all)
  with result show ?thesis by blast
qed

text \<open>
  C11: Additions complete. While no write to disk fails, from every state that any number of
  \<open>AddStatements\<close> handlers can have reached, whatever threads write next, the others can still write, the server
  does not abort, and once each of the pending threads has written, in whatever order, the indexes are
  consistent, the store holds the old statements and all that the handlers were asked to add, and every query
  is answered with exactly those that match, each once; provided the statements can be serialised and no two of them share all four hashes.
\<close>

theorem concurrent_additions_complete:
  assumes "store E A" and "\<forall>db b. db_Write E db b \<noteq> None" and "wf_statements E A p"
    and "handlers_run E (Running [] p) rs st"
    and "\<forall>r \<in> set rs. \<exists>ss. r = Add_request ss" and "\<forall>s \<in> \<Union> (added_by ` set rs). stmt_ok A s"
    and "collision_free E (stored E A p \<union> \<Union> (added_by ` set rs))"
  shows "\<exists>ws q. st = Running ws q \<and>
    (\<forall>n st'. (writers_step E ^^ n) st st' \<longrightarrow>
      n \<le> length ws \<and> (\<exists>q'. (writers_step E ^^ (length ws - n)) st' (Running [] q'))) \<and>
    (\<forall>st'. (writers_step E ^^ length ws) st st' \<longrightarrow>
      (\<exists>q'. st' = Running [] q' \<and> wf_statements E A q' \<and> stored E A q' = stored E A p \<union> \<Union> (added_by ` set rs) \<and>
        (\<forall>pattern. \<exists>ss. Service_GetStatements E q' pattern collect [] = exec_return (Status_OK, ss) \<and> distinct ss \<and>
          set ss = hits E (stored E A p \<union> \<Union> (added_by ` set rs)) pattern)))"
proof -
  let ?T = "stored E A p \<union> \<Union> (added_by ` set rs)"
  obtain ws q where st: "st = Running ws q" using handlers_reliable [OF assms(2,4)] by blast
  have goes_on: "n \<le> length ws \<and> (\<exists>q'. (writers_step E ^^ (length ws - n)) st' (Running [] q'))"
    if steps: "(writers_step E ^^ n) st st'" for n st'
  proof -
    obtain ws' q' where "st' = Running ws' q'" "length ws' + n = length ws"
      using writers_steps_reliable [OF assms(2) steps [unfolded st]] by blast
    moreover from this have "length ws - n = length ws'" by simp
    ultimately show ?thesis using writers_steps_finish [OF assms(2), of ws' q'] by auto
  qed
  have finished: "\<exists>q'. st' = Running [] q' \<and> wf_statements E A q' \<and> stored E A q' = ?T \<and>
      (\<forall>pattern. \<exists>ss. Service_GetStatements E q' pattern collect [] = exec_return (Status_OK, ss) \<and> distinct ss \<and>
        set ss = hits E ?T pattern)" if run: "(writers_step E ^^ length ws) st st'" for st'
  proof -
    obtain q' where q': "st' = Running [] q'" using writers_steps_reliable [OF assms(2) run [unfolded st]] by auto
    have "\<forall>s \<in> ?T. stmt_ok A s" using assms(3,6) by (auto simp: wf_statements_def)
    note final = store.adding_done [OF assms(1) store.adding_run [OF assms(1) _ assms(3,5,7)] this,
        OF handlers_run_steps [OF assms(4) run, unfolded q']]
    have "Service_GetStatements E q' pattern collect [] = exec_return (Status_OK, query_result E A q' pattern)" for pattern
      by (simp add: Service_GetStatements_def store.GetStatements_result [OF assms(1)] collect_all)
    with q' final store.query_result_set(1,2) [OF assms(1) final(1)] show ?thesis by auto
  qed
  from st goes_on finished show ?thesis by blast
qed

subsection \<open>Examples\<close>

text \<open>The additions of two clients have arrived, and no thread has written yet.\<close>

lemma example_handlers:
  "\<exists>ws. handlers_run (list_environment True) (Running [] empty_store) [Add_request [example_statement], Add_request []]
     (Running ws empty_store)"
proof -
  have "handlers_run (list_environment True) (Running [] empty_store) [Add_request [example_statement]]
      (Running ([] @ statement_writers (batches_of (list_environment True) (map Op_Add [example_statement]))) empty_store)"
    using handlers_run.start_threads [OF handlers_run.idle add_request_batches] by (metis append_Nil)
  from handlers_run.start_threads [OF this add_request_batches, of "[]"] show ?thesis by auto
qed

theorem concurrent_additions_complete_witness:
  "\<exists>ws st q. handlers_run (list_environment True) (Running [] empty_store) [Add_request [example_statement], Add_request []]
       (Running ws empty_store) \<and>
     (writers_step (list_environment True) ^^ length ws) (Running ws empty_store) st \<and> st = Running [] q \<and>
     stored (list_environment True) list_view q = {example_statement}"
proof -
  let ?E = "list_environment True" and ?rs = "[Add_request [example_statement], Add_request []]"
  obtain ws where run: "handlers_run ?E (Running [] empty_store) ?rs (Running ws empty_store)" using example_handlers by blast
  have disk: "\<forall>db b. db_Write ?E db b \<noteq> None" by (simp add: list_environment_def)
  have "collision_free ?E (stored ?E list_view empty_store \<union> \<Union> (added_by ` set ?rs))" by (simp add: collision_free_def)
  from concurrent_additions_complete [OF list_store.store_axioms [of True] disk empty_store_wf(1) run _ _ this]
    writers_steps_finish [OF disk, of ws empty_store]
  show ?thesis using run empty_store_wf by fastforce
qed

theorem concurrent_query_witness:
  "\<exists>ws ss. handlers_run (list_environment True) (Running [] empty_store) [Add_request [example_statement], Add_request []]
       (Running ws empty_store) \<and>
     Service_GetStatements (list_environment True) empty_store Statement_default collect [] = exec_return (Status_OK, ss) \<and>
     set ss \<subseteq> {example_statement}"
proof -
  let ?rs = "[Add_request [example_statement], Add_request []]"
  obtain ws where run: "handlers_run (list_environment True) (Running [] empty_store) ?rs (Running ws empty_store)"
    using example_handlers by blast
  have "collision_free (list_environment True) (stored (list_environment True) list_view empty_store \<union> \<Union> (added_by ` set ?rs))"
    by (simp add: collision_free_def)
  from concurrent_query [OF list_store.store_axioms [of True] empty_store_wf(1) run _ _ this, of Statement_default]
  show ?thesis using run by auto
qed

end
