(* ===== verification/Partial_Failure.thy ===== *)
theory Partial_Failure
  imports Sharded_Updates
begin

text \<open>
  The sharding proxy (\<open>sharding/sharding.cc\<close>) when some of its backends cannot be reached. A call to
  such a backend ends with the status \<open>UNAVAILABLE\<close> (14), an empty response and no messages; that is
  how gRPC reports it to the stub. The handlers that read or route streams do not look at these
  statuses; \<open>Fanout\<close> does.
\<close>

subsection \<open>Backends that may be down\<close>

text \<open>A backend that is down is \<open>None\<close>.\<close>

definition unavailable :: Status where
  "unavailable = Status_error 14"

definition reach :: "'r \<Rightarrow> ('b \<Rightarrow> (Status \<times> 'r) \<times> 'b) \<Rightarrow> 'b option \<Rightarrow> (Status \<times> 'r) \<times> 'b option" where
  "reach no_response call b =
     (case b of None \<Rightarrow> ((unavailable, no_response), None) | Some b \<Rightarrow> (let (r, b') = call b in (r, Some b')))"

definition reachable_stub :: "'b SailStub \<Rightarrow> 'b option SailStub" where
  "reachable_stub S =
     \<lparr>stub_AddNamespaces = (\<lambda>ns. reach 0 (stub_AddNamespaces S ns)),
      stub_GetNamespace = (\<lambda>pattern b. case b of None \<Rightarrow> (unavailable, Namespace_default) | Some b \<Rightarrow> stub_GetNamespace S pattern b),
      stub_GetNamespaces = (\<lambda>b. case b of None \<Rightarrow> (unavailable, []) | Some b \<Rightarrow> stub_GetNamespaces S b),
      stub_AddStatements = (\<lambda>ss. reach 0 (stub_AddStatements S ss)),
      stub_GetStatements = (\<lambda>pattern b. case b of None \<Rightarrow> [] | Some b \<Rightarrow> stub_GetStatements S pattern b),
      stub_RemoveStatements = (\<lambda>pattern. reach 0 (stub_RemoveStatements S pattern)),
      stub_Update = (\<lambda>us. reach UpdateResponse_default (stub_Update S us)),
      stub_Clear = (\<lambda>contexts. reach 0 (stub_Clear S contexts)),
      stub_Size = (\<lambda>contexts. reach 0 (stub_Size S contexts)),
      stub_GetContexts = (\<lambda>b. case b of None \<Rightarrow> [] | Some b \<Rightarrow> stub_GetContexts S b)\<rparr>"

lemma reach_simps [simp]:
  "reach d call None = ((unavailable, d), None)"
  "reach d call (Some b) = (fst (call b), Some (snd (call b)))"
  by (simp_all add: reach_def case_prod_beta)

lemma reachable_stub_simps [simp]:
  "stub_AddStatements (reachable_stub S) ss = reach 0 (stub_AddStatements S ss)"
  "stub_GetStatements (reachable_stub S) pattern None = []"
  "stub_GetStatements (reachable_stub S) pattern (Some b) = stub_GetStatements S pattern b"
  "stub_RemoveStatements (reachable_stub S) pattern = reach 0 (stub_RemoveStatements S pattern)"
  "stub_Clear (reachable_stub S) contexts = reach 0 (stub_Clear S contexts)"
  "stub_Size (reachable_stub S) contexts = reach 0 (stub_Size S contexts)"
  by (simp_all add: reachable_stub_def)

text \<open>A backend that is down is taken as empty, and as sound.\<close>

abbreviation if_up :: "('b \<Rightarrow> bool) \<Rightarrow> 'b option \<Rightarrow> bool" where
  "if_up ok b \<equiv> (case b of None \<Rightarrow> True | Some b \<Rightarrow> ok b)"

abbreviation contents_up :: "('b \<Rightarrow> proto_Statement set) \<Rightarrow> 'b option \<Rightarrow> proto_Statement set" where
  "contents_up contents b \<equiv> (case b of None \<Rightarrow> {} | Some b \<Rightarrow> contents b)"

sublocale sail_backend \<subseteq> up: sail_reader "reachable_stub S" "if_up ok" "contents_up contents" hit
proof unfold_locales
  fix b pattern
  assume "if_up ok b"
  then show "set (stub_GetStatements (reachable_stub S) pattern b) = {s \<in> contents_up contents b. hit pattern s} \<and>
      distinct (stub_GetStatements (reachable_stub S) pattern b)"
    using get by (cases b) simp_all
qed

subsection \<open>Adding statements\<close>

lemma sum_bucket_lengths_if:
  assumes "0 < n"
  shows "(\<Sum>i < n. if P i then int (length [s \<leftarrow> reader. unat (h s) mod n = i]) else 0) =
    int (length [s \<leftarrow> reader. P (unat (h s) mod n)])"
proof (induction reader)
  case (Cons s reader)
  have "(\<Sum>i < n. if P i then int (length [u \<leftarrow> s # reader. unat (h u) mod n = i]) else 0) =
      (\<Sum>i < n. (if unat (h s) mod n = i then (if P i then 1 else 0) else 0) +
        (if P i then int (length [u \<leftarrow> reader. unat (h u) mod n = i]) else 0))"
    by (intro sum.cong refl) simp
  also have "\<dots> = (if P (unat (h s) mod n) then 1 else 0) + int (length [u \<leftarrow> reader. P (unat (h u) mod n)])"
    using Cons assms by (simp add: sum.distrib sum.delta)
  finally show ?case by simp
qed (simp cong: if_cong)

context sail_backend
begin

lemma add_up:
  assumes "placed (if_up ok) (contents_up contents) h bs" and "bs \<noteq> []" and "\<forall>s \<in> set reader. valid s"
    and sep: "\<forall>u \<in> T. \<forall>v \<in> T. same u v \<longrightarrow> u = v" and "T = all_contents (contents_up contents) bs \<union> set reader"
  defines "arrives s \<equiv> bs ! (unat (h s) mod length bs) \<noteq> None"
  shows "\<exists>bs'. Sharding_AddStatements (reachable_stub S) h reader bs =
      exec_return ((Status_OK, int (length [s \<leftarrow> reader. arrives s])), bs') \<and>
    placed (if_up ok) (contents_up contents) h bs' \<and>
    all_contents (contents_up contents) bs' = all_contents (contents_up contents) bs \<union> {s \<in> set reader. arrives s}"
proof -
  let ?n = "length bs" and ?r = "\<lambda>i. [s \<leftarrow> reader. unat (h s) mod length bs = i]" and ?C = "contents_up contents"
  let ?call = "\<lambda>i. stub_AddStatements (reachable_stub S) (?r i) (bs ! i)" and ?count = "\<lambda>i. int (length (?r i))"
  have "\<exists>b'. ?call i = ((if bs ! i = None then (unavailable, 0) else (Status_OK, ?count i)), b') \<and> if_up ok b' \<and>
      ?C b' = ?C (bs ! i) \<union> (if bs ! i = None then {} else set (?r i))" if i: "i < ?n" for i
  proof (cases "bs ! i")
    case (Some b)
    have "contents b \<union> set (?r i) \<subseteq> T" using i Some assms(5) by (fastforce simp: all_contents_def)
    then have "foldl (\<lambda>C s. insert s {u \<in> C. \<not> same u s}) (contents b) (?r i) = contents b \<union> set (?r i)"
      using sep by (intro added_exact) blast
    moreover have "ok b" using placed_shard(1) [OF assms(1) i] Some by simp
    ultimately show ?thesis using add [of b "?r i"] assms(3) Some by fastforce
  qed simp
  then have "\<forall>i. \<exists>b'. i < ?n \<longrightarrow> ?call i = ((if bs ! i = None then (unavailable, 0) else (Status_OK, ?count i)), b') \<and> if_up ok b' \<and>
      ?C b' = ?C (bs ! i) \<union> (if bs ! i = None then {} else set (?r i))" by blast
  from choice [OF this] obtain f where f: "i < ?n \<Longrightarrow> ?call i = ((if bs ! i = None then (unavailable, 0) else (Status_OK, ?count i)), f i)"
    "i < ?n \<Longrightarrow> if_up ok (f i)" "i < ?n \<Longrightarrow> ?C (f i) = ?C (bs ! i) \<union> (if bs ! i = None then {} else set (?r i))" for i by blast
  let ?bs = "map f [0..<?n]"
  have "(\<Sum>i \<leftarrow> [0..<?n]. snd (fst (?call i))) = (\<Sum>i < ?n. if bs ! i \<noteq> None then ?count i else 0)"
    unfolding sum_list_upt using f(1) by (intro sum.cong refl) simp
  then have calls: "map (\<lambda>i. snd (?call i)) [0..<?n] = ?bs"
    "(\<Sum>i \<leftarrow> [0..<?n]. snd (fst (?call i))) = int (length [s \<leftarrow> reader. arrives s])"
    using sum_bucket_lengths_if [of ?n "\<lambda>i. bs ! i \<noteq> None" h reader] assms(2) f(1) by (simp_all add: arrives_def)
  have run: "Sharding_AddStatements (reachable_stub S) h reader bs = exec_return ((Status_OK, int (length [s \<leftarrow> reader. arrives s])), ?bs)"
    using assms(2) unfolding Sharding_AddStatements_result Let_def calls by simp
  have "placed (if_up ok) ?C h ?bs"
    using f(2) placed_shard(2) [OF assms(1)] by (auto simp: placed_def f(3) split: if_splits)
  moreover have "all_contents ?C ?bs = all_contents ?C bs \<union> {s \<in> set reader. arrives s}"
  proof (intro equalityI subsetI)
    fix s assume "s \<in> all_contents ?C ?bs"
    then obtain i where "i < ?n" "s \<in> ?C (f i)" by (auto simp: all_contents_def)
    then show "s \<in> all_contents ?C bs \<union> {s \<in> set reader. arrives s}"
      by (auto simp: f(3) all_contents_def arrives_def split: if_splits)
  next
    fix s assume s: "s \<in> all_contents ?C bs \<union> {s \<in> set reader. arrives s}"
    have "unat (h s) mod ?n < ?n" using assms(2) by simp
    then have "\<exists>i < ?n. s \<in> ?C (f i)"
      using s by (auto simp: f(3) all_contents_def arrives_def split del: option.split)
    then show "s \<in> all_contents ?C ?bs" by (auto simp: all_contents_def)
  qed
  ultimately show ?thesis using run by blast
qed

end

subsection \<open>Fan-out\<close>

lemma fanout_up:
  assumes "\<forall>b \<in> set bs. if_up (\<lambda>b. fst (fst (call b)) = Status_OK) b" and "None \<in> set bs"
  shows "fst (fst (Fanout (reach d call) schedule bs)) = unavailable"
proof -
  have "first_error (map (fst \<circ> fst \<circ> reach d call) bs) = unavailable"
    using assms by (induction bs) (auto simp: unavailable_def split: option.splits)
  then show ?thesis by (simp add: Fanout_def Let_def comp_assoc)
qed

subsection \<open>LevelDB backends, some of them down\<close>

context reliable_store
begin

lemmas reached_add = backend.add_up
lemmas reached_get = backend.up.get_all

lemma reached_fanout:
  defines "S \<equiv> reachable_stub (leveldb_stub E std_hash iteration_order)"
  assumes "\<forall>b \<in> set bs. if_up (wf_statements E A) b" and "None \<in> set bs"
  shows "fst (fst (Sharding_RemoveStatements S schedule pattern bs)) = unavailable"
    and "fst (fst (Sharding_Clear S schedule contexts bs)) = unavailable"
    and "fst (fst (Sharding_Size S schedule contexts bs)) = unavailable"
proof -
  let ?S = "leveldb_stub E std_hash iteration_order"
  have up: "\<forall>b \<in> set bs. if_up (\<lambda>b. fst (fst (call b)) = Status_OK) b"
    if "\<And>p. wf_statements E A p \<Longrightarrow> fst (fst (call p)) = Status_OK" for call
    using assms(2) that by (auto split: option.splits)
  have "fst (fst (stub_RemoveStatements ?S pattern p)) = Status_OK" "fst (fst (stub_Clear ?S contexts p)) = Status_OK"
    "fst (fst (stub_Size ?S contexts p)) = Status_OK" if "wf_statements E A p" for p
    using stub_remove [OF that, of pattern] stub_clear [OF that, of contexts] stub_size [OF that, of contexts] by auto
  then show "fst (fst (Sharding_RemoveStatements S schedule pattern bs)) = unavailable"
    "fst (fst (Sharding_Clear S schedule contexts bs)) = unavailable"
    "fst (fst (Sharding_Size S schedule contexts bs)) = unavailable"
    unfolding S_def Sharding_RemoveStatements_def Sharding_Clear_def Sharding_Size_def reachable_stub_simps
    by (intro fanout_up up assms(3); simp)+
qed

end

text \<open>
  C13: the proxy while a backend is down. Adding statements still answers \<open>OK\<close>: the statements that
  hash to a backend that is down are dropped, the others are stored and counted, and a later query
  answers \<open>OK\<close> with the matching statements of the reachable backends, each once, however its threads
  are scheduled. Removing, clearing and counting do report the failure, also under every schedule.
\<close>

theorem proxy_unreachable_backend:
  fixes bs :: "'db LevelDBPersistence option list" and order :: "proto_Resource list \<Rightarrow> proto_Resource list"
  assumes "store E A" and "\<forall>db b. db_Write E db b \<noteq> None"
    and "placed (if_up (wf_statements E A)) (contents_up (stored E A)) (hash_Statement std_hash (ser_Statement E)) bs"
    and "None \<in> set bs" and "\<forall>s \<in> set reader. stmt_ok A s"
    and "\<forall>u \<in> all_contents (contents_up (stored E A)) bs \<union> set reader.
      \<forall>v \<in> all_contents (contents_up (stored E A)) bs \<union> set reader. same_hashes E u v \<longrightarrow> u = v"
  defines "S \<equiv> reachable_stub (leveldb_stub E std_hash order)"
  defines "arrives s \<equiv> bs ! (unat (hash_Statement std_hash (ser_Statement E) s) mod length bs) \<noteq> None"
  shows "(\<exists>bs'. Sharding_AddStatements S (hash_Statement std_hash (ser_Statement E)) reader bs =
      exec_return ((Status_OK, int (length [s \<leftarrow> reader. arrives s])), bs') \<and>
    (\<forall>schedule pattern. \<exists>w. Sharding_GetStatements S schedule pattern collect [] bs' = (Status_OK, w) \<and>
      set w = {s \<in> all_contents (contents_up (stored E A)) bs \<union> {s \<in> set reader. arrives s}. hash_matches E (effective pattern) s} \<and>
      distinct w)) \<and>
    fst (fst (Sharding_RemoveStatements S schedule pattern bs)) = Status_error 14 \<and>
    fst (fst (Sharding_Clear S schedule contexts bs)) = Status_error 14 \<and>
    fst (fst (Sharding_Size S schedule contexts bs)) = Status_error 14"
proof -
  note r = reliableI [OF assms(1,2)]
  have ne: "bs \<noteq> []" using assms(4) by auto
  obtain bs' where bs': "Sharding_AddStatements S (hash_Statement std_hash (ser_Statement E)) reader bs =
      exec_return ((Status_OK, int (length [s \<leftarrow> reader. arrives s])), bs')"
    "placed (if_up (wf_statements E A)) (contents_up (stored E A)) (hash_Statement std_hash (ser_Statement E)) bs'"
    "all_contents (contents_up (stored E A)) bs' = all_contents (contents_up (stored E A)) bs \<union> {s \<in> set reader. arrives s}"
    using reliable_store.reached_add [OF r assms(3) ne assms(5,6) refl] unfolding S_def arrives_def by blast
  have "\<forall>b \<in> set bs. if_up (wf_statements E A) b"
    using assms(3) by (auto simp: placed_def in_set_conv_nth)
  note fanned = reliable_store.reached_fanout [OF r this assms(4), folded S_def, unfolded unavailable_def]
  show ?thesis
    using bs'(1) reliable_store.reached_get [OF r bs'(2), of std_hash order] fanned unfolding bs'(3) S_def by blast
qed

theorem proxy_unreachable_backend_witness:
  "\<exists>bs'. Sharding_AddStatements (reachable_stub (leveldb_stub (list_environment True) (\<lambda>_. 5) rev))
      (hash_Statement (\<lambda>_. 5) (ser_Statement (list_environment True))) [example_statement] [Some empty_store, None] =
    exec_return ((Status_OK, 0), bs') \<and>
   Sharding_GetStatements (reachable_stub (leveldb_stub (list_environment True) (\<lambda>_. 5) rev)) [] Statement_default collect []
      bs' = (Status_OK, [])"
proof -
  let ?E = "list_environment True" and ?bs = "[Some empty_store, None]"
  have writes: "\<forall>db b. db_Write ?E db b \<noteq> None" by (simp add: list_environment_def)
  have bs: "placed (if_up (wf_statements ?E list_view)) (contents_up (stored ?E list_view)) h ?bs"
    "all_contents (contents_up (stored ?E list_view)) ?bs = {}" for h
    by (simp_all add: placed_def all_contents_def lessThan_Suc nth_Cons split: nat.split)
  have ok: "\<forall>s \<in> set [example_statement]. stmt_ok list_view s"
    "\<forall>u \<in> {} \<union> set [example_statement]. \<forall>v \<in> {} \<union> set [example_statement]. same_hashes ?E u v \<longrightarrow> u = v"
    by simp_all
  have down: "[Some empty_store, None] ! (5 mod Suc (Suc 0)) = None" by (simp flip: numeral_2_eq_2)
  show ?thesis
    using proxy_unreachable_backend [OF list_store.store_axioms [of True] writes bs(1) _ ok(1),
        of "\<lambda>_. 5" rev "[]" Statement_default "[]", unfolded bs(2), OF _ ok(2)]
    by (auto simp: hash_Statement_def hash_Message_def down)
qed

end
