(* ===== verification/Lifetimes.thy ===== *)
theory Lifetimes
  imports Serializer Parser Sparql "HOL-Library.Multiset"
begin

text \<open>
  Who frees what. The parser (\<open>parser/rdf_parser.cc\<close>), the Raptor serializer
  (\<open>serializer/serializer_raptor.cc\<close>) and the tuple queries (\<open>sparql/rasqal_adapter.cc\<close>) hold objects
  of the C libraries through plain pointers and free them by hand. Here their operations act on a
  heap of such objects: the outcome of the calls into the libraries is the one of the functional
  models, and what is left on the heap afterwards is what this theory is about.

  A heap is the list of all objects ever made, an address its position; a freed object is \<open>None\<close>.
  Making an object does not fail; freeing what is not a live object of the right kind, a null
  pointer included, is undefined. Raptor counts the references to a URI; every reference that a program asks for is an
  object here. Declaring a namespace and making a literal copy the reference they are given, so that the
  caller keeps its own. The terms of a statement belong to the statement.
\<close>

subsection \<open>Objects of the libraries\<close>

datatype library_object =
    OBJ_WORLD | OBJ_URI | OBJ_SERIALIZER | OBJ_IOSTREAM | OBJ_STATEMENT | OBJ_PARSER | OBJ_QUERY | OBJ_RESULTS

type_synonym object_heap = "library_object option list"
type_synonym 'a action = "object_heap \<Rightarrow> (error + 'a) \<times> object_heap"

definition act_return :: "'a \<Rightarrow> 'a action" where
  "act_return x h = (Inr x, h)"

definition act_throw :: "error \<Rightarrow> 'a action" where
  "act_throw e h = (Inl e, h)"

definition act_bind :: "'a action \<Rightarrow> ('a \<Rightarrow> 'b action) \<Rightarrow> 'b action" where
  "act_bind m f h = (case m h of (Inl e, h') \<Rightarrow> (Inl e, h') | (Inr x, h') \<Rightarrow> f x h')"

definition object_new :: "library_object \<Rightarrow> nat option action" where
  "object_new k h = (Inr (Some (length h)), h @ [Some k])"

definition object_free :: "library_object \<Rightarrow> nat option \<Rightarrow> unit action" where
  "object_free k p h =
     (case p of
        None \<Rightarrow> (Inl Undefined, h)
      | Some a \<Rightarrow> if a < length h \<and> h ! a = Some k then (Inr (), h[a := None]) else (Inl Undefined, h))"

definition live :: "object_heap \<Rightarrow> (nat \<times> library_object) set" where
  "live h = {(a, k). a < length h \<and> h ! a = Some k}"

subsection \<open>The Raptor serializer\<close>

record raptor_pointers =
  ptr_serializer :: "nat option"
  ptr_world :: "nat option"
  ptr_base :: "nat option"
  ptr_stream :: "nat option"

text \<open>A URI that the library refuses to make is a null pointer.\<close>

definition uri_new :: "string option \<Rightarrow> nat option action" where
  "uri_new uri = (case uri of None \<Rightarrow> act_return None | Some _ \<Rightarrow> object_new OBJ_URI)"

text \<open>\<open>initRaptor\<close>: the serializer, and a URI for each namespace, which is not freed.\<close>

fun namespace_objects :: "'s raptor_serializing \<Rightarrow> proto_URI std_map \<Rightarrow> unit action" where
  "namespace_objects R [] = act_return ()"
| "namespace_objects R ((prefix, uri) # namespaces) =
     act_bind (uri_new (raptor_new_uri R (c_str (uri_uri uri)))) (\<lambda>_. namespace_objects R namespaces)"

definition initRaptor_objects :: "'s raptor_serializing \<Rightarrow> SerializerBase \<Rightarrow> nat option action" where
  "initRaptor_objects R b =
     act_bind (object_new OBJ_SERIALIZER) (\<lambda>serializer.
     act_bind (namespace_objects R (sb_namespaces b)) (\<lambda>_. act_return serializer))"

definition RaptorSerializer_make :: "'s raptor_serializing \<Rightarrow> proto_URI \<Rightarrow> SerializerBase \<Rightarrow> raptor_pointers action" where
  "RaptorSerializer_make R baseUri b =
     act_bind (object_new OBJ_WORLD) (\<lambda>world.
     act_bind (uri_new (raptor_new_uri R (c_str (uri_uri baseUri)))) (\<lambda>base.
     act_bind (initRaptor_objects R b) (\<lambda>serializer.
       act_return \<lparr>ptr_serializer = serializer, ptr_world = world, ptr_base = base, ptr_stream = None\<rparr>)))"

definition free_unless_null :: "library_object \<Rightarrow> nat option \<Rightarrow> unit action" where
  "free_unless_null k p = (if p \<noteq> None then object_free k p else act_return ())"

definition RaptorSerializer_destroy :: "raptor_pointers \<Rightarrow> unit action" where
  "RaptorSerializer_destroy this =
     act_bind (free_unless_null OBJ_SERIALIZER (ptr_serializer this)) (\<lambda>_.
     act_bind (free_unless_null OBJ_URI (ptr_base this)) (\<lambda>_.
       free_unless_null OBJ_WORLD (ptr_world this)))"

definition RaptorSerializer_open_stream :: "raptor_pointers \<Rightarrow> raptor_pointers action" where
  "RaptorSerializer_open_stream this =
     act_bind (object_new OBJ_IOSTREAM) (\<lambda>stream. act_return (this\<lparr>ptr_stream := stream\<rparr>))"

text \<open>The URI made for the datatype of a literal, which is not freed.\<close>

definition datatype_object :: "'s raptor_serializing \<Rightarrow> proto_Value \<Rightarrow> nat option action" where
  "datatype_object R v =
     (if \<not> has_resource v \<and> has_literal v \<and> \<not> has_stringliteral (value_literal v) \<and> has_dataliteral (value_literal v)
      then uri_new (raptor_new_uri R (c_str (uri_uri (datatype_of (literal_dataliteral (value_literal v))))))
      else act_return None)"

definition RaptorSerializer_write :: "'s raptor_serializing \<Rightarrow> proto_Statement \<Rightarrow> unit action" where
  "RaptorSerializer_write R stmt =
     act_bind (object_new OBJ_STATEMENT) (\<lambda>triple.
       case raptor_resource R ''invalid subject type'' (subject_of stmt) of
         Inl e \<Rightarrow> act_throw e
       | Inr _ \<Rightarrow>
           act_bind (datatype_object R (object_of stmt)) (\<lambda>_.
             case raptor_object R (object_of stmt) of
               Inl e \<Rightarrow> act_throw e
             | Inr _ \<Rightarrow>
                 (case raptor_resource R ''invalid context type'' (context_of stmt) of
                    Inl e \<Rightarrow> act_throw e
                  | Inr _ \<Rightarrow> object_free OBJ_STATEMENT triple)))"

definition RaptorSerializer_close_stream :: "raptor_pointers \<Rightarrow> unit action" where
  "RaptorSerializer_close_stream this = object_free OBJ_IOSTREAM (ptr_stream this)"

fun write_all :: "'s raptor_serializing \<Rightarrow> proto_Statement list \<Rightarrow> unit action" where
  "write_all R [] = act_return ()"
| "write_all R (stmt # stmts) = act_bind (RaptorSerializer_write R stmt) (\<lambda>_. write_all R stmts)"

text \<open>\<open>SerializerBase::serialize\<close> on the statements that the iterator delivers.\<close>

definition serialize_objects :: "'s raptor_serializing \<Rightarrow> raptor_pointers \<Rightarrow> proto_Statement list \<Rightarrow> unit action" where
  "serialize_objects R this stmts =
     act_bind (RaptorSerializer_open_stream this) (\<lambda>this.
     act_bind (write_all R stmts) (\<lambda>_. RaptorSerializer_close_stream this))"

text \<open>A block with a local object: the destructor runs also when the block is left by an exception.\<close>

definition scoped :: "'p action \<Rightarrow> ('p \<Rightarrow> unit action) \<Rightarrow> ('p \<Rightarrow> 'a action) \<Rightarrow> 'a action" where
  "scoped construct destroy block =
     act_bind construct (\<lambda>p h. case block p h of (r, h') \<Rightarrow>
       (case destroy p h' of (Inl e, h'') \<Rightarrow> (Inl e, h'') | (Inr _, h'') \<Rightarrow> (r, h'')))"

definition serializer_block :: "'s raptor_serializing \<Rightarrow> proto_URI \<Rightarrow> SerializerBase \<Rightarrow> proto_Statement list \<Rightarrow> unit action" where
  "serializer_block R baseUri b stmts =
     scoped (RaptorSerializer_make R baseUri b) RaptorSerializer_destroy (\<lambda>this. serialize_objects R this stmts)"

subsection \<open>The parser\<close>

record parser_pointers =
  pp_parser :: "nat option"
  pp_world :: "nat option"
  pp_base :: "nat option"

definition Parser_make :: "(string \<Rightarrow> string option) \<Rightarrow> proto_URI \<Rightarrow> parser_Format \<Rightarrow> parser_pointers action" where
  "Parser_make new_uri baseUri format =
     act_bind (object_new OBJ_WORLD) (\<lambda>world.
     act_bind (uri_new (new_uri (c_str (uri_uri baseUri)))) (\<lambda>base.
       case parser_name format of
         None \<Rightarrow> act_throw Undefined
       | Some _ \<Rightarrow>
           act_bind (object_new OBJ_PARSER) (\<lambda>parser.
             act_return \<lparr>pp_parser = parser, pp_world = world, pp_base = base\<rparr>)))"

definition Parser_destroy :: "parser_pointers \<Rightarrow> unit action" where
  "Parser_destroy this =
     act_bind (object_free OBJ_PARSER (pp_parser this)) (\<lambda>_.
     act_bind (object_free OBJ_URI (pp_base this)) (\<lambda>_.
       object_free OBJ_WORLD (pp_world this)))"

text \<open>Parsing makes and frees no object of its own; its outcome is that of \<open>Parser_parse\<close>.\<close>

definition parser_block ::
  "'p raptor_parsing \<Rightarrow> (string \<Rightarrow> string option) \<Rightarrow> proto_URI \<Rightarrow> parser_Format \<Rightarrow>
   (('p, 's) Parser \<Rightarrow> error + ('p, 's) Parser \<times> 's) \<Rightarrow> 's action" where
  "parser_block R new_uri baseUri format work =
     scoped (Parser_make new_uri baseUri format) Parser_destroy (\<lambda>_.
       case Parser_new R new_uri baseUri format of
         Inl e \<Rightarrow> act_throw e
       | Inr p \<Rightarrow> (case work p of Inl e \<Rightarrow> act_throw e | Inr (_, s) \<Rightarrow> act_return s))"

subsection \<open>Tuple queries\<close>

definition SparqlService_make :: "nat option action" where
  "SparqlService_make = object_new OBJ_WORLD"

definition SparqlService_destroy :: "nat option \<Rightarrow> unit action" where
  "SparqlService_destroy world = object_free OBJ_WORLD world"

text \<open>
  The objects of \<open>SparqlService::TupleQuery\<close>. Not returning is \<open>None\<close>, as in the functional model.
\<close>

definition TupleQuery_objects ::
  "'x rasqal \<Rightarrow> ('q, 'r, 'x) rasqal_engine \<Rightarrow> string \<Rightarrow> ('s \<Rightarrow> RowType \<Rightarrow> bool \<times> 's) \<Rightarrow> 's \<Rightarrow> object_heap \<Rightarrow>
   ((error + 's) \<times> object_heap) option" where
  "TupleQuery_objects Q G query row_handler s h =
     (case act_bind (object_new OBJ_QUERY) (\<lambda>q. act_bind (object_new OBJ_URI) (\<lambda>base. act_return (q, base))) h of
        (Inl e, h) \<Rightarrow> Some (Inl e, h)
      | (Inr (q, base), h) \<Rightarrow>
          (case rasqal_query_prepare G (c_str query) of
             None \<Rightarrow>
               Some (act_bind (object_free OBJ_URI base) (\<lambda>_. act_bind (object_free OBJ_QUERY q) (\<lambda>_.
                 act_throw (SparqlException ''Query preparation failed'' query))) h)
           | Some prepared \<Rightarrow>
               (case rasqal_query_execute G prepared of
                  None \<Rightarrow>
                    Some (act_bind (object_free OBJ_URI base) (\<lambda>_. act_bind (object_free OBJ_QUERY q) (\<lambda>_.
                      act_throw (SparqlException ''Query execution failed'' query))) h)
                | Some results \<Rightarrow>
                    map_option (\<lambda>outcome.
                      act_bind (object_new OBJ_RESULTS) (\<lambda>r.
                        case outcome of
                          Inl e \<Rightarrow> act_throw e
                        | Inr s \<Rightarrow>
                            act_bind (object_free OBJ_RESULTS r) (\<lambda>_.
                            act_bind (object_free OBJ_QUERY q) (\<lambda>_.
                            act_bind (object_free OBJ_URI base) (\<lambda>_. act_return s)))) h)
                      (TupleQuery_loop Q G row_handler True results s))))"

subsection \<open>What is left\<close>

lemmas action_defs = act_return_def act_throw_def act_bind_def object_new_def object_free_def
  free_unless_null_def uri_new_def

lemma live_Nil [simp]: "live [] = {}"
  by (simp add: live_def)

lemma live_Cons [simp]: "live (x # h) = {(0, k) |k. x = Some k} \<union> {(Suc a, k) |a k. (a, k) \<in> live h}"
  by (auto simp: live_def nth_Cons less_Suc_eq_0_disj split: nat.split)

lemma live_append [simp]: "live (h @ hs) = live h \<union> {(length h + a, k) |a k. (a, k) \<in> live hs}"
  by (induction h) auto

text \<open>The kinds of the live objects of a heap.\<close>

definition left_over :: "object_heap \<Rightarrow> library_object multiset" where
  "left_over h = mset (List.map_filter id h)"

lemma left_over_simps [simp]:
  "left_over [] = {#}" "left_over (None # h) = left_over h" "left_over (Some k # h) = add_mset k (left_over h)"
  "left_over (h @ hs) = left_over h + left_over hs" "left_over (replicate n (Some k)) = replicate_mset n k"
  by (induction n) (simp_all add: left_over_def List.map_filter_def)

lemma replicate_mset_plus: "replicate_mset (m + n) x = replicate_mset m x + replicate_mset n x"
  by (rule multiset_eqI) simp

lemma left_over_none: "left_over h = {#} \<longleftrightarrow> live h = {}"
proof (induction h)
  case (Cons x h)
  then show ?case by (cases x) auto
qed simp

text \<open>The number of URIs that are made for a URI, for the namespaces of a serializer and for a statement.\<close>

definition uris_for :: "'s raptor_serializing \<Rightarrow> proto_URI \<Rightarrow> nat" where
  "uris_for R u = (if raptor_new_uri R (c_str (uri_uri u)) = None then 0 else 1)"

definition namespace_uris :: "'s raptor_serializing \<Rightarrow> SerializerBase \<Rightarrow> nat" where
  "namespace_uris R b = sum_list (map (uris_for R \<circ> snd) (sb_namespaces b))"

definition datatype_uris :: "'s raptor_serializing \<Rightarrow> proto_Statement \<Rightarrow> nat" where
  "datatype_uris R s =
     (case object_of s of
        V_LITERAL (L_DATA l) \<Rightarrow> (if subject_of s = R_NONE then 0 else uris_for R (datatype_of l))
      | _ \<Rightarrow> 0)"

lemma uri_new_heap: "\<exists>p. uri_new (raptor_new_uri R (c_str (uri_uri u))) h = (Inr p, h @ replicate (uris_for R u) (Some OBJ_URI))"
  by (cases "raptor_new_uri R (c_str (uri_uri u))") (simp_all add: uris_for_def uri_new_def act_return_def object_new_def)

lemma namespace_objects_heap:
  "namespace_objects R nss h = (Inr (), h @ replicate (sum_list (map (uris_for R \<circ> snd) nss)) (Some OBJ_URI))"
proof (induction nss arbitrary: h)
  case (Cons e nss)
  obtain prefix u where e: "e = (prefix, u)" by (cases e)
  obtain p where "uri_new (raptor_new_uri R (c_str (uri_uri u))) h = (Inr p, h @ replicate (uris_for R u) (Some OBJ_URI))"
    using uri_new_heap by metis
  with Cons show ?case by (simp add: e act_bind_def replicate_add)
qed (simp add: act_return_def)

lemma datatype_object_heap:
  assumes "subject_of s \<noteq> R_NONE"
  shows "\<exists>p. datatype_object R (object_of s) h = (Inr p, h @ replicate (datatype_uris R s) (Some OBJ_URI))"
proof (cases "object_of s")
  case (V_LITERAL l)
  then show ?thesis
    using uri_new_heap [of R "datatype_of (literal_dataliteral l)" h] assms
    by (cases l) (simp_all add: datatype_object_def datatype_uris_def act_return_def)
qed (simp_all add: datatype_object_def datatype_uris_def act_return_def)

lemma RaptorSerializer_write_heap:
  "RaptorSerializer_write R s h =
    (case raptor_triple R s of
       Inl e \<Rightarrow> (Inl e, h @ Some OBJ_STATEMENT # replicate (datatype_uris R s) (Some OBJ_URI))
     | Inr _ \<Rightarrow> (Inr (), h @ None # replicate (datatype_uris R s) (Some OBJ_URI)))"
proof (cases "raptor_resource R ''invalid subject type'' (subject_of s)")
  case (Inl e)
  then have "subject_of s = R_NONE" using raptor_resource_fails by blast
  then have "datatype_uris R s = 0" by (simp add: datatype_uris_def split: proto_Value.split proto_Literal.split)
  then show ?thesis using Inl by (simp add: RaptorSerializer_write_def raptor_triple_def act_bind_def object_new_def act_throw_def)
next
  case (Inr t)
  then have "subject_of s \<noteq> R_NONE" using raptor_resource_fails [of R "''invalid subject type''" "subject_of s"] by auto
  then obtain p where "datatype_object R (object_of s) (h @ [Some OBJ_STATEMENT]) =
      (Inr p, (h @ [Some OBJ_STATEMENT]) @ replicate (datatype_uris R s) (Some OBJ_URI))" using datatype_object_heap by blast
  with Inr show ?thesis
    by (simp add: RaptorSerializer_write_def raptor_triple_def act_bind_def object_new_def act_throw_def object_free_def
        nth_append list_update_append split: sum.split)
qed

lemma write_all_complete:
  "\<forall>s \<in> set stmts. complete_statement s \<Longrightarrow>
    \<exists>rest. (\<forall>more. write_all R (stmts @ more) h = write_all R more (h @ rest)) \<and>
      left_over rest = replicate_mset (sum_list (map (datatype_uris R) stmts)) OBJ_URI"
proof (induction stmts arbitrary: h)
  case (Cons s stmts)
  then obtain t where "raptor_triple R s = Inr t" using raptor_triple_accepts [of R s] by auto
  then have step: "write_all R (s # us) h = write_all R us (h @ None # replicate (datatype_uris R s) (Some OBJ_URI))" for us
    by (simp add: act_bind_def RaptorSerializer_write_heap)
  obtain rest where "write_all R (stmts @ more) (h @ None # replicate (datatype_uris R s) (Some OBJ_URI)) =
      write_all R more ((h @ None # replicate (datatype_uris R s) (Some OBJ_URI)) @ rest)"
    and "left_over rest = replicate_mset (sum_list (map (datatype_uris R) stmts)) OBJ_URI" for more
    using Cons by (metis list.set_intros(2))
  then show ?case
    by (intro exI [of _ "None # replicate (datatype_uris R s) (Some OBJ_URI) @ rest"])
      (simp add: step replicate_mset_plus del: write_all.simps)
qed (auto intro: exI [of _ "[]"])

text \<open>Writing statements that are all complete, and up to one that is not.\<close>

lemma serialize_objects_complete:
  assumes "\<forall>s \<in> set stmts. complete_statement s"
  shows "\<exists>rest. serialize_objects R this stmts h = (Inr (), h @ rest) \<and>
    left_over rest = replicate_mset (sum_list (map (datatype_uris R) stmts)) OBJ_URI"
proof -
  obtain rest where rest: "\<And>more. write_all R (stmts @ more) (h @ [Some OBJ_IOSTREAM]) = write_all R more ((h @ [Some OBJ_IOSTREAM]) @ rest)"
    "left_over rest = replicate_mset (sum_list (map (datatype_uris R) stmts)) OBJ_URI"
    using write_all_complete [OF assms] by metis
  have "serialize_objects R this stmts h = (Inr (), h @ None # rest)"
    using rest(1) [of "[]"]
    by (simp add: serialize_objects_def RaptorSerializer_open_stream_def RaptorSerializer_close_stream_def
        act_bind_def object_new_def act_return_def object_free_def nth_append list_update_append)
  with rest(2) show ?thesis by auto
qed

lemma serialize_objects_incomplete:
  assumes "\<forall>s \<in> set pre. complete_statement s" and "raptor_triple R s = Inl e"
  shows "\<exists>rest. serialize_objects R this (pre @ s # suf) h = (Inl e, h @ rest) \<and>
    left_over rest = {#OBJ_IOSTREAM, OBJ_STATEMENT#} +
      replicate_mset (sum_list (map (datatype_uris R) (pre @ [s]))) OBJ_URI"
proof -
  obtain rest where rest: "\<And>more. write_all R (pre @ more) (h @ [Some OBJ_IOSTREAM]) = write_all R more ((h @ [Some OBJ_IOSTREAM]) @ rest)"
    "left_over rest = replicate_mset (sum_list (map (datatype_uris R) pre)) OBJ_URI"
    using write_all_complete [OF assms(1)] by metis
  have "serialize_objects R this (pre @ s # suf) h =
      (Inl e, h @ Some OBJ_IOSTREAM # rest @ Some OBJ_STATEMENT # replicate (datatype_uris R s) (Some OBJ_URI))"
    using rest(1) [of "s # suf"] assms(2)
    by (simp add: serialize_objects_def RaptorSerializer_open_stream_def act_bind_def object_new_def act_return_def
        RaptorSerializer_write_heap)
  with rest(2) show ?thesis by (simp add: replicate_mset_plus)
qed

text \<open>
  The contract of a class that owns objects: what the constructor makes, the destructor frees,
  whatever has been made meanwhile, except for objects of the kinds \<open>kept\<close>. A block with a local object of such a class leaves behind what
  the block itself leaves and what the class keeps, also when it ends with an exception.
\<close>

locale owner =
  fixes construct :: "'p action" and destroy :: "'p \<Rightarrow> unit action" and kept :: "library_object multiset"
  assumes life: "\<exists>p owned gone. construct h = (Inr p, h @ owned) \<and> left_over gone = kept \<and>
    (\<forall>rest. destroy p (h @ owned @ rest) = (Inr (), h @ gone @ rest))"
begin

lemma scoped_leaves:
  assumes "\<And>p h. \<exists>rest. block p h = (r, h @ rest) \<and> left_over rest = left"
  shows "\<exists>rest. scoped construct destroy block h = (r, h @ rest) \<and> left_over rest = kept + left"
proof -
  obtain p owned gone where p: "construct h = (Inr p, h @ owned)" "left_over gone = kept"
    "\<And>rest. destroy p (h @ owned @ rest) = (Inr (), h @ gone @ rest)"
    using life by blast
  obtain rest where "block p (h @ owned) = (r, (h @ owned) @ rest)" "left_over rest = left" using assms by blast
  then have "scoped construct destroy block h = (r, h @ gone @ rest)" using p by (simp add: scoped_def act_bind_def)
  then show ?thesis using p(2) \<open>left_over rest = left\<close> by (intro exI [of _ "gone @ rest"]) simp
qed

end

interpretation raptor_owner: owner "RaptorSerializer_make R baseUri b" RaptorSerializer_destroy
  "replicate_mset (namespace_uris R b) OBJ_URI" for R baseUri b
proof
  fix h
  let ?uris = "replicate (namespace_uris R b) (Some OBJ_URI)"
  show "\<exists>p owned gone. RaptorSerializer_make R baseUri b h = (Inr p, h @ owned) \<and>
     left_over gone = replicate_mset (namespace_uris R b) OBJ_URI \<and>
     (\<forall>rest. RaptorSerializer_destroy p (h @ owned @ rest) = (Inr (), h @ gone @ rest))"
  proof (cases "raptor_new_uri R (c_str (uri_uri baseUri))")
    case None
    let ?p = "\<lparr>ptr_serializer = Some (length h + 1), ptr_world = Some (length h), ptr_base = None, ptr_stream = None\<rparr>"
      and ?owned = "[Some OBJ_WORLD, Some OBJ_SERIALIZER] @ ?uris"
    have "RaptorSerializer_make R baseUri b h = (Inr ?p, h @ ?owned)"
      using None by (simp add: RaptorSerializer_make_def initRaptor_objects_def namespace_objects_heap namespace_uris_def action_defs)
    moreover have "RaptorSerializer_destroy ?p (h @ ?owned @ rest) = (Inr (), h @ ([None, None] @ ?uris) @ rest)" for rest
      by (simp add: RaptorSerializer_destroy_def action_defs nth_append list_update_append)
    moreover have "left_over ([None, None] @ ?uris) = replicate_mset (namespace_uris R b) OBJ_URI" by simp
    ultimately show ?thesis by blast
  next
    case (Some u)
    let ?p = "\<lparr>ptr_serializer = Some (length h + 2), ptr_world = Some (length h), ptr_base = Some (length h + 1), ptr_stream = None\<rparr>"
      and ?owned = "[Some OBJ_WORLD, Some OBJ_URI, Some OBJ_SERIALIZER] @ ?uris"
    have "RaptorSerializer_make R baseUri b h = (Inr ?p, h @ ?owned)"
      using Some by (simp add: RaptorSerializer_make_def initRaptor_objects_def namespace_objects_heap namespace_uris_def action_defs)
    moreover have "RaptorSerializer_destroy ?p (h @ ?owned @ rest) = (Inr (), h @ ([None, None, None] @ ?uris) @ rest)" for rest
      by (simp add: RaptorSerializer_destroy_def action_defs nth_append list_update_append)
    moreover have "left_over ([None, None, None] @ ?uris) = replicate_mset (namespace_uris R b) OBJ_URI" by simp
    ultimately show ?thesis by blast
  qed
qed

text \<open>
  C35: the objects of a Raptor serializer, over its whole life from the constructor to the destructor. It never frees an object twice or one it
  does not own, and objects made before are untouched. When every statement can be written it leaves exactly the URIs made for its
  namespaces and for the datatypes of literals, one for each that Raptor accepts, which nothing frees. When a statement cannot be written, the block ends with
  the error of the first such statement, and leaves besides the URIs made so far exactly two objects,
  the output stream, because \<open>close\<close> is not reached, and the statement under construction.
\<close>

theorem serializer_objects:
  "((\<forall>s \<in> set stmts. complete_statement s) \<longrightarrow>
     (\<exists>rest. serializer_block R baseUri b stmts h = (Inr (), h @ rest) \<and>
       left_over rest = replicate_mset (namespace_uris R b + sum_list (map (datatype_uris R) stmts)) OBJ_URI)) \<and>
   (\<forall>pre s suf. stmts = pre @ s # suf \<and> (\<forall>u \<in> set pre. complete_statement u) \<and> \<not> complete_statement s \<longrightarrow>
     (\<exists>e rest. raptor_triple R s = Inl e \<and> serializer_block R baseUri b stmts h = (Inl e, h @ rest) \<and>
       left_over rest = {#OBJ_IOSTREAM, OBJ_STATEMENT#} +
         replicate_mset (namespace_uris R b + sum_list (map (datatype_uris R) (pre @ [s]))) OBJ_URI))"
proof (intro conjI allI impI)
  assume "\<forall>s \<in> set stmts. complete_statement s"
  from raptor_owner.scoped_leaves [OF serialize_objects_complete [OF this]]
  show "\<exists>rest. serializer_block R baseUri b stmts h = (Inr (), h @ rest) \<and>
       left_over rest = replicate_mset (namespace_uris R b + sum_list (map (datatype_uris R) stmts)) OBJ_URI"
    unfolding serializer_block_def replicate_mset_plus .
next
  fix pre s suf
  assume stmts: "stmts = pre @ s # suf \<and> (\<forall>u \<in> set pre. complete_statement u) \<and> \<not> complete_statement s"
  then obtain e where e: "raptor_triple R s = Inl e" using raptor_triple_accepts [of R s] by (cases "raptor_triple R s") auto
  have pre: "\<forall>u \<in> set pre. complete_statement u" using stmts by blast
  have "\<exists>rest. serializer_block R baseUri b (pre @ s # suf) h = (Inl e, h @ rest) \<and>
      left_over rest = replicate_mset (namespace_uris R b) OBJ_URI + ({#OBJ_IOSTREAM, OBJ_STATEMENT#} +
        replicate_mset (sum_list (map (datatype_uris R) (pre @ [s]))) OBJ_URI)"
    unfolding serializer_block_def by (rule raptor_owner.scoped_leaves) (rule serialize_objects_incomplete [OF pre e])
  with e stmts show "\<exists>e rest. raptor_triple R s = Inl e \<and> serializer_block R baseUri b stmts h = (Inl e, h @ rest) \<and>
       left_over rest = {#OBJ_IOSTREAM, OBJ_STATEMENT#} +
         replicate_mset (namespace_uris R b + sum_list (map (datatype_uris R) (pre @ [s]))) OBJ_URI"
    by (auto simp: replicate_mset_plus)
qed

theorem serializer_objects_witness:
  "left_over (snd (serializer_block list_raptor (URI_new ''http://b'')
     (SerializerBase_new (URI_new ''http://b'') SF_TURTLE [Namespace_new ''p'' ''http://n'']) [Statement_default] [])) =
     {#OBJ_IOSTREAM, OBJ_STATEMENT, OBJ_URI#}"
proof -
  let ?b = "SerializerBase_new (URI_new ''http://b'') SF_TURTLE [Namespace_new ''p'' ''http://n'']"
  have "\<not> complete_statement Statement_default" by (simp add: complete_statement_def subject_of_def Statement_default_def)
  moreover have "namespace_uris list_raptor ?b = 1" "datatype_uris list_raptor Statement_default = 0"
    by code_simp+
  ultimately show ?thesis
    using serializer_objects [where R = list_raptor and baseUri = "URI_new ''http://b''" and b = ?b and
        stmts = "[Statement_default]" and h = "[]"]
    by fastforce
qed

subsection \<open>The parser and the queries\<close>

lemma parser_owner:
  assumes "parser_name format \<noteq> None" and "new_uri (c_str (uri_uri baseUri)) \<noteq> None"
  shows "owner (Parser_make new_uri baseUri format) Parser_destroy {#}"
proof
  fix h :: object_heap
  let ?p = "\<lparr>pp_parser = Some (length h + 2), pp_world = Some (length h), pp_base = Some (length h + 1)\<rparr>"
    and ?owned = "[Some OBJ_WORLD, Some OBJ_URI, Some OBJ_PARSER]"
  have "Parser_make new_uri baseUri format h = (Inr ?p, h @ ?owned)"
    using assms by (auto simp: Parser_make_def action_defs)
  moreover have "Parser_destroy ?p (h @ ?owned @ rest) = (Inr (), h @ [None, None, None] @ rest)" for rest
    by (simp add: Parser_destroy_def action_defs nth_append list_update_append)
  moreover have "left_over [None, None, None] = {#}" by simp
  ultimately show "\<exists>p owned gone. Parser_make new_uri baseUri format h = (Inr p, h @ owned) \<and> left_over gone = {#} \<and>
     (\<forall>rest. Parser_destroy p (h @ owned @ rest) = (Inr (), h @ gone @ rest))" by blast
qed

text \<open>
  The objects of a parser. A parser for a format that Raptor is asked for, with a base URI that
  Raptor accepts, leaves the heap as it was, whether parsing succeeds or ends with an exception.
\<close>

theorem parser_objects:
  assumes "parser_name format \<noteq> None" and "new_uri (c_str (uri_uri baseUri)) \<noteq> None"
  shows "live (snd (parser_block R new_uri baseUri format work h)) = live h"
proof -
  define r where "r = (case Parser_new R new_uri baseUri format of Inl e \<Rightarrow> Inl e
    | Inr p \<Rightarrow> (case work p of Inl e \<Rightarrow> Inl e | Inr (_, s) \<Rightarrow> Inr s))"
  have "(case Parser_new R new_uri baseUri format of Inl e \<Rightarrow> act_throw e
      | Inr p \<Rightarrow> (case work p of Inl e \<Rightarrow> act_throw e | Inr (_, s) \<Rightarrow> act_return s)) h = (r, h @ []) \<and> left_over [] = {#}" for h
    by (simp add: r_def act_throw_def act_return_def split: sum.split prod.split)
  then have "\<exists>rest. parser_block R new_uri baseUri format work h = (r, h @ rest) \<and> left_over rest = {#} + {#}"
    unfolding parser_block_def
    by (intro owner.scoped_leaves [OF parser_owner [where new_uri = new_uri, OF assms]]) blast
  then show ?thesis by (auto simp: left_over_none)
qed

interpretation sparql_owner: owner SparqlService_make SparqlService_destroy "{#}"
proof
  fix h
  have "SparqlService_make h = (Inr (Some (length h)), h @ [Some OBJ_WORLD])"
    by (simp add: SparqlService_make_def action_defs)
  moreover have "SparqlService_destroy (Some (length h)) (h @ [Some OBJ_WORLD] @ rest) = (Inr (), h @ [None] @ rest)" for rest
    by (simp add: SparqlService_destroy_def action_defs nth_append list_update_append)
  moreover have "left_over [None] = {#}" by simp
  ultimately show "\<exists>p owned gone. SparqlService_make h = (Inr p, h @ owned) \<and> left_over gone = {#} \<and>
      (\<forall>rest. SparqlService_destroy p (h @ owned @ rest) = (Inr (), h @ gone @ rest))" by blast
qed

lemma result_row_error: "result_row Q bs row = Inl e \<Longrightarrow> e = Undefined"
proof (induction bs arbitrary: row)
  case (Cons b bs)
  obtain name v where b: "b = (name, v)" by (cases b)
  show ?case
  proof (cases "ConvertValue Q v")
    case (Inl e')
    then have "e' = Undefined"
      by (auto simp: ConvertValue_def typed_value_def typed_assign_def
          split: option.splits rasqal_literal_type.splits)
    then show ?thesis using Cons Inl by (simp add: b)
  next
    case (Inr x)
    then show ?thesis using Cons by (simp add: b)
  qed
qed simp

lemma TupleQuery_loop_error:
  assumes "TupleQuery_loop Q G row_handler nxt r s = Some y"
  shows "y \<noteq> Inl e \<or> e = Undefined"
  using assms
proof (rule TupleQuery_loop.raw_induct [where P = "\<lambda>Q G row_handler nxt r s y. y \<noteq> Inl e \<or> e = Undefined", rotated])
qed (auto split: if_splits sum.splits dest: result_row_error)

lemma free_three:
  "act_bind (object_new OBJ_RESULTS) (\<lambda>r. act_bind (object_free OBJ_RESULTS r) (\<lambda>_.
     act_bind (object_free OBJ_QUERY (Some (length h))) (\<lambda>_.
     act_bind (object_free OBJ_URI (Some (Suc (length h)))) (\<lambda>_. act_return s)))) (h @ [Some OBJ_QUERY, Some OBJ_URI]) =
   (Inr s, h @ [None, None, None])"
  by (simp add: action_defs nth_append list_update_append)

lemma new_throw: "act_bind (object_new k) (\<lambda>p. act_throw e) h = (Inl e, h @ [Some k])"
  by (simp add: action_defs)

lemma free_two:
  "act_bind (object_free OBJ_URI (Some (Suc (length h)))) (\<lambda>_.
     act_bind (object_free OBJ_QUERY (Some (length h))) (\<lambda>_. act_throw e)) (h @ [Some OBJ_QUERY, Some OBJ_URI]) =
   (Inl e, h @ [None, None])"
  by (simp add: action_defs nth_append list_update_append)

lemma TupleQuery_objects_result:
  "TupleQuery_objects Q G query row_handler s h =
    (case TupleQuery Q G query row_handler s of
       None \<Rightarrow> None
     | Some (Inr s') \<Rightarrow> Some (Inr s', h @ [None, None, None])
     | Some (Inl e) \<Rightarrow> Some (Inl e, if e = Undefined then h @ [Some OBJ_QUERY, Some OBJ_URI, Some OBJ_RESULTS] else h @ [None, None]))"
proof -
  have start: "act_bind (object_new OBJ_QUERY) (\<lambda>q. act_bind (object_new OBJ_URI) (\<lambda>base. act_return (q, base))) h =
      (Inr (Some (length h), Some (Suc (length h))), h @ [Some OBJ_QUERY, Some OBJ_URI])"
    by (simp add: action_defs)
  show ?thesis
  proof (cases "rasqal_query_prepare G (c_str query)")
    case None
    then show ?thesis by (simp add: TupleQuery_objects_def TupleQuery_def start free_two exec_throw_def)
  next
    case q: (Some q)
    show ?thesis
    proof (cases "rasqal_query_execute G q")
      case None
      then show ?thesis using q by (simp add: TupleQuery_objects_def TupleQuery_def start free_two exec_throw_def)
    next
      case (Some r)
      show ?thesis
      proof (cases "TupleQuery_loop Q G row_handler True r s")
        case None
        then show ?thesis using q Some by (simp add: TupleQuery_objects_def TupleQuery_def start)
      next
        case loop: (Some y)
        show ?thesis
        proof (cases y)
          case (Inl e)
          then have "e = Undefined" using TupleQuery_loop_error [OF loop, of e] by simp
          then show ?thesis using q Some loop Inl
            by (simp add: TupleQuery_objects_def TupleQuery_def start new_throw)
        next
          case (Inr s')
          then show ?thesis using q Some loop
            by (simp add: TupleQuery_objects_def TupleQuery_def start free_three)
        qed
      qed
    qed
  qed
qed

text \<open>
  C23: the objects of a tuple query. Handling the query, the base URI and the results by hand does not
  change what \<open>TupleQuery\<close> answers, and whenever it returns or reports that the query could not be
  prepared or executed, it has freed exactly what it made, each object once.
\<close>

theorem TupleQuery_frees:
  "map_option fst (TupleQuery_objects Q G query row_handler s h) = TupleQuery Q G query row_handler s \<and>
   (\<forall>r h'. TupleQuery_objects Q G query row_handler s h = Some (r, h') \<and> r \<noteq> Inl Undefined \<longrightarrow> live h' = live h)"
  by (auto simp: TupleQuery_objects_result split: option.splits sum.splits if_splits)

theorem TupleQuery_frees_witness:
  "live (snd (the (TupleQuery_objects list_rasqal (scripted_engine []) '''' (\<lambda>s row. (True, s)) () []))) = {}"
  using TupleQuery_frees [of list_rasqal "scripted_engine []" "''''" "\<lambda>s row. (True, s)" "()" "[]"]
  by (auto simp: TupleQuery_def scripted_engine_def exec_throw_def c_str_def)

end
