(* ===== verification/Rdf_Accessors.thy ===== *)
theory Rdf_Accessors
  imports Rdf_Model
begin

text \<open>
  The accessors of the classes of \<open>model/rdf_model.h\<close>, and how they go with the constructors and the
  setters. A setter of a field overwrites it, with one exception: \<open>setDatatype\<close> merges the given
  URI into the datatype of the literal, and merging an empty text changes nothing.
\<close>

subsection \<open>Accessors\<close>

definition Namespace_getPrefix :: "proto_Namespace \<Rightarrow> string" where
  "Namespace_getPrefix this = ns_prefix this"

definition Namespace_getUri :: "proto_Namespace \<Rightarrow> string" where
  "Namespace_getUri this = ns_uri this"

definition URI_getUri :: "proto_URI \<Rightarrow> string" where
  "URI_getUri this = uri_uri this"

definition URI_stringValue :: "proto_URI \<Rightarrow> string" where
  "URI_stringValue this = uri_uri this"

definition BNode_getId :: "proto_BNode \<Rightarrow> string" where
  "BNode_getId this = bnode_id this"

definition BNode_stringValue :: "proto_BNode \<Rightarrow> string" where
  "BNode_stringValue this = bnode_id this"

definition StringLiteral_getContent :: "proto_StringLiteral \<Rightarrow> string" where
  "StringLiteral_getContent this = sl_content this"

definition StringLiteral_getLanguage :: "proto_StringLiteral \<Rightarrow> string" where
  "StringLiteral_getLanguage this = sl_language this"

definition StringLiteral_stringValue :: "proto_StringLiteral \<Rightarrow> string" where
  "StringLiteral_stringValue this = sl_content this"

definition DatatypeLiteral_getContent :: "proto_DatatypeLiteral \<Rightarrow> string" where
  "DatatypeLiteral_getContent this = dl_content this"

definition DatatypeLiteral_getDatatype :: "proto_DatatypeLiteral \<Rightarrow> proto_URI" where
  "DatatypeLiteral_getDatatype this = datatype_of this"

definition DatatypeLiteral_stringValue :: "proto_DatatypeLiteral \<Rightarrow> string" where
  "DatatypeLiteral_stringValue this = dl_content this"

lemmas accessor_defs =
  Namespace_getPrefix_def Namespace_getUri_def URI_getUri_def URI_stringValue_def BNode_getId_def BNode_stringValue_def
  StringLiteral_getContent_def StringLiteral_getLanguage_def StringLiteral_stringValue_def
  DatatypeLiteral_getContent_def DatatypeLiteral_getDatatype_def DatatypeLiteral_stringValue_def

lemmas setter_defs =
  Namespace_setPrefix_def Namespace_setUri_def URI_setUri_def BNode_setId_def StringLiteral_setContent_def
  StringLiteral_setLanguage_def DatatypeLiteral_setContent_def DatatypeLiteral_setDatatype_def

subsection \<open>Reading back\<close>

text \<open>The contract of a field: what was set is read, setting twice is setting once, setting what is there changes nothing.\<close>

locale field =
  fixes read_field :: "'o \<Rightarrow> 'f" and set_field :: "'o \<Rightarrow> 'f \<Rightarrow> 'o"
  assumes read_set: "read_field (set_field x v) = v"
    and set_set: "set_field (set_field x u) v = set_field x v"
    and set_read: "set_field x (read_field x) = x"
begin

lemma set_foldl: "vs \<noteq> [] \<Longrightarrow> foldl set_field x vs = set_field x (last vs)"
proof (induction vs rule: rev_induct)
  case (snoc v vs)
  then show ?case by (cases "vs = []") (simp_all add: set_set)
qed simp

lemma read_foldl: "read_field (foldl set_field x vs) = (if vs = [] then read_field x else last vs)"
  by (simp add: set_foldl read_set)

lemma determined: "set_field x v = set_field y v \<Longrightarrow> read_field x = read_field y \<Longrightarrow> x = y"
  using set_read set_set by metis

end

interpretation prefix: field Namespace_getPrefix Namespace_setPrefix
  by unfold_locales (simp_all add: accessor_defs setter_defs)

interpretation namespace_uri: field Namespace_getUri Namespace_setUri
  by unfold_locales (simp_all add: accessor_defs setter_defs)

interpretation uri_text: field URI_getUri URI_setUri
  by unfold_locales (simp_all add: accessor_defs setter_defs)

interpretation bnode_text: field BNode_getId BNode_setId
  by unfold_locales (simp_all add: accessor_defs setter_defs)

interpretation string_content: field StringLiteral_getContent StringLiteral_setContent
  by unfold_locales (simp_all add: accessor_defs setter_defs)

interpretation string_language: field StringLiteral_getLanguage StringLiteral_setLanguage
  by unfold_locales (simp_all add: accessor_defs setter_defs)

interpretation typed_content: field DatatypeLiteral_getContent DatatypeLiteral_setContent
  by unfold_locales (simp_all add: accessor_defs setter_defs)

text \<open>
  Setting the datatype of a literal. A URI with a text is read back; the empty URI leaves the
  datatype as it was, because the setter merges.
\<close>

theorem setDatatype_getDatatype:
  "DatatypeLiteral_getDatatype (DatatypeLiteral_setDatatype l d) =
     (if uri_uri d = '''' then DatatypeLiteral_getDatatype l else d)"
proof -
  have "URI_MergeFrom u d = (if uri_uri d = '''' then u else d)" for u
    by (cases u; cases d) (simp add: URI_MergeFrom_def merge_string_def)
  then show ?thesis by (simp add: accessor_defs setter_defs datatype_of_def)
qed

end
