(* ===== verification/Spec2Isabelle.thy ===== *)
theory Spec2Isabelle
  imports Server_Process Client_Queries Concurrent_Queries Partial_Failure Lifetimes Rdf_Accessors
begin

text \<open>
  A verification development of cmarmotta, an RDF triple store with a gRPC interface.

  \<^bold>\<open>The program.\<close> Statements (subject, predicate, object, context) are stored in LevelDB. A
  persistence server keeps four databases with the same statements under keys in four orders
  (SPOC, CSPO, OPSC, PCOS), each key being the concatenation of four 16-byte MurmurHash3 hashes,
  and two databases with namespaces, by prefix and by URI. It serves two gRPC services: one to add,
  list, remove and count statements and namespaces, and one for SPARQL queries, which the Rasqal
  engine evaluates over a triple source that reads the same store. A sharding server offers the
  first service and distributes statements over several persistence servers by their hash. A
  command line client imports files, which Raptor parses, and prints results, which Raptor or
  Protocol Buffers serialize.

  \<^bold>\<open>Theories and sources.\<close> Paths are relative to \<open>src/\<close>; definitions keep the names of the code,
  methods being prefixed by their class where a name is not unique.

  \<^item> \<open>Prelude\<close>, \<open>Std\<close>: bytes and words, the error values (a sum type; \<open>exec\<close> adds the case of not
    returning), C strings, \<open>std::map\<close>, decimal numbers, input streams.
  \<^item> \<open>Murmur3\<close>: \<open>util/murmur3.cc\<close>, the three hash functions on words of the C++ widths.
  \<^item> \<open>Util\<close>: \<open>util/iterator.h\<close> and \<open>util/split.cc\<close>. An iterator class is a record of its virtual
    methods over a state; the locale \<open>closeable_iterator\<close> is the contract every user of one relies
    on, and each iterator of the code is an interpretation or a sublocale of it.
  \<^item> \<open>Rdf_Model\<close>, \<open>Rdf_Accessors\<close>, \<open>Rdf_Numbers\<close>, \<open>Rdf_Operators\<close>, \<open>Rdf_Equality\<close>: \<open>model/\<close>.
    Messages are records, a \<open>oneof\<close> is a datatype; constructors, assignments (merging, as the code
    does), accessors, Turtle texts, integer conversions, equality (contract \<open>equality_operators\<close>)
    and hashes.
  \<^item> \<open>LevelDB\<close>: what is used of LevelDB and of the generated message code, as the record
    \<open>environment\<close> of parameters, with the contracts \<open>leveldb_contract\<close> and \<open>codec_contract\<close> (locale
    \<open>store\<close>). \<open>list_environment\<close>, with sorted lists and a wire format, is an instance of both.
  \<^item> \<open>Keys\<close>, \<open>Persistence\<close>: \<open>persistence/leveldb_persistence.cc\<close> and its header: keys and their
    order, pattern queries, the iterators over index ranges, and every operation of the class
    \<open>LevelDBPersistence\<close> (record of seven databases). The threads that write the batches are the
    list \<open>run_writers\<close>; \<open>writers_step\<close> gives their interleavings.
  \<^item> \<open>Statement_Store\<close>, \<open>Namespace_Store\<close>, \<open>Update_Store\<close>: the abstract specification of those
    operations. \<open>stored\<close> is the set of statements of a store, \<open>ns_lookup\<close> the map of a namespace
    database, \<open>wf_statements\<close> and \<open>wf_namespaces\<close> the invariants (the four indexes are sorted and
    hold the same statements), and the operations are proved to refine updates of that set and
    those maps.
  \<^item> \<open>Grpc\<close>, \<open>Service\<close>: the request streams and the handlers of \<open>persistence/leveldb_service.cc\<close>.
    \<open>Concurrent_Handlers\<close>: handlers that run at the same time on the shared store, as a step
    relation over the pending writer threads; \<open>Concurrent_Queries\<close>: queries among them, and that
    the threads end. \<open>Server_Spec\<close>: the dispatch of requests
    (\<open>handle_request\<close>), the abstract specification of the service (\<open>spec_allows\<close> over a set of
    statements and two maps of namespaces) and the simulation between them.
  \<^item> \<open>Triple_Source\<close>: \<open>persistence/leveldb_sparql.cc\<close>. \<open>Rasqal_Model\<close>, \<open>Sparql\<close>,
    \<open>Sparql_Service\<close>: \<open>sparql/\<close>, the conversions between Rasqal's literals and the RDF model, the
    callbacks of the triple source, the evaluation of a tuple query, and the registration of the
    callbacks with the engine, with the contracts \<open>rasqal_literals\<close>, \<open>source_iterator\<close>,
    \<open>triple_source\<close> and \<open>rasqal_results\<close>. The member \<open>parsed\<close> that the iterator of the triple source leaves
    uninitialised is an argument, and theorems quantify over it.
  \<^item> \<open>Sharding\<close>, \<open>Sharded_Store\<close>: \<open>sharding/sharding.cc\<close> over a record of stub calls with the
    contract \<open>sail_backend\<close>, and the proof that a persistence service keeps it (\<open>reliable_store\<close>);
    \<open>Sharded_Updates\<close>: batches (contract \<open>update_backend\<close>) and namespaces. \<open>Proxy_Spec\<close>: the
    dispatch of requests by the proxy (\<open>proxy_request\<close>) and its simulation of the specification of
    \<open>Server_Spec\<close>, statements being spread over the shards and namespaces replicated.
    \<open>Partial_Failure\<close>: the proxy while some of its backends cannot be reached.
  \<^item> \<open>Raptor\<close>, \<open>Parser\<close>, \<open>Serializer\<close>: \<open>parser/\<close> and \<open>serializer/\<close>, over a parameter for Raptor
    with the contract \<open>raptor_terms\<close>. \<open>Lifetimes\<close>: the constructors, destructors and the freeing of
    library objects in \<open>parser/\<close>, \<open>serializer/serializer_raptor.cc\<close> and \<open>sparql/rasqal_adapter.cc\<close>, as
    actions on a heap, with the contract \<open>owner\<close> of a class that owns objects; the URIs that the serializer
    makes and nothing frees are objects of that heap too.
  \<^item> \<open>Client\<close>, \<open>Executables\<close>, \<open>Client_Queries\<close>: \<open>client/client.cc\<close>, \<open>persistence/leveldb_server.cc\<close> and
    \<open>sharding/server.cc\<close>, up to and including the three \<open>main\<close> functions. \<open>Server_Process\<close>: the
    life of a server process, from the start through requests and signals to the exit, as a step
    relation with the contract \<open>service_process\<close>. Its states have the requests received and not yet answered; the
    persistence server has both of its services, the specification of which is \<open>server_spec\<close>.

  \<^bold>\<open>What is shown.\<close>

  \<^item> Storing: adding, removing and batch updates do to the set of statements what they should, on
    all four indexes, count correctly, keep the invariant, and abort when a write fails; every
    schedule of the writing threads has the same outcome. The key computed by permuting the parts
    of another key is the key computed directly.
  \<^item> Querying: a range of keys is exactly the set of keys with a given prefix, so a query reports
    exactly the statements whose hashes agree with the fields the chosen index can use, each once;
    for patterns without gaps and hashes without collisions these are exactly the matching
    statements; fields behind a gap are ignored. The hash itself is injective on blocks.
  \<^item> Services: adding and then querying, clearing by context, counting, tuple queries; matching a
    triple pattern through the callbacks of the query engine.
  \<^item> The server as a whole: for every sequence of answered requests the answers are those of the
    specification and the invariants hold. While the disk works, handlers do not overlap, and requests and queries are in
    order, the process does not crash, loses no request, and after a signal can answer what is pending and
    exit with status 0. A query that the engine refuses ends the process.
  \<^item> Concurrency: additions that run at the same time leave consistent indexes with all statements
    in every interleaving, which always ends, and a query among them misses nothing that was stored
    before and reports nothing that was not added; an addition and a removal can leave the indexes
    inconsistent.
  \<^item> Sharding: a stream is routed by hash, and the proxy over persistence servers implements the
    specification of a single server for every sequence of requests that are handled one after the other (batches that add
    namespaces and the request for the contexts excepted), every number it draws and every schedule of its threads, which all end,
    while the disks work and hashes do not collide, up to its counts: the sum of a fan-out is unprotected, and with
    several backends it may lose responses, but not invent them. Reading contexts ends the process. While a backend is down, additions and queries
    answer \<open>OK\<close> with what the others hold, and the operations that fan out report the failure.
  \<^item> Input and output: the parser feeds every byte in order and ends; what the serializer hands to
    Raptor is what the parser makes of it; values survive the query engine; errors of both. No
    library object is freed twice; a query frees all it made, and a serializer all but the URIs of its namespaces and
    of datatypes and, when a statement cannot be written, the output stream and that statement.
  \<^item> Programs: a started server, an import and a count; deletion, SPARQL queries and the list of
    namespaces from the command line; the backends a proxy is started with.

  \<^bold>\<open>Choices.\<close> No definition uses fuel. Loops over data are structurally recursive; \<open>split\<close>, the
  wire format and the parsing loop are \<open>function\<close>s with a measure; loops over iterators, whose end
  depends on the iterator, are \<open>partial_function (option)\<close>, and the theorems state that they return
  for every iterator that keeps its contract. Threads are schedules, lists of thread numbers, and
  theorems quantify over them; a schedule is followed by the remaining steps of each thread because
  the code joins them. Hash values, keys, lengths passed to C functions and the bit masks of triple
  parts are machine words; the 64-bit counters of statements are integers, since reaching their
  bound needs \<open>2 ^ 63\<close> statements. A null pointer is \<open>None\<close>; using one, indexing out of range or
  dividing by zero is the error \<open>Undefined\<close>, a failed \<open>CHECK\<close> is \<open>CheckFailed\<close>.

  \<^bold>\<open>Not modelled.\<close> LevelDB, Protocol Buffers, Raptor, Rasqal, gRPC and glog are not part of the
  sources and are parameters, with what is used of them as named assumptions that each have an
  instance. Left out are logging and timing (the texts that the SPARQL adapter formats for its log
  are there, the log is not), the conversions of literals to floating point numbers, the
  flag parser, the Java backend, the tests and the build files. In the life of a server process
  a handler is one step; handlers that overlap are the subject of \<open>Concurrent_Handlers\<close> and
  \<open>Concurrent_Queries\<close>, for additions, removals and queries of statements, and an addition that overlaps with a
  removal does break the invariant. What LevelDB finds when a database is opened again is not modelled. The overload of
  \<open>Serializer::serialize\<close> that takes an iterator by value (\<open>serializer/serializer.h\<close>) is not valid C++; it is only
  written down as a delegation by reference. The heap of \<open>Lifetimes\<close> has
  the objects of the C libraries to which the code keeps or drops a pointer; the memory of C++ objects is not modelled.
\<close>

end
